(* ===== verification/Prelude.thy ===== *)
theory Prelude
  imports Main "HOL-Library.Word"
begin

text \<open>
  What the components share. The types the C++ bridges are written over (bytes, the fixed-width
  integers, the POSIX error numbers a call answers with), the one range test every transfer
  makes before it touches a buffer, \<open>memcpy\<close> into a buffer with the out-of-range write written
  out as \<open>None\<close>, the ``again while interrupted'' loop around a system call, and reading
  hexadecimal back. A system call is never modelled: each definition that makes one takes
  it as an argument, a function from a world to the call's answer and the next world.
\<close>

unbundle bit_operations_syntax

named_theorems span_simps \<open>the range test on a position and a length\<close>
named_theorems blit_simps \<open>copies into a buffer\<close>
named_theorems retry_simps \<open>system calls repeated while interrupted\<close>

type_synonym byte = "8 word"
type_synonym bytes = "byte list"
type_synonym u16 = "16 word"
type_synonym u32 = "32 word"
type_synonym u64 = "64 word"

abbreviation INT_MAX :: int where
  "INT_MAX \<equiv> 2147483647"

lemma unat_u16: "unat (w :: u16) < 65536"
  using unsigned_less [of w, where ?'a = nat] by simp

lemma unat_u32: "unat (w :: u32) < 4294967296"
  using unsigned_less [of w, where ?'a = nat] by simp

lemma unat_u64: "unat (w :: u64) < 18446744073709551616"
  using unsigned_less [of w, where ?'a = nat] by simp

lemma unat_byte: "unat (w :: byte) < 256"
  using unsigned_less [of w, where ?'a = nat] by simp

section \<open>Answers of system calls\<close>

datatype errno =
    EINTR | EAGAIN | EWOULDBLOCK | EINPROGRESS | EALREADY | EISCONN | ECONNABORTED
  | ECONNREFUSED | EHOSTUNREACH | ENETUNREACH | EMSGSIZE | EINVAL | EIO | EOPNOTSUPP
  | ENOPROTOOPT | ENOSYS | EBADF | ENOENT | ENOTDIR | EEXIST | EACCES | EPERM | ELOOP
  | EISDIR | ENXIO | EMLINK | EPIPE | ENOBUFS | ENOTCONN | ECONNRESET | ENOTSUP | ECHILD
  | EOther nat

datatype 'a sysret = Ret 'a | Err errno

definition interrupted :: "'a sysret \<Rightarrow> bool" where
  "interrupted r = (case r of Ret _ \<Rightarrow> False | Err e \<Rightarrow> e = EINTR)"

lemma interrupted_simps [simp]:
  "interrupted (Err e) = (e = EINTR)"
  "\<not> interrupted (Ret x)"
  by (simp_all add: interrupted_def)

text \<open>The platform a piece of code was compiled for, where one function serves both.\<close>

datatype os = Windows | Posix

text \<open>What a call hands back to Haxe: a thrown message, or a value.\<close>

type_synonym 'a hx = "string + 'a"

section \<open>A call repeated while its answer asks for it\<close>

text \<open>
  The loop \<^verbatim>\<open>do { r = call(); } while (again(r));\<close>. It may never return, so its value is an
  \<^typ>\<open>'a option\<close>; \<open>retry_returns\<close> says when it does.
\<close>

partial_function (option) retry ::
  "('w \<Rightarrow> 'r \<times> 'w) \<Rightarrow> ('r \<Rightarrow> bool) \<Rightarrow> 'w \<Rightarrow> ('r \<times> 'w) option" where
  "retry call again w =
     (case call w of (r, w') \<Rightarrow> if again r then retry call again w' else Some (r, w'))"

lemma retry_done [retry_simps]:
  "\<not> again (fst (call w)) \<Longrightarrow> retry call again w = Some (call w)"
  by (subst retry.simps) (simp add: case_prod_beta)

lemma retry_again [retry_simps]:
  "again (fst (call w)) \<Longrightarrow> retry call again w = retry call again (snd (call w))"
  by (subst retry.simps) (simp add: case_prod_beta)

lemma retry_invariant_again:
  assumes ret: "retry call again w = Some y"
    and start: "P w"
    and keep: "\<And>v. P v \<Longrightarrow> again (fst (call v)) \<Longrightarrow> P (snd (call v))"
  shows "\<exists>v. P v \<and> call v = y \<and> \<not> again (fst y)"
proof -
  have "call = call \<longrightarrow> again = again \<longrightarrow> P w \<longrightarrow> (\<exists>v. P v \<and> call v = y \<and> \<not> again (fst y))"
  proof (rule retry.raw_induct
      [where P = "\<lambda>c a w y. c = call \<longrightarrow> a = again \<longrightarrow> P w \<longrightarrow>
         (\<exists>v. P v \<and> call v = y \<and> \<not> again (fst y))", OF _ ret])
    fix f c a w y
    assume IH: "\<And>c a w y. f c a w = Some y \<Longrightarrow> c = call \<longrightarrow> a = again \<longrightarrow> P w \<longrightarrow>
        (\<exists>v. P v \<and> call v = y \<and> \<not> again (fst y))"
      and eq: "(case c w of (r, w') \<Rightarrow> if a r then f c a w' else Some (r, w')) = Some y"
    show "c = call \<longrightarrow> a = again \<longrightarrow> P w \<longrightarrow> (\<exists>v. P v \<and> call v = y \<and> \<not> again (fst y))"
    proof (intro impI)
      assume ca: "c = call" "a = again" and "P w"
      obtain r w' where cw: "call w = (r, w')" by (cases "call w")
      show "\<exists>v. P v \<and> call v = y \<and> \<not> again (fst y)"
      proof (cases "again r")
        case True
        with eq ca cw have "f call again w' = Some y" by simp
        moreover have "P w'" using keep [OF \<open>P w\<close>] cw True by simp
        ultimately show ?thesis using IH by blast
      next
        case False
        with eq ca cw have "y = (r, w')" by simp
        then show ?thesis using \<open>P w\<close> cw False by auto
      qed
    qed
  qed
  then show ?thesis using start by blast
qed

lemma retry_invariant:
  assumes "retry call again w = Some y" and "P w" and "\<And>v. P v \<Longrightarrow> P (snd (call v))"
  shows "\<exists>v. P v \<and> call v = y \<and> \<not> again (fst y)"
  using retry_invariant_again [of call again w y P] assms by blast

corollary retry_result_final:
  "retry call again w = Some y \<Longrightarrow> \<not> again (fst y)"
  using retry_invariant [of call again w y "\<lambda>_. True"] by simp

lemma retry_returns:
  "\<not> again (fst (call (((\<lambda>v. snd (call v)) ^^ n) w))) \<Longrightarrow> \<exists>y. retry call again w = Some y"
proof (induction n arbitrary: w)
  case 0
  then show ?case by (simp add: retry_done)
next
  case (Suc n)
  show ?case
  proof (cases "again (fst (call w))")
    case True
    have "\<not> again (fst (call (((\<lambda>v. snd (call v)) ^^ n) (snd (call w)))))"
      using Suc.prems funpow_swap1 [of "\<lambda>v. snd (call v)" n w] by simp
    from Suc.IH [OF this] True show ?thesis by (simp add: retry_again)
  next
    case False
    then show ?thesis by (simp add: retry_done)
  qed
qed

section \<open>What a call leaves alone\<close>

text \<open>A call changes nothing of \<open>obs\<close>, the descriptors open, say.\<close>

definition keeps :: "('w \<Rightarrow> 'x) \<Rightarrow> ('w \<Rightarrow> 'r \<times> 'w) \<Rightarrow> bool" where
  "keeps obs f \<longleftrightarrow> (\<forall>w. obs (snd (f w)) = obs w)"

text \<open>A number that is not in a list of them, as a new descriptor is.\<close>

lemma foldr_max_int: "0 \<le> foldr max w (0::int) \<and> (\<forall>x \<in> set w. x \<le> foldr max w 0)"
  by (induction w) auto

section \<open>Positions and lengths within a buffer\<close>

text \<open>
  The test \<^verbatim>\<open>position < 0 || length < 0 || position > n || length > n - position\<close> that guards every
  transfer, in the order and with the subtraction the code uses.
\<close>

definition bad_span :: "int \<Rightarrow> int \<Rightarrow> int \<Rightarrow> bool" where
  "bad_span position len n = (position < 0 \<or> len < 0 \<or> position > n \<or> len > n - position)"

lemma not_bad_span [span_simps]:
  "\<not> bad_span position len (int n) \<longleftrightarrow>
     0 \<le> position \<and> 0 \<le> len \<and> nat position + nat len \<le> n"
  by (auto simp: bad_span_def)

text \<open>The bytes a transfer is handed, and the buffer after bytes are copied into it.\<close>

definition slice :: "nat \<Rightarrow> nat \<Rightarrow> 'a list \<Rightarrow> 'a list" where
  "slice from len xs = take len (drop from xs)"

definition blit :: "'a list \<Rightarrow> nat \<Rightarrow> 'a list \<Rightarrow> 'a list option" where
  "blit buf at data =
     (if at + length data \<le> length buf
      then Some (take at buf @ data @ drop (at + length data) buf)
      else None)"

lemma length_slice [simp]: "from + len \<le> length xs \<Longrightarrow> length (slice from len xs) = len"
  by (simp add: slice_def)

lemma slice_all [simp]: "slice 0 (length xs) xs = xs"
  by (simp add: slice_def)

lemma blit_Some_iff [blit_simps]:
  "(\<exists>buf'. blit buf at data = Some buf') \<longleftrightarrow> at + length data \<le> length buf"
  by (simp add: blit_def)

lemma blit_length [blit_simps]: "blit buf at data = Some buf' \<Longrightarrow> length buf' = length buf"
  by (auto simp: blit_def split: if_splits)

lemma blit_slice [blit_simps]:
  "blit buf at data = Some buf' \<Longrightarrow> slice at (length data) buf' = data"
  by (auto simp: blit_def slice_def split: if_splits)

lemma blit_outside [blit_simps]:
  "\<lbrakk>blit buf at data = Some buf'; i < at \<or> at + length data \<le> i; i < length buf\<rbrakk>
    \<Longrightarrow> buf' ! i = buf ! i"
  by (auto simp: blit_def nth_append split: if_splits)

section \<open>Decimal\<close>

text \<open>\<^verbatim>\<open>std::to_string\<close> of an unsigned number, and the number a string of digits reads as.\<close>

abbreviation dec_digits :: string where
  "dec_digits \<equiv> ''0123456789''"

fun decimal :: "nat \<Rightarrow> string" where
  "decimal n = (if n < 10 then [dec_digits ! n] else decimal (n div 10) @ [dec_digits ! (n mod 10)])"

declare decimal.simps [simp del]

lemma decimal_nonempty [simp]: "decimal n \<noteq> []"
  by (subst decimal.simps) simp

lemma length_decimal: "n < 10 ^ Suc k \<Longrightarrow> length (decimal n) \<le> Suc k"
proof (induction k arbitrary: n)
  case 0
  then show ?case by (subst decimal.simps) simp
next
  case (Suc k)
  have "n div 10 < 10 ^ Suc k" using Suc.prems by (simp add: less_mult_imp_div_less mult.commute)
  then have "length (decimal (n div 10)) \<le> Suc k" by (rule Suc.IH)
  then show ?case by (subst decimal.simps) simp
qed

section \<open>Hexadecimal\<close>

fun nibble_value :: "string \<Rightarrow> char \<Rightarrow> nat" where
  "nibble_value [] c = 0"
| "nibble_value (d # ds) c = (if c = d then 0 else Suc (nibble_value ds c))"

lemma nibble_value_nth:
  "\<lbrakk>distinct ds; i < length ds\<rbrakk> \<Longrightarrow> nibble_value ds (ds ! i) = i"
proof (induction ds arbitrary: i)
  case Nil
  then show ?case by simp
next
  case (Cons d ds)
  then show ?case by (cases i) auto
qed

definition hex_value :: "string \<Rightarrow> string \<Rightarrow> nat" where
  "hex_value digits s = foldl (\<lambda>a c. 16 * a + nibble_value digits c) 0 s"

lemma word_and_15: "unat ((w :: 'a::len word) AND 15) = unat w mod 16"
proof -
  have "w AND 15 = take_bit 4 w"
    by (simp add: take_bit_eq_mask mask_eq_exp_minus_1)
  then show ?thesis
    by (simp add: unsigned_take_bit_eq take_bit_nat_def)
qed

lemma nibble_of_dec: "i < 10 \<Longrightarrow> nibble_value dec_digits (dec_digits ! i) = i"
  by (rule nibble_value_nth) simp_all

lemma digit_in_digits: "i < 10 \<Longrightarrow> dec_digits ! i \<in> set dec_digits"
  by (rule nth_mem) simp

definition dec_value :: "string \<Rightarrow> nat" where
  "dec_value s = foldl (\<lambda>a c. 10 * a + nibble_value dec_digits c) 0 s"

lemma dec_value_decimal: "dec_value (decimal n) = n"
proof (induction n rule: decimal.induct)
  case (1 n)
  show ?case
  proof (cases "n < 10")
    case True
    then show ?thesis
      by (subst decimal.simps) (simp add: dec_value_def nibble_of_dec del: nibble_value.simps)
  next
    case False
    with 1 show ?thesis
      by (subst decimal.simps) (simp add: dec_value_def nibble_of_dec del: nibble_value.simps)
  qed
qed

lemma decimal_inject [simp]: "decimal m = decimal n \<longleftrightarrow> m = n"
  by (metis dec_value_decimal)

lemma decimal_digits: "set (decimal n) \<subseteq> set dec_digits"
proof (induction n rule: decimal.induct)
  case (1 n)
  show ?case
  proof (cases "n < 10")
    case True
    then show ?thesis
      using digit_in_digits [of n] by (subst decimal.simps) (simp only: if_True list.set, blast)
  next
    case False
    have "dec_digits ! (n mod 10) \<in> set dec_digits" by (rule digit_in_digits) simp
    with False 1 show ?thesis
      by (subst decimal.simps) (simp only: if_False set_append list.set, blast)
  qed
qed

end
