(* ===== verification/Shared_Names.thy ===== *)
theory Shared_Names
  imports Prelude "HOL-Library.Char_ord"
begin

text \<open>
  The names both inter-process bridges give the operating system: the shared memory region, the
  mutex and the macOS lock file of \<^verbatim>\<open>ipc/_internal/NativeSharedObject.cpp\<close>, and the socket of
  \<^verbatim>\<open>ipc/_internal/NativeLocalConnection.cpp\<close>. A C string is a \<^typ>\<open>string\<close> (a list of 8-bit
  characters) and a null pointer is \<open>None\<close>. Shown: the names stay within the systems' limits and
  alphabets, the hash is read back from its hexadecimal form (so two names share a region exactly
  when they share what is left of them and their hash), and what the socket names keep apart.
\<close>

section \<open>NativeSharedObject.cpp\<close>

definition MAX_SAFE_NAME_LENGTH :: nat where
  "MAX_SAFE_NAME_LENGTH = 160"

definition sourceName :: "string option \<Rightarrow> string" where
  "sourceName name = (case name of None \<Rightarrow> ''default'' | Some s \<Rightarrow> if s = [] then ''default'' else s)"

text \<open>64-bit FNV-1a, one step per character.\<close>

fun hashName_loop :: "u64 \<Rightarrow> string \<Rightarrow> u64" where
  "hashName_loop hash [] = hash"
| "hashName_loop hash (c # cs) = hashName_loop ((hash XOR of_char c) * 1099511628211) cs"

definition hashName :: "string \<Rightarrow> u64" where
  "hashName input = hashName_loop 1469598103934665603 input"

abbreviation hex_digits :: string where
  "hex_digits \<equiv> ''0123456789abcdef''"

text \<open>\<open>hexHash_loop (Suc i)\<close> is the pass of the loop at index \<open>i\<close>; it counts down from 15.\<close>

fun hexHash_loop :: "nat \<Rightarrow> u64 \<Rightarrow> string \<Rightarrow> string" where
  "hexHash_loop 0 hash out = out"
| "hexHash_loop (Suc i) hash out =
     hexHash_loop i (drop_bit 4 hash) (out[i := hex_digits ! unat (hash AND 15)])"

definition hexHash :: "u64 \<Rightarrow> string" where
  "hexHash hash = hexHash_loop 16 hash (replicate 16 CHR ''0'')"

definition safe_char :: "char \<Rightarrow> bool" where
  "safe_char c =
     ((CHR ''a'' \<le> c \<and> c \<le> CHR ''z'') \<or> (CHR ''A'' \<le> c \<and> c \<le> CHR ''Z'') \<or>
      (CHR ''0'' \<le> c \<and> c \<le> CHR ''9'') \<or> c = CHR ''-'' \<or> c = CHR ''_'')"

fun sanitizeName_loop :: "string \<Rightarrow> string \<Rightarrow> string" where
  "sanitizeName_loop safe [] = safe"
| "sanitizeName_loop safe (c # cs) =
     sanitizeName_loop (safe @ [if safe_char c then c else CHR ''_'']) cs"

definition sanitizeName :: "string \<Rightarrow> string" where
  "sanitizeName input =
     (let safe = sanitizeName_loop [] input;
          safe = (if safe = [] then ''default'' else safe)
      in if length safe > MAX_SAFE_NAME_LENGTH then take MAX_SAFE_NAME_LENGTH safe else safe)"

definition makeUniqueNameSuffix :: "string option \<Rightarrow> string" where
  "makeUniqueNameSuffix name =
     (let source = sourceName name in sanitizeName source @ ''_'' @ hexHash (hashName source))"

definition makeSharedName_windows :: "string option \<Rightarrow> string" where
  "makeSharedName_windows name = ''Local'' @ [CHR 0x5C] @ ''CrossByteSharedObject_'' @ makeUniqueNameSuffix name"

text \<open>The argument is \<^verbatim>\<open>SHORT_NAME_AND_LOCK_FILE\<close>: true on macOS, false on the other POSIX systems.\<close>

definition makeSharedName_posix :: "bool \<Rightarrow> string option \<Rightarrow> string" where
  "makeSharedName_posix shortName name =
     (if shortName then ''/cbso_'' @ hexHash (hashName (sourceName name))
      else ''/crossbyte_shared_object_'' @ makeUniqueNameSuffix name)"

definition makeLockPath :: "string option \<Rightarrow> string" where
  "makeLockPath name = ''/tmp/cbso_'' @ hexHash (hashName (sourceName name)) @ ''.lock''"

section \<open>NativeLocalConnection.cpp\<close>

text \<open>\<open>changed\<close> is raised by the first character replaced. \<^verbatim>\<open>snprintf\<close>'s \<^verbatim>\<open>%016llx\<close> is
  \<^const>\<open>hexHash\<close>: sixteen lower-case digits, zero-padded.\<close>

fun sanitizePipeName_loop :: "string \<Rightarrow> bool \<Rightarrow> string \<Rightarrow> string \<times> bool" where
  "sanitizePipeName_loop sanitized changed [] = (sanitized, changed)"
| "sanitizePipeName_loop sanitized changed (c # cs) =
     (if safe_char c then sanitizePipeName_loop (sanitized @ [c]) changed cs
      else sanitizePipeName_loop (sanitized @ [CHR ''_'']) True cs)"

definition sanitizePipeName :: "string option \<Rightarrow> string" where
  "sanitizePipeName name =
     (let budget = 48;
          source = sourceName name;
          (sanitized, changed) = sanitizePipeName_loop [] False source
      in if \<not> changed \<and> length sanitized \<le> budget then sanitized
         else let hash = hashName_loop 1469598103934665603 source;
                  keep = budget - 17
              in take (if length sanitized < keep then length sanitized else keep) sanitized
                 @ ''_'' @ hexHash hash)"

text \<open>The directory of the effective user, and the socket path in it.\<close>

definition userDirectory :: "u32 \<Rightarrow> string" where
  "userDirectory euid = ''/tmp/crossbyte-'' @ decimal (unat euid)"

definition makePipeName_posix :: "string \<Rightarrow> string option \<Rightarrow> string" where
  "makePipeName_posix directory name = directory @ ''/'' @ sanitizePipeName name"

section \<open>The hexadecimal form\<close>

fun hex_fixed :: "nat \<Rightarrow> u64 \<Rightarrow> string" where
  "hex_fixed 0 hash = []"
| "hex_fixed (Suc n) hash = hex_fixed n (drop_bit 4 hash) @ [hex_digits ! unat (hash AND 15)]"

lemma length_hex_fixed [simp]: "length (hex_fixed n hash) = n"
  by (induction n arbitrary: hash) auto

lemma hexHash_loop_fixed:
  "n \<le> length out \<Longrightarrow> hexHash_loop n hash out = hex_fixed n hash @ drop n out"
proof (induction n arbitrary: hash out)
  case 0
  then show ?case by simp
next
  case (Suc n)
  have "drop n (out[n := x]) = x # drop (Suc n) out" for x
    using Suc.prems by (simp add: drop_update_swap Cons_nth_drop_Suc [symmetric])
  then show ?case using Suc by simp
qed

lemma hexHash_fixed: "hexHash hash = hex_fixed 16 hash"
  by (simp add: hexHash_def hexHash_loop_fixed)

lemma length_hexHash [simp]: "length (hexHash hash) = 16"
  by (simp add: hexHash_fixed)

lemma nibble_of_digit:
  assumes "i < 16"
  shows "nibble_value hex_digits (hex_digits ! i) = i"
proof (rule nibble_value_nth)
  show "distinct hex_digits" by simp
  show "i < length hex_digits" using assms by simp
qed

lemma hex_value_fixed: "hex_value hex_digits (hex_fixed n hash) = unat hash mod 16 ^ n"
proof (induction n arbitrary: hash)
  case 0
  then show ?case by (simp add: hex_value_def)
next
  case (Suc n)
  have "hex_value hex_digits (hex_fixed (Suc n) hash)
      = 16 * (unat (drop_bit 4 hash) mod 16 ^ n) + unat hash mod 16"
    using Suc.IH [of "drop_bit 4 hash"] nibble_of_digit [of "unat hash mod 16"]
    by (simp add: hex_value_def word_and_15)
  also have "unat (drop_bit 4 hash) = unat hash div 16"
    using unat_u64 [of hash] by (simp add: unsigned_drop_bit_eq drop_bit_nat_def take_bit_nat_eq_self)
  finally show ?case
    by (simp add: mod_mult2_eq)
qed

lemma hexHash_value: "hex_value hex_digits (hexHash hash) = unat hash"
proof -
  have "unat hash < 16 ^ 16"
    using unat_u64 [of hash] by simp
  then show ?thesis by (simp add: hexHash_fixed hex_value_fixed)
qed

lemma hexHash_inject [simp]: "hexHash a = hexHash b \<longleftrightarrow> a = b"
  by (metis hexHash_value word_unat_eq_iff)

lemma hexHash_safe: "list_all safe_char (hexHash hash)"
proof -
  have digits: "list_all safe_char hex_digits"
    by (simp add: safe_char_def)
  have "safe_char (hex_digits ! i)" if "i < 16" for i
    using digits that by (simp only: list_all_length) simp
  then have "list_all safe_char (hex_fixed n hash)" for n
    by (induction n arbitrary: hash) (simp_all add: word_and_15)
  then show ?thesis by (simp add: hexHash_fixed)
qed

section \<open>Sanitising\<close>

definition sanitize_char :: "char \<Rightarrow> char" where
  "sanitize_char c = (if safe_char c then c else CHR ''_'')"

lemma safe_underscore [simp]: "safe_char (CHR ''_'')"
  by (simp add: safe_char_def)

lemma safe_sanitize_char [simp]: "safe_char (sanitize_char c)"
  by (simp add: sanitize_char_def)

lemma sanitizeName_loop_map: "sanitizeName_loop safe cs = safe @ map sanitize_char cs"
  by (induction cs arbitrary: safe) (simp_all add: sanitize_char_def)

lemma sanitizePipeName_loop_map:
  "sanitizePipeName_loop sanitized changed cs =
     (sanitized @ map sanitize_char cs, changed \<or> \<not> list_all safe_char cs)"
  by (induction cs arbitrary: sanitized changed) (simp_all add: sanitize_char_def)

lemma map_sanitize_safe: "list_all safe_char cs \<Longrightarrow> map sanitize_char cs = cs"
  by (induction cs) (simp_all add: sanitize_char_def)

lemma sourceName_nonempty [simp]: "sourceName name \<noteq> []"
  by (simp add: sourceName_def split: option.splits)

lemma sourceName_Some: "s \<noteq> [] \<Longrightarrow> sourceName (Some s) = s"
  by (simp add: sourceName_def)

lemma sanitizeName_take: "s \<noteq> [] \<Longrightarrow> sanitizeName s = take 160 (map sanitize_char s)"
  by (simp add: sanitizeName_def sanitizeName_loop_map MAX_SAFE_NAME_LENGTH_def Let_def)

lemma sanitizePipeName_cases:
  "sanitizePipeName name =
     (let source = sourceName name
      in if list_all safe_char source \<and> length source \<le> 48 then source
         else take 31 (map sanitize_char source) @ ''_'' @ hexHash (hashName source))"
  by (auto simp: sanitizePipeName_def sanitizePipeName_loop_map map_sanitize_safe hashName_def Let_def)

lemma list_all_safe_take [simp]: "list_all safe_char (take n (map sanitize_char cs))"
  by (auto simp: list_all_iff dest!: in_set_takeD)

lemma sanitizePipeName_safe: "list_all safe_char (sanitizePipeName name)"
  by (simp add: sanitizePipeName_cases Let_def hexHash_safe)

lemma sanitizePipeName_length: "length (sanitizePipeName name) \<le> 48"
  by (simp add: sanitizePipeName_cases Let_def)

lemma sanitizePipeName_nonempty: "sanitizePipeName name \<noteq> []"
  by (simp add: sanitizePipeName_cases Let_def)

lemma suffix_append_eq:
  "length x = length y \<Longrightarrow> (a @ x = b @ y) \<longleftrightarrow> a = b \<and> x = y"
  by (rule append_eq_append_conv) simp

lemma makeUniqueNameSuffix_eq_iff:
  "makeUniqueNameSuffix a = makeUniqueNameSuffix b \<longleftrightarrow>
     sanitizeName (sourceName a) = sanitizeName (sourceName b) \<and>
     hashName (sourceName a) = hashName (sourceName b)"
  using suffix_append_eq
    [of "''_'' @ hexHash (hashName (sourceName a))" "''_'' @ hexHash (hashName (sourceName b))"
      "sanitizeName (sourceName a)" "sanitizeName (sourceName b)"]
  by (simp add: makeUniqueNameSuffix_def Let_def)

lemma makeUniqueNameSuffix_safe: "list_all safe_char (makeUniqueNameSuffix name)"
  by (simp add: makeUniqueNameSuffix_def Let_def sanitizeName_take hexHash_safe)

lemma makeUniqueNameSuffix_length: "length (makeUniqueNameSuffix name) \<le> 177"
  by (simp add: makeUniqueNameSuffix_def Let_def sanitizeName_take)

section \<open>Properties\<close>

text \<open>
  C8. Two shared object names are given one region exactly when their 64-bit hashes agree and, except
  on macOS, so does what is left of them once unsafe characters are replaced and the rest past 160
  cut: different names share a region, a mutex or a lock file only through a collision of the hash.
\<close>

theorem shared_names_eq_iff:
  "(makeSharedName_posix shortName a = makeSharedName_posix shortName b \<longleftrightarrow>
      hashName (sourceName a) = hashName (sourceName b) \<and>
      (shortName \<or> sanitizeName (sourceName a) = sanitizeName (sourceName b))) \<and>
   (makeSharedName_windows a = makeSharedName_windows b \<longleftrightarrow>
      hashName (sourceName a) = hashName (sourceName b) \<and>
      sanitizeName (sourceName a) = sanitizeName (sourceName b)) \<and>
   (makeLockPath a = makeLockPath b \<longleftrightarrow>
      hashName (sourceName a) = hashName (sourceName b))"
  by (auto simp: makeSharedName_posix_def makeSharedName_windows_def makeLockPath_def
      makeUniqueNameSuffix_eq_iff)

text \<open>
  Every shared memory name is one slash followed by letters, digits, hyphens and underscores
  only; on macOS it has 22 characters, within the 31 the system allows, and elsewhere at most 202,
  within the 255 of a file name.
\<close>

theorem shared_name_bounds:
  "hd (makeSharedName_posix shortName name) = CHR ''/'' \<and>
   list_all safe_char (tl (makeSharedName_posix shortName name)) \<and>
   length (makeSharedName_posix True name) = 22 \<and>
   length (makeSharedName_posix False name) \<le> 202"
  using makeUniqueNameSuffix_length [of name]
  by (simp add: makeSharedName_posix_def hexHash_safe makeUniqueNameSuffix_safe safe_char_def)

text \<open>
  The socket path of any name, for any user id, is short enough that the length test before a
  listen (path and \<^verbatim>\<open>.lock\<close> within \<^verbatim>\<open>sun_path\<close>) passes even on macOS, whose socket paths
  have 104 bytes; and its last part is a file name of safe characters only.
\<close>

theorem pipe_path_fits:
  "length (makePipeName_posix (userDirectory euid) name) + 5 < 104 \<and>
   list_all safe_char (sanitizePipeName name) \<and> sanitizePipeName name \<noteq> []"
proof -
  have "unat euid < 10 ^ Suc 9"
    using unat_u32 [of euid] by simp
  then have "length (decimal (unat euid)) \<le> Suc 9" by (rule length_decimal)
  then show ?thesis
    using sanitizePipeName_length [of name]
    by (simp add: makePipeName_posix_def userDirectory_def sanitizePipeName_safe sanitizePipeName_nonempty)
qed

text \<open>
  A name of safe characters, 48 or fewer, is its own socket name, and any other gets a socket
  name that is itself such a name. So the hash does not keep a name like \<^verbatim>\<open>a.b\<close> apart from every
  other: the socket name it is given, used as a name, is given the same socket.
\<close>

theorem pipe_name_idempotent:
  "sanitizePipeName (Some (sanitizePipeName name)) = sanitizePipeName name \<and>
   (sanitizePipeName name = sourceName name \<longleftrightarrow>
      list_all safe_char (sourceName name) \<and> length (sourceName name) \<le> 48)"
proof
  let ?p = "sanitizePipeName name"
  have "sourceName (Some ?p) = ?p" by (simp add: sourceName_Some sanitizePipeName_nonempty)
  then show "sanitizePipeName (Some ?p) = ?p"
    using sanitizePipeName_safe [of name] sanitizePipeName_length [of name]
    by (subst sanitizePipeName_cases) simp
  show "?p = sourceName name \<longleftrightarrow> list_all safe_char (sourceName name) \<and> length (sourceName name) \<le> 48"
    using sanitizePipeName_safe [of name] sanitizePipeName_length [of name]
    by (auto simp: sanitizePipeName_cases Let_def)
qed

end
