(* ===== verification/Shared_Lock.thy ===== *)
theory Shared_Lock
  imports Shared_Names
begin

text \<open>
  The lock of a shared region in \<^verbatim>\<open>ipc/_internal/NativeSharedObject.cpp\<close>, in its three forms: a named
  mutex on Windows, \<^verbatim>\<open>flock()\<close> on the region's own descriptor on Linux, and \<^verbatim>\<open>flock()\<close> on a lock
  file in \<^verbatim>\<open>/tmp\<close> on macOS. The system calls are the fields of \<open>so_kernel\<close> and \<open>so_winapi\<close>, functions
  on a world \<open>'w\<close> that nothing here looks into. A call's context \<open>so_ctx\<close> holds what the code itself
  keeps: the thread's \<open>lastError\<close> and the memory of the mapped regions. No lock call is handed the
  regions, so they are those of the moment the lock is granted: what other participants did while
  a call waited comes before it. A lock call that never returns is \<open>None\<close>.
\<close>

section \<open>State\<close>

datatype so_error = SO_NONE | SO_LOCK_TIMEOUT | SO_FAILED | SO_NOT_OWNED

text \<open>The header and the bytes the mapping holds after it.\<close>

record region =
  magic :: u32
  payloadSize :: u32
  capacity :: u32
  payload :: bytes

record so_state =
  view :: "nat option"
  payloadRoom :: nat

record so_state_windows = so_state +
  fileMapping :: "int option"
  mutex :: "int option"

record so_state_posix = so_state +
  fd :: int
  lockFd :: int
  viewSize :: nat
  lockPath :: string
  lockRefreshed :: int

record 'w so_ctx =
  lastError :: so_error
  regions :: "nat \<Rightarrow> region"
  sys :: 'w

record stat =
  st_dev :: nat
  st_ino :: nat
  st_uid :: u32
  st_mode :: nat
  st_regular :: bool
  st_size :: nat

text \<open>The steady clock counts nanoseconds.\<close>

record 'w so_kernel =
  flock_nb :: "int \<Rightarrow> 'w \<Rightarrow> unit sysret \<times> 'w"
  flock_ex :: "int \<Rightarrow> 'w \<Rightarrow> unit sysret \<times> 'w"
  flock_un :: "int \<Rightarrow> 'w \<Rightarrow> 'w"
  now :: "'w \<Rightarrow> int"
  sleep_for :: "int \<Rightarrow> 'w \<Rightarrow> 'w"
  close_fd :: "int \<Rightarrow> 'w \<Rightarrow> 'w"
  open_lock :: "string \<Rightarrow> 'w \<Rightarrow> int sysret \<times> 'w"
  fstat :: "int \<Rightarrow> 'w \<Rightarrow> stat option \<times> 'w"
  lstat_path :: "string \<Rightarrow> 'w \<Rightarrow> stat option \<times> 'w"
  geteuid :: "'w \<Rightarrow> u32"
  fchmod_own :: "int \<Rightarrow> 'w \<Rightarrow> 'w"
  futimes :: "int \<Rightarrow> 'w \<Rightarrow> 'w"
  shm_open :: "string \<Rightarrow> 'w \<Rightarrow> int sysret \<times> 'w"
  ftruncate :: "int \<Rightarrow> nat \<Rightarrow> 'w \<Rightarrow> bool \<times> 'w"
  mmap :: "nat \<Rightarrow> int \<Rightarrow> 'w \<Rightarrow> nat option \<times> 'w"
  munmap :: "nat \<Rightarrow> nat \<Rightarrow> 'w \<Rightarrow> 'w"
  new_state :: "'w \<Rightarrow> bool \<times> 'w"
  shm_unlink :: "string \<Rightarrow> 'w \<Rightarrow> unit sysret \<times> 'w"
  unlink_path :: "string \<Rightarrow> 'w \<Rightarrow> 'w"

datatype wait_result = WAIT_OBJECT_0 | WAIT_ABANDONED | WAIT_TIMEOUT | WAIT_FAILED

text \<open>\<open>wait_for\<close> takes a time limit in milliseconds, \<open>None\<close> for \<^verbatim>\<open>INFINITE\<close>.\<close>

record 'w so_winapi =
  wait_for :: "int \<Rightarrow> int option \<Rightarrow> 'w \<Rightarrow> wait_result \<times> 'w"
  release_mutex :: "int \<Rightarrow> 'w \<Rightarrow> 'w"
  create_file_mapping :: "string \<Rightarrow> u32 \<Rightarrow> 'w \<Rightarrow> int option \<times> 'w"
  map_view :: "int \<Rightarrow> 'w \<Rightarrow> nat option \<times> 'w"
  virtual_query :: "nat \<Rightarrow> 'w \<Rightarrow> nat option \<times> 'w"
  create_mutex :: "string \<Rightarrow> 'w \<Rightarrow> int option \<times> 'w"
  win_new_state :: "'w \<Rightarrow> bool \<times> 'w"
  close_handle :: "int \<Rightarrow> 'w \<Rightarrow> 'w"
  unmap_view :: "nat \<Rightarrow> 'w \<Rightarrow> 'w"

text \<open>A system call within a context: only the world moves.\<close>

definition on_sys :: "('w \<Rightarrow> 'w) \<Rightarrow> 'w so_ctx \<Rightarrow> 'w so_ctx" where
  "on_sys f c = c\<lparr>sys := f (sys c)\<rparr>"

definition call :: "('w \<Rightarrow> 'r \<times> 'w) \<Rightarrow> 'w so_ctx \<Rightarrow> 'r \<times> 'w so_ctx" where
  "call f c = (case f (sys c) of (r, w) \<Rightarrow> (r, c\<lparr>sys := w\<rparr>))"

definition fail_with :: "so_error \<Rightarrow> 'w so_ctx \<Rightarrow> bool \<times> 'w so_ctx" where
  "fail_with e c = (False, c\<lparr>lastError := e\<rparr>)"

section \<open>Windows: a named mutex\<close>

definition lockForHandle_windows ::
  "'w so_winapi \<Rightarrow> so_state_windows \<Rightarrow> int \<Rightarrow> 'w so_ctx
    \<Rightarrow> (bool \<times> so_state_windows \<times> 'w so_ctx) option" where
  "lockForHandle_windows W st timeoutMs c =
     (case mutex st of
        None \<Rightarrow> Some (False, st, c\<lparr>lastError := SO_FAILED\<rparr>)
      | Some m \<Rightarrow>
          let (lockResult, c) = call (wait_for W m (Some 0)) c;
              (lockResult, c) =
                (if lockResult = WAIT_TIMEOUT
                 then call (wait_for W m (if timeoutMs > 0 then Some timeoutMs else None)) c
                 else (lockResult, c))
          in if lockResult = WAIT_OBJECT_0 \<or> lockResult = WAIT_ABANDONED then Some (True, st, c)
             else Some (False, st,
                    c\<lparr>lastError := (if lockResult = WAIT_TIMEOUT then SO_LOCK_TIMEOUT else SO_FAILED)\<rparr>))"

definition unlockForHandle_windows ::
  "'w so_winapi \<Rightarrow> so_state_windows \<Rightarrow> 'w so_ctx \<Rightarrow> 'w so_ctx" where
  "unlockForHandle_windows W st c =
     (case mutex st of None \<Rightarrow> c | Some m \<Rightarrow> on_sys (release_mutex W m) c)"

section \<open>POSIX: flock on a descriptor\<close>

definition LOCK_POLL_MAX_US :: int where
  "LOCK_POLL_MAX_US = 1000"

definition LOCK_FILE_REFRESH_SECONDS :: int where
  "LOCK_FILE_REFRESH_SECONDS = 3600"

definition lockIsBusy :: "errno \<Rightarrow> bool" where
  "lockIsBusy e = (e = EWOULDBLOCK \<or> e = EAGAIN \<or> e = EINTR)"

text \<open>One wait between two asks: briefly at first, then up to \<^const>\<open>LOCK_POLL_MAX_US\<close>.\<close>

definition nextPause :: "int \<Rightarrow> int" where
  "nextPause pauseUs =
     (if pauseUs < LOCK_POLL_MAX_US
      then if pauseUs * 2 < LOCK_POLL_MAX_US then pauseUs * 2 else LOCK_POLL_MAX_US
      else pauseUs)"

partial_function (option) lockDescriptor_poll ::
  "'w so_kernel \<Rightarrow> int \<Rightarrow> int \<Rightarrow> int \<Rightarrow> 'w so_ctx \<Rightarrow> (bool \<times> 'w so_ctx) option" where
  "lockDescriptor_poll K d deadline pauseUs c =
     (if now K (sys c) \<ge> deadline then Some (fail_with SO_LOCK_TIMEOUT c)
      else let leftUs = (deadline - now K (sys c)) div 1000;
               c1 = on_sys (sleep_for K (if pauseUs < leftUs then pauseUs else leftUs)) c
           in case call (flock_nb K d) c1 of (r, c2) \<Rightarrow>
                (case r of
                   Ret _ \<Rightarrow> Some (True, c2)
                 | Err e \<Rightarrow>
                     if lockIsBusy e then lockDescriptor_poll K d deadline (nextPause pauseUs) c2
                     else Some (fail_with SO_FAILED c2)))"

definition lockDescriptor ::
  "'w so_kernel \<Rightarrow> int \<Rightarrow> int \<Rightarrow> 'w so_ctx \<Rightarrow> (bool \<times> 'w so_ctx) option" where
  "lockDescriptor K d timeoutMs c =
     (if d < 0 then Some (fail_with SO_FAILED c)
      else case call (flock_nb K d) c of (r, c) \<Rightarrow>
        (case r of
           Ret _ \<Rightarrow> Some (True, c)
         | Err e \<Rightarrow>
             if \<not> lockIsBusy e then Some (fail_with SO_FAILED c)
             else if timeoutMs \<le> 0
             then (case retry (call (flock_ex K d)) interrupted c of
                     None \<Rightarrow> None
                   | Some (Ret _, c) \<Rightarrow> Some (True, c)
                   | Some (Err _, c) \<Rightarrow> Some (fail_with SO_FAILED c))
             else lockDescriptor_poll K d (now K (sys c) + timeoutMs * 1000000) 50 c))"

definition unlockForHandle_posix ::
  "'w so_kernel \<Rightarrow> so_state_posix \<Rightarrow> 'w so_ctx \<Rightarrow> 'w so_ctx" where
  "unlockForHandle_posix K st c =
     (if lockFd st \<ge> 0 then on_sys (flock_un K (lockFd st)) c else c)"

section \<open>macOS: a lock file\<close>

text \<open>Whether the descriptor is this user's own; one others could use is made this user's alone.\<close>

definition isOwnFile :: "'w so_kernel \<Rightarrow> int \<Rightarrow> bool \<Rightarrow> 'w so_ctx \<Rightarrow> bool \<times> 'w so_ctx" where
  "isOwnFile K d regular c =
     (case call (fstat K d) c of (info, c) \<Rightarrow>
        (case info of
           None \<Rightarrow> (False, c)
         | Some i \<Rightarrow>
             if st_uid i \<noteq> geteuid K (sys c) \<or> (regular \<and> \<not> st_regular i) then (False, c)
             else (True, if st_mode i AND 63 \<noteq> 0 then on_sys (fchmod_own K d) c else c)))"

definition isForeign :: "errno \<Rightarrow> bool" where
  "isForeign e =
     (e = ELOOP \<or> e = EACCES \<or> e = EPERM \<or> e = EISDIR \<or> e = ENXIO \<or> e = EMLINK)"

definition isAtPath :: "'w so_kernel \<Rightarrow> int \<Rightarrow> string \<Rightarrow> 'w so_ctx \<Rightarrow> bool \<times> 'w so_ctx" where
  "isAtPath K d path c =
     (case call (fstat K d) c of (held, c) \<Rightarrow>
        (case held of
           None \<Rightarrow> (False, c)
         | Some h \<Rightarrow>
             (case call (lstat_path K path) c of (named, c) \<Rightarrow>
                (case named of
                   None \<Rightarrow> (False, c)
                 | Some n \<Rightarrow> (st_dev h = st_dev n \<and> st_ino h = st_ino n, c)))))"

definition openLockFile :: "'w so_kernel \<Rightarrow> string \<Rightarrow> 'w so_ctx \<Rightarrow> int option \<times> 'w so_ctx" where
  "openLockFile K path c =
     (case call (open_lock K path) c of (r, c) \<Rightarrow>
        (case r of
           Err e \<Rightarrow> (None, c\<lparr>lastError := (if isForeign e then SO_NOT_OWNED else SO_FAILED)\<rparr>)
         | Ret d \<Rightarrow>
             (case isOwnFile K d True c of (own, c) \<Rightarrow>
                if \<not> own then (None, (on_sys (close_fd K d) c)\<lparr>lastError := SO_NOT_OWNED\<rparr>)
                else (Some d, c))))"

text \<open>\<open>takeLockFile_attempts (Suc n)\<close> has \<open>Suc n\<close> of the eight attempts left.\<close>

fun takeLockFile_attempts ::
  "nat \<Rightarrow> 'w so_kernel \<Rightarrow> string \<Rightarrow> int \<Rightarrow> 'w so_ctx \<Rightarrow> (int option \<times> 'w so_ctx) option" where
  "takeLockFile_attempts 0 K path timeoutMs c = Some (None, c\<lparr>lastError := SO_FAILED\<rparr>)"
| "takeLockFile_attempts (Suc n) K path timeoutMs c =
     (case openLockFile K path c of
        (None, c) \<Rightarrow> Some (None, c)
      | (Some d, c) \<Rightarrow>
          (case lockDescriptor K d timeoutMs c of
             None \<Rightarrow> None
           | Some (ok, c) \<Rightarrow>
               if \<not> ok then Some (None, on_sys (close_fd K d) c)
               else (case isAtPath K d path c of (there, c) \<Rightarrow>
                       if there then Some (Some d, on_sys (futimes K d) c)
                       else takeLockFile_attempts n K path timeoutMs
                              (on_sys (close_fd K d) (on_sys (flock_un K d) c)))))"

definition takeLockFile ::
  "'w so_kernel \<Rightarrow> string \<Rightarrow> int \<Rightarrow> 'w so_ctx \<Rightarrow> (int option \<times> 'w so_ctx) option" where
  "takeLockFile K path timeoutMs c = takeLockFile_attempts 8 K path timeoutMs c"

definition lockFileAnew ::
  "'w so_kernel \<Rightarrow> so_state_posix \<Rightarrow> int \<Rightarrow> 'w so_ctx
    \<Rightarrow> (bool \<times> so_state_posix \<times> 'w so_ctx) option" where
  "lockFileAnew K st timeoutMs c =
     (case takeLockFile K (lockPath st) timeoutMs c of
        None \<Rightarrow> None
      | Some (None, c) \<Rightarrow> Some (False, st, c)
      | Some (Some d, c) \<Rightarrow> Some (True, st\<lparr>lockFd := d, lockRefreshed := now K (sys c)\<rparr>, c))"

definition lockFileOfState ::
  "'w so_kernel \<Rightarrow> so_state_posix \<Rightarrow> int \<Rightarrow> 'w so_ctx
    \<Rightarrow> (bool \<times> so_state_posix \<times> 'w so_ctx) option" where
  "lockFileOfState K st timeoutMs c =
     (if lockFd st < 0 then lockFileAnew K st timeoutMs c
      else case lockDescriptor K (lockFd st) timeoutMs c of
             None \<Rightarrow> None
           | Some (ok, c) \<Rightarrow>
               if \<not> ok then Some (False, st, c)
               else (case isAtPath K (lockFd st) (lockPath st) c of (there, c) \<Rightarrow>
                 if there
                 then if now K (sys c) - lockRefreshed st \<ge> LOCK_FILE_REFRESH_SECONDS * 1000000000
                      then Some (True, st\<lparr>lockRefreshed := now K (sys c)\<rparr>,
                                 on_sys (futimes K (lockFd st)) c)
                      else Some (True, st, c)
                 else lockFileAnew K (st\<lparr>lockFd := -1\<rparr>) timeoutMs
                        (on_sys (close_fd K (lockFd st)) (on_sys (flock_un K (lockFd st)) c))))"

definition lockForHandle_posix ::
  "'w so_kernel \<Rightarrow> bool \<Rightarrow> so_state_posix \<Rightarrow> int \<Rightarrow> 'w so_ctx
    \<Rightarrow> (bool \<times> so_state_posix \<times> 'w so_ctx) option" where
  "lockForHandle_posix K shortName st timeoutMs c =
     (if shortName then lockFileOfState K st timeoutMs c
      else (case lockDescriptor K (lockFd st) timeoutMs c of
              None \<Rightarrow> None
            | Some (ok, c) \<Rightarrow> Some (ok, st, c)))"

section \<open>What a lock promises its clients\<close>

named_theorems so_frame \<open>what a call leaves of the context\<close>

lemma on_sys_frame [so_frame, simp]:
  "regions (on_sys f c) = regions c" "lastError (on_sys f c) = lastError c"
  "sys (on_sys f c) = f (sys c)"
  by (simp_all add: on_sys_def)

lemma call_frame [so_frame]:
  assumes "call f c = (r, c')"
  shows "regions c' = regions c" "lastError c' = lastError c"
  using assms by (auto simp: call_def split: prod.splits)

lemma fail_with_frame [simp]:
  "fst (fail_with e c) = False" "regions (snd (fail_with e c)) = regions c"
  "lastError (snd (fail_with e c)) = e" "sys (snd (fail_with e c)) = sys c"
  by (simp_all add: fail_with_def)

text \<open>
  The outcome of taking a lock: the regions are left alone; when it is taken the thread's error is
  too, and when it is not the error says why.
\<close>

definition lock_outcome :: "'w so_ctx \<Rightarrow> bool \<Rightarrow> 'w so_ctx \<Rightarrow> bool" where
  "lock_outcome c ok c' \<longleftrightarrow>
     regions c' = regions c \<and> (if ok then lastError c' = lastError c else lastError c' \<noteq> SO_NONE)"

lemma lock_outcome_step:
  "lock_outcome c1 ok c' \<Longrightarrow> regions c1 = regions c \<Longrightarrow> lastError c1 = lastError c \<Longrightarrow>
     lock_outcome c ok c'"
  by (simp add: lock_outcome_def)

lemma lock_outcome_fail: "regions c1 = regions c \<Longrightarrow> e \<noteq> SO_NONE \<Longrightarrow> lock_outcome c False (c1\<lparr>lastError := e\<rparr>)"
  by (simp add: lock_outcome_def)

lemma lock_outcome_frame:
  "regions (f c1) = regions c1 \<Longrightarrow> lastError (f c1) = lastError c1 \<Longrightarrow>
     lock_outcome c ok (f c1) = lock_outcome c ok c1"
  by (simp add: lock_outcome_def)

locale region_lock =
  fixes lock :: "'s so_state_scheme \<Rightarrow> int \<Rightarrow> 'w so_ctx
            \<Rightarrow> (bool \<times> 's so_state_scheme \<times> 'w so_ctx) option"
    and unlock :: "'s so_state_scheme \<Rightarrow> 'w so_ctx \<Rightarrow> 'w so_ctx"
  assumes lock_context: "lock st t c = Some (ok, st', c') \<Longrightarrow> lock_outcome c ok c'"
    and lock_handle: "lock st t c = Some (ok, st', c') \<Longrightarrow>
          view st' = view st \<and> payloadRoom st' = payloadRoom st"
    and unlock_context: "regions (unlock st c) = regions c \<and> lastError (unlock st c) = lastError c"

subsection \<open>The mutex keeps the promise\<close>

interpretation mutex_lock: region_lock "lockForHandle_windows W" "unlockForHandle_windows W" for W
proof
  fix st t c ok st' c'
  assume "lockForHandle_windows W st t c = Some (ok, st', c')"
  then show "lock_outcome c ok c'" "view st' = view st \<and> payloadRoom st' = payloadRoom st"
    by (auto simp: lockForHandle_windows_def Let_def lock_outcome_def call_frame
        split: option.splits prod.splits if_splits)
next
  fix st c
  show "regions (unlockForHandle_windows W st c) = regions c \<and>
        lastError (unlockForHandle_windows W st c) = lastError c"
    by (simp add: unlockForHandle_windows_def split: option.splits)
qed

subsection \<open>The flock forms keep it\<close>

lemma lockDescriptor_poll_outcome:
  assumes "lockDescriptor_poll K d deadline pauseUs c = Some r"
  shows "lock_outcome c (fst r) (snd r)"
proof (rule lockDescriptor_poll.raw_induct
    [where P = "\<lambda>K d dl p c r. lock_outcome c (fst r) (snd r)", OF _ assms], goal_cases)
  case (1 poll K d deadline pauseUs c r)
  from 1(2) show ?case
    by (auto simp: Let_def lock_outcome_def call_frame
        split: if_splits prod.splits sysret.splits dest!: 1(1))
qed

lemma retry_call_frame:
  assumes "retry (call f) again c = Some (r, c')"
  shows "regions c' = regions c" "lastError c' = lastError c"
proof -
  let ?P = "\<lambda>c'. regions c' = regions c \<and> lastError c' = lastError c"
  have step: "?P (snd (call f v))" if "?P v" for v
    using call_frame [of f v "fst (call f v)" "snd (call f v)"] that by simp
  obtain v where v: "?P v" "call f v = (r, c')"
    using retry_invariant [where P = ?P, OF assms _ step] by auto
  then show "regions c' = regions c" "lastError c' = lastError c"
    using call_frame [OF v(2)] by simp_all
qed

lemma lockDescriptor_outcome:
  "lockDescriptor K d t c = Some (ok, c') \<Longrightarrow> lock_outcome c ok c'"
  unfolding lockDescriptor_def
  by (auto simp: fail_with_def lock_outcome_def call_frame retry_call_frame
      split: if_splits prod.splits sysret.splits option.splits
      dest!: lockDescriptor_poll_outcome)

lemma isOwnFile_frame [so_frame]:
  "isOwnFile K d regular c = (own, c') \<Longrightarrow> regions c' = regions c \<and> lastError c' = lastError c"
  by (auto simp: isOwnFile_def call_frame split: prod.splits option.splits if_splits)

lemma isAtPath_frame [so_frame]:
  "isAtPath K d path c = (there, c') \<Longrightarrow> regions c' = regions c \<and> lastError c' = lastError c"
  by (auto simp: isAtPath_def call_frame split: prod.splits option.splits)

lemma openLockFile_outcome:
  "openLockFile K path c = (r, c') \<Longrightarrow> lock_outcome c (r \<noteq> None) c'"
  by (auto simp: openLockFile_def lock_outcome_def call_frame
      split: prod.splits sysret.splits if_splits dest!: isOwnFile_frame)

lemma takeLockFile_attempts_outcome:
  "takeLockFile_attempts n K path t c = Some (r, c') \<Longrightarrow> lock_outcome c (r \<noteq> None) c'"
proof (induction n arbitrary: c)
  case 0
  then show ?case by (auto simp: lock_outcome_def)
next
  case (Suc n)
  obtain d c1 where o: "openLockFile K path c = (d, c1)" by (cases "openLockFile K path c")
  note o_out = openLockFile_outcome [OF o]
  show ?case
  proof (cases d)
    case None
    then show ?thesis using Suc.prems o o_out by simp
  next
    case (Some d')
    then obtain ok c2 where l: "lockDescriptor K d' t c1 = Some (ok, c2)"
      using Suc.prems o by (auto split: option.splits)
    obtain there c3 where p: "isAtPath K d' path c2 = (there, c3)" by (cases "isAtPath K d' path c2")
    have keep: "regions c3 = regions c2" "lastError c3 = lastError c2"
      using isAtPath_frame [OF p] by simp_all
    show ?thesis
      using Suc.prems o o_out Some l p keep lockDescriptor_outcome [OF l]
        Suc.IH [of "on_sys (close_fd K d') (on_sys (flock_un K d') c3)"]
      by (auto simp: lock_outcome_def split: if_splits)
  qed
qed

lemma lockFileAnew_outcome:
  assumes "lockFileAnew K st t c = Some (ok, st', c')"
  shows "lock_outcome c ok c'" "view st' = view st \<and> payloadRoom st' = payloadRoom st"
  using assms
  by (auto simp: lockFileAnew_def takeLockFile_def split: option.splits prod.splits
      dest!: takeLockFile_attempts_outcome)

lemma lockFileOfState_outcome:
  assumes "lockFileOfState K st t c = Some (ok, st', c')"
  shows "lock_outcome c ok c'" "view st' = view st \<and> payloadRoom st' = payloadRoom st"
proof -
  show "lock_outcome c ok c'"
    using assms
    by (auto simp: lockFileOfState_def lock_outcome_def split: if_splits option.splits prod.splits
        dest!: lockFileAnew_outcome(1) lockDescriptor_outcome isAtPath_frame)
  show "view st' = view st \<and> payloadRoom st' = payloadRoom st"
    using assms
    by (auto simp: lockFileOfState_def split: if_splits option.splits prod.splits
        dest!: lockFileAnew_outcome(2))
qed

interpretation flock_lock: region_lock "lockForHandle_posix K shortName" "unlockForHandle_posix K"
  for K shortName
proof
  fix st t c ok st' c'
  assume "lockForHandle_posix K shortName st t c = Some (ok, st', c')"
  then show "lock_outcome c ok c'" "view st' = view st \<and> payloadRoom st' = payloadRoom st"
    by (auto simp: lockForHandle_posix_def split: if_splits option.splits
        dest: lockDescriptor_outcome lockFileOfState_outcome)
next
  fix st c
  show "regions (unlockForHandle_posix K st c) = regions c \<and>
        lastError (unlockForHandle_posix K st c) = lastError c"
    by (simp add: unlockForHandle_posix_def)
qed

section \<open>A wait with a deadline ends\<close>

text \<open>
  What the wait relies on: the steady clock does not go back across a system call, and a sleep
  takes at least as long as it was asked to, and some time whatever it was asked.
\<close>

definition clock_runs :: "'w so_kernel \<Rightarrow> bool" where
  "clock_runs K \<longleftrightarrow>
     (\<forall>us w. now K w + max 1 (1000 * us) \<le> now K (sleep_for K us w)) \<and>
     (\<forall>d w. now K w \<le> now K (snd (flock_nb K d w)))"

definition lock_wait_result :: "'w so_kernel \<Rightarrow> int \<Rightarrow> (bool \<times> 'w so_ctx) option \<Rightarrow> bool" where
  "lock_wait_result K deadline res \<longleftrightarrow>
     (case res of
        None \<Rightarrow> False
      | Some (ok, c') \<Rightarrow>
          ok \<or> (lastError c' = SO_LOCK_TIMEOUT \<and> deadline \<le> now K (sys c')) \<or> lastError c' = SO_FAILED)"

lemma sys_call: "call f c = (r, c') \<Longrightarrow> sys c' = snd (f (sys c)) \<and> r = fst (f (sys c))"
  by (auto simp: call_def split: prod.splits)

lemma lockDescriptor_poll_ends:
  assumes "clock_runs K"
  shows "lock_wait_result K deadline (lockDescriptor_poll K d deadline pauseUs c)"
proof (induction "nat (deadline - now K (sys c))" arbitrary: pauseUs c rule: less_induct)
  case less
  show ?case
  proof (cases "deadline \<le> now K (sys c)")
    case True
    then show ?thesis
      by (subst lockDescriptor_poll.simps) (simp add: fail_with_def lock_wait_result_def)
  next
    case False
    define us where "us = (let l = (deadline - now K (sys c)) div 1000 in if pauseUs < l then pauseUs else l)"
    obtain r c2 where c2: "call (flock_nb K d) (on_sys (sleep_for K us) c) = (r, c2)"
      by (cases "call (flock_nb K d) (on_sys (sleep_for K us) c)")
    have "now K (sys c) + max 1 (1000 * us) \<le> now K (sleep_for K us (sys c))"
      "now K (sleep_for K us (sys c)) \<le> now K (sys c2)"
      using assms sys_call [OF c2] by (simp_all add: clock_runs_def)
    then have "now K (sys c) < now K (sys c2)" by linarith
    then have "nat (deadline - now K (sys c2)) < nat (deadline - now K (sys c))"
      using False by linarith
    note IH = less [OF this]
    show ?thesis
      using False IH c2
      by (subst lockDescriptor_poll.simps)
        (auto simp: Let_def us_def fail_with_def lock_wait_result_def split: sysret.splits)
  qed
qed

lemma takeLockFile_attempts_returns:
  assumes "\<And>d c. lockDescriptor K d t c \<noteq> None"
  shows "takeLockFile_attempts n K path t c \<noteq> None"
proof (induction n arbitrary: c)
  case (Suc n)
  show ?case by (simp add: Suc assms del: not_None_eq split: prod.splits option.splits)
qed simp

lemma lockForHandle_posix_returns:
  assumes "\<And>d c. lockDescriptor K d t c \<noteq> None"
  shows "lockForHandle_posix K shortName st t c \<noteq> None"
  by (simp add: lockForHandle_posix_def lockFileOfState_def lockFileAnew_def takeLockFile_def
      assms takeLockFile_attempts_returns [OF assms] del: not_None_eq split: prod.splits option.splits)

lemma lockDescriptor_ends:
  assumes "clock_runs K" and "0 < timeoutMs"
  shows "lock_wait_result K (now K (sys c) + timeoutMs * 1000000) (lockDescriptor K d timeoutMs c)"
proof -
  obtain r c1 where c1: "call (flock_nb K d) c = (r, c1)" by (cases "call (flock_nb K d) c")
  have "now K (sys c) \<le> now K (sys c1)"
    using assms sys_call [OF c1] by (simp add: clock_runs_def)
  moreover have "lock_wait_result K (now K (sys c1) + timeoutMs * 1000000)
      (lockDescriptor_poll K d (now K (sys c1) + timeoutMs * 1000000) 50 c1)"
    by (rule lockDescriptor_poll_ends [OF assms(1)])
  ultimately show ?thesis
    using c1 assms(2)
    by (auto simp: lockDescriptor_def lock_wait_result_def fail_with_def
        split: sysret.splits option.splits)
qed

text \<open>
  C6. A wait for the region's lock with a deadline always ends. Whatever another participant does,
  \<open>lockDescriptor\<close> returns: holding the lock, or reporting \<open>SO_LOCK_TIMEOUT\<close> and only once the whole
  of the asked time has gone by, or reporting \<open>SO_FAILED\<close>. So does taking the lock of an open handle,
  on Linux and through the lock file of macOS.
\<close>

theorem lock_wait_ends:
  assumes "clock_runs K" and "0 < timeoutMs"
  shows "lock_wait_result K (now K (sys c) + timeoutMs * 1000000) (lockDescriptor K d timeoutMs c)
       \<and> lockForHandle_posix K shortName st timeoutMs c \<noteq> None"
proof -
  have "lockDescriptor K d timeoutMs c \<noteq> None" for d c
    using lockDescriptor_ends [OF assms, of c d] by (simp add: lock_wait_result_def split: option.splits)
  then show ?thesis
    using lockDescriptor_ends [OF assms, of c d] lockForHandle_posix_returns [of K timeoutMs] by simp
qed

text \<open>A kernel whose world is its clock: every lock is held by someone who never lets go.\<close>

definition stuck_kernel :: "int so_kernel" where
  "stuck_kernel =
     \<lparr>flock_nb = \<lambda>d w. (Err EWOULDBLOCK, w + 700), flock_ex = \<lambda>d w. (Err EINTR, w),
      flock_un = \<lambda>d w. w, now = \<lambda>w. w, sleep_for = \<lambda>us w. w + max 1 (1000 * us), close_fd = \<lambda>d w. w,
      open_lock = \<lambda>p w. (Ret 7, w), fstat = \<lambda>d w. (None, w), lstat_path = \<lambda>p w. (None, w),
      geteuid = \<lambda>w. 0, fchmod_own = \<lambda>d w. w, futimes = \<lambda>d w. w, shm_open = \<lambda>p w. (Ret 6, w),
      ftruncate = \<lambda>d n w. (True, w), mmap = \<lambda>n d w. (Some 0, w), munmap = \<lambda>v n w. w,
      new_state = \<lambda>w. (True, w), shm_unlink = \<lambda>p w. (Ret (), w), unlink_path = \<lambda>p w. w\<rparr>"

theorem lock_wait_ends_witness:
  "clock_runs stuck_kernel \<and> (0::int) < 5 \<and>
   lock_wait_result stuck_kernel 5000000
     (lockDescriptor stuck_kernel 3 5 \<lparr>lastError = SO_NONE, regions = \<lambda>_. \<lparr>magic = 0, payloadSize = 0, capacity = 0, payload = []\<rparr>, sys = 0\<rparr>)"
proof -
  have "clock_runs stuck_kernel" by (simp add: clock_runs_def stuck_kernel_def)
  then show ?thesis
    using lock_wait_ends [of stuck_kernel 5
        "\<lparr>lastError = SO_NONE, regions = \<lambda>_. \<lparr>magic = 0, payloadSize = 0, capacity = 0, payload = []\<rparr>, sys = 0\<rparr>" 3]
    by (simp add: stuck_kernel_def)
qed

end
