(* ===== verification/Shared_Object.thy ===== *)
theory Shared_Object
  imports Shared_Lock
begin

text \<open>
  The operations of \<^verbatim>\<open>ipc/_internal/NativeSharedObject.cpp\<close> on a region of shared memory. Those on an
  open handle are the same code on every platform and differ in the lock only, so they take \<open>lock\<close>
  and \<open>unlock\<close> as arguments and are proved once, in the locale \<open>region_lock\<close>. Their result carries the
  handle's state as the call left it, since taking the lock file of macOS may replace the
  descriptor. \<open>None\<close> stands for a call without a result: it waits for ever, or it would touch memory
  outside the mapping or the caller's buffer.
\<close>

section \<open>The header\<close>

definition SHARED_OBJECT_MAGIC :: u32 where
  "SHARED_OBJECT_MAGIC = 0x4F424A53"

definition HEADER_SIZE :: nat where
  "HEADER_SIZE = 12"

definition defaultCapacity :: nat where
  "defaultCapacity = 64 * 1024"

definition isValidHeader :: "region \<Rightarrow> bool" where
  "isValidHeader header = (magic header = SHARED_OBJECT_MAGIC)"

definition payloadLimit :: "'s so_state_scheme \<Rightarrow> region \<Rightarrow> nat" where
  "payloadLimit state header =
     (let declared = unat (capacity header)
      in if declared < payloadRoom state then declared else payloadRoom state)"

definition initialiseHeader :: "region \<Rightarrow> nat \<Rightarrow> int \<Rightarrow> region" where
  "initialiseHeader header room maxSize =
     (let wanted = unat (of_int maxSize :: u64)
      in header\<lparr>magic := SHARED_OBJECT_MAGIC, payloadSize := 0,
                capacity := of_nat (if wanted < room then wanted else room)\<rparr>)"

text \<open>\<^verbatim>\<open>static_cast<int>\<close> of an unsigned value.\<close>

definition as_int :: "nat \<Rightarrow> int" where
  "as_int n = sint (of_nat n :: u32)"

definition set_region :: "nat \<Rightarrow> region \<Rightarrow> 'w so_ctx \<Rightarrow> 'w so_ctx" where
  "set_region v r c = c\<lparr>regions := (regions c)(v := r)\<rparr>"

definition set_error :: "so_error \<Rightarrow> 'w so_ctx \<Rightarrow> 'w so_ctx" where
  "set_error e c = c\<lparr>lastError := e\<rparr>"

text \<open>\<^verbatim>\<open>memcpy\<close> of the first \<open>n\<close> bytes of \<open>src\<close> to the start of \<open>dst\<close>.\<close>

definition memcpy :: "bytes \<Rightarrow> bytes \<Rightarrow> nat \<Rightarrow> bytes option" where
  "memcpy dst src n = (if n \<le> length src then blit dst 0 (take n src) else None)"

section \<open>Operations on a handle\<close>

type_synonym ('s, 'w) so_lock =
  "'s so_state_scheme \<Rightarrow> int \<Rightarrow> 'w so_ctx \<Rightarrow> (bool \<times> 's so_state_scheme \<times> 'w so_ctx) option"

type_synonym ('s, 'w) so_unlock = "'s so_state_scheme \<Rightarrow> 'w so_ctx \<Rightarrow> 'w so_ctx"

definition native_sharedObjectGetCapacity ::
  "('s, 'w) so_lock \<Rightarrow> ('s, 'w) so_unlock \<Rightarrow> 's so_state_scheme option \<Rightarrow> int \<Rightarrow> 'w so_ctx
    \<Rightarrow> (int \<times> 's so_state_scheme option \<times> 'w so_ctx) option" where
  "native_sharedObjectGetCapacity lock unlock handle lockTimeoutMs c =
     (let c = set_error SO_FAILED c
      in case handle of
           None \<Rightarrow> Some (-1, handle, c)
         | Some state \<Rightarrow>
           (case view state of
              None \<Rightarrow> Some (-1, handle, c)
            | Some v \<Rightarrow>
              (case lock state lockTimeoutMs c of
                 None \<Rightarrow> None
               | Some (ok, state, c) \<Rightarrow>
                 if \<not> ok then Some (-1, Some state, c)
                 else let header = regions c v
                      in if \<not> isValidHeader header then Some (-1, Some state, unlock state c)
                         else Some (as_int (payloadLimit state header), Some state,
                                    set_error SO_NONE (unlock state c)))))"

definition native_sharedObjectWrite ::
  "('s, 'w) so_lock \<Rightarrow> ('s, 'w) so_unlock \<Rightarrow> 's so_state_scheme option \<Rightarrow> bytes option \<Rightarrow> int \<Rightarrow> int
    \<Rightarrow> 'w so_ctx \<Rightarrow> (bool \<times> 's so_state_scheme option \<times> 'w so_ctx) option" where
  "native_sharedObjectWrite lock unlock handle data dataSize lockTimeoutMs c =
     (let c = set_error SO_FAILED c
      in case (handle, data) of
           (Some state, Some bs) \<Rightarrow>
           (case view state of
              None \<Rightarrow> Some (False, handle, c)
            | Some v \<Rightarrow>
              if dataSize < 0 then Some (False, handle, c)
              else (case lock state lockTimeoutMs c of
                 None \<Rightarrow> None
               | Some (ok, state, c) \<Rightarrow>
                 if \<not> ok then Some (False, Some state, c)
                 else let header = regions c v
                      in if \<not> isValidHeader header \<or> nat dataSize > payloadLimit state header
                         then Some (False, Some state, unlock state c)
                         else (case memcpy (payload header) bs (nat dataSize) of
                                 None \<Rightarrow> None
                               | Some p \<Rightarrow>
                                   let c = set_region v (header\<lparr>payload := p, payloadSize := of_int dataSize\<rparr>) c
                                   in Some (True, Some state, set_error SO_NONE (unlock state c)))))
         | _ \<Rightarrow> Some (False, handle, c))"

text \<open>The second component of the result is the caller's buffer after the call.\<close>

definition native_sharedObjectReadPayload ::
  "('s, 'w) so_lock \<Rightarrow> ('s, 'w) so_unlock \<Rightarrow> 's so_state_scheme option \<Rightarrow> bytes option \<Rightarrow> int \<Rightarrow> int
    \<Rightarrow> 'w so_ctx \<Rightarrow> (int \<times> bytes option \<times> 's so_state_scheme option \<times> 'w so_ctx) option" where
  "native_sharedObjectReadPayload lock unlock handle buffer bufferSize lockTimeoutMs c =
     (let c = set_error SO_FAILED c
      in case (handle, buffer) of
           (Some state, Some buf) \<Rightarrow>
           (case view state of
              None \<Rightarrow> Some (-1, buffer, handle, c)
            | Some v \<Rightarrow>
              if bufferSize < 0 then Some (-1, buffer, handle, c)
              else (case lock state lockTimeoutMs c of
                 None \<Rightarrow> None
               | Some (ok, state, c) \<Rightarrow>
                 if \<not> ok then Some (-1, buffer, Some state, c)
                 else let header = regions c v
                      in if \<not> isValidHeader header \<or> unat (payloadSize header) > payloadLimit state header
                         then Some (-1, buffer, Some state, unlock state c)
                         else let dataSize = as_int (unat (payloadSize header))
                              in (case (if dataSize > 0 \<and> dataSize \<le> bufferSize
                                        then memcpy buf (payload header) (nat dataSize)
                                        else Some buf) of
                                    None \<Rightarrow> None
                                  | Some buf \<Rightarrow>
                                      Some (dataSize, Some buf, Some state, set_error SO_NONE (unlock state c)))))
         | _ \<Rightarrow> Some (-1, buffer, handle, c))"

definition native_sharedObjectClear ::
  "('s, 'w) so_lock \<Rightarrow> ('s, 'w) so_unlock \<Rightarrow> 's so_state_scheme option \<Rightarrow> int \<Rightarrow> 'w so_ctx
    \<Rightarrow> (bool \<times> 's so_state_scheme option \<times> 'w so_ctx) option" where
  "native_sharedObjectClear lock unlock handle lockTimeoutMs c =
     (let c = set_error SO_FAILED c
      in case handle of
           None \<Rightarrow> Some (False, handle, c)
         | Some state \<Rightarrow>
           (case view state of
              None \<Rightarrow> Some (False, handle, c)
            | Some v \<Rightarrow>
              (case lock state lockTimeoutMs c of
                 None \<Rightarrow> None
               | Some (ok, state, c) \<Rightarrow>
                 if \<not> ok then Some (False, Some state, c)
                 else let header = regions c v;
                          c = (if isValidHeader header
                               then set_region v (header\<lparr>payloadSize := 0\<rparr>) c else c)
                      in Some (True, Some state, set_error SO_NONE (unlock state c)))))"

definition native_sharedObjectHoldLockForTest ::
  "('s, 'w) so_lock \<Rightarrow> 's so_state_scheme option \<Rightarrow> 'w so_ctx
    \<Rightarrow> (bool \<times> 's so_state_scheme option \<times> 'w so_ctx) option" where
  "native_sharedObjectHoldLockForTest lock handle c =
     (case handle of
        None \<Rightarrow> Some (False, handle, set_error SO_FAILED c)
      | Some state \<Rightarrow> (case lock state 0 c of
                        None \<Rightarrow> None
                      | Some (ok, state, c) \<Rightarrow> Some (ok, Some state, c)))"

definition native_sharedObjectReleaseLockForTest ::
  "('s, 'w) so_unlock \<Rightarrow> 's so_state_scheme option \<Rightarrow> 'w so_ctx \<Rightarrow> 'w so_ctx" where
  "native_sharedObjectReleaseLockForTest unlock handle c =
     (case handle of None \<Rightarrow> c | Some state \<Rightarrow> unlock state c)"

section \<open>Opening a region\<close>

text \<open>A header nobody has set up yet is set up; the lock is held.\<close>

definition ensureHeader :: "nat \<Rightarrow> nat \<Rightarrow> int \<Rightarrow> 'w so_ctx \<Rightarrow> 'w so_ctx" where
  "ensureHeader v room maxSize c =
     (let header = regions c v
      in if \<not> isValidHeader header \<or> capacity header = 0
         then set_region v (initialiseHeader header room maxSize) c else c)"

definition askedSize :: "int \<Rightarrow> int" where
  "askedSize maxSize = (if maxSize < 1 then int defaultCapacity else maxSize)"

subsection \<open>Windows\<close>

definition closeRegion_windows :: "'w so_winapi \<Rightarrow> nat \<Rightarrow> int \<Rightarrow> 'w so_ctx \<Rightarrow> 'w so_ctx" where
  "closeRegion_windows W v mapping c = on_sys (close_handle W mapping) (on_sys (unmap_view W v) c)"

definition native_sharedObjectOpen_windows ::
  "'w so_winapi \<Rightarrow> string option \<Rightarrow> int \<Rightarrow> int \<Rightarrow> 'w so_ctx
    \<Rightarrow> (so_state_windows option \<times> 'w so_ctx) option" where
  "native_sharedObjectOpen_windows W name maxSize lockTimeoutMs c =
     (let c = set_error SO_FAILED c;
          maxSize = askedSize maxSize;
          sharedName = makeSharedName_windows name
      in case call (create_file_mapping W sharedName (of_nat HEADER_SIZE + of_int maxSize)) c of
           (None, c) \<Rightarrow> Some (None, c)
         | (Some mapping, c) \<Rightarrow>
      (case call (map_view W mapping) c of
           (None, c) \<Rightarrow> Some (None, on_sys (close_handle W mapping) c)
         | (Some v, c) \<Rightarrow>
      (case call (virtual_query W v) c of (regionSize, c) \<Rightarrow>
         if (case regionSize of None \<Rightarrow> True | Some n \<Rightarrow> n \<le> HEADER_SIZE)
         then Some (None, closeRegion_windows W v mapping c)
         else
      (case call (create_mutex W (sharedName @ ''_mutex'')) c of
           (None, c) \<Rightarrow> Some (None, closeRegion_windows W v mapping c)
         | (Some m, c) \<Rightarrow>
      (case call (win_new_state W) c of (made, c) \<Rightarrow>
         if \<not> made then Some (None, closeRegion_windows W v mapping (on_sys (close_handle W m) c))
         else
      (let state = \<lparr>view = Some v, payloadRoom = the regionSize - HEADER_SIZE,
                    fileMapping = Some mapping, mutex = Some m\<rparr>
       in case lockForHandle_windows W state lockTimeoutMs c of
            None \<Rightarrow> None
          | Some (ok, state, c) \<Rightarrow>
              if \<not> ok then Some (None, closeRegion_windows W v mapping (on_sys (close_handle W m) c))
              else let c = ensureHeader v (payloadRoom state) maxSize c
                   in Some (Some state, set_error SO_NONE (unlockForHandle_windows W state c))))))))"

definition native_sharedObjectClose_windows ::
  "'w so_winapi \<Rightarrow> so_state_windows option \<Rightarrow> 'w so_ctx \<Rightarrow> 'w so_ctx" where
  "native_sharedObjectClose_windows W handle c =
     (case handle of
        None \<Rightarrow> c
      | Some state \<Rightarrow>
          let c = (case view state of None \<Rightarrow> c | Some v \<Rightarrow> on_sys (unmap_view W v) c);
              c = (case fileMapping state of None \<Rightarrow> c | Some h \<Rightarrow> on_sys (close_handle W h) c)
          in (case mutex state of None \<Rightarrow> c | Some m \<Rightarrow> on_sys (close_handle W m) c))"

definition native_sharedObjectRemove_windows :: "string option \<Rightarrow> int \<Rightarrow> 'w so_ctx \<Rightarrow> int \<times> 'w so_ctx" where
  "native_sharedObjectRemove_windows name lockTimeoutMs c = (0, set_error SO_NONE c)"

subsection \<open>POSIX\<close>

definition abandonOpen :: "'w so_kernel \<Rightarrow> int \<Rightarrow> int \<Rightarrow> 'w so_ctx \<Rightarrow> 'w so_ctx" where
  "abandonOpen K d lockD c =
     (let c = on_sys (flock_un K lockD) c;
          c = (if lockD \<noteq> d then on_sys (close_fd K lockD) c else c)
      in on_sys (close_fd K d) c)"

text \<open>The region's descriptor, refused when it is not this user's own.\<close>

definition openRegion :: "'w so_kernel \<Rightarrow> string \<Rightarrow> 'w so_ctx \<Rightarrow> int sysret \<times> 'w so_ctx" where
  "openRegion K sharedName c =
     (case call (shm_open K sharedName) c of
        (Err e, c) \<Rightarrow> (Err e, c)
      | (Ret d, c) \<Rightarrow>
          (case isOwnFile K d False c of (own, c) \<Rightarrow>
             if own then (Ret d, c) else (Err EPERM, on_sys (close_fd K d) c)))"

text \<open>The region's size, made on the way when it has none yet; \<open>None\<close> when it has no room.\<close>

definition sizeRegion :: "'w so_kernel \<Rightarrow> int \<Rightarrow> int \<Rightarrow> 'w so_ctx \<Rightarrow> nat option \<times> 'w so_ctx" where
  "sizeRegion K d maxSize c =
     (case call (fstat K d) c of (info, c) \<Rightarrow>
      (case (case info of
               None \<Rightarrow> (None, c)
             | Some i \<Rightarrow>
                 if st_size i \<le> HEADER_SIZE
                 then (case call (ftruncate K d (HEADER_SIZE + nat maxSize)) c of (made, c) \<Rightarrow>
                         if made then call (fstat K d) c else (None, c))
                 else (Some i, c)) of (info, c) \<Rightarrow>
       ((case info of
           None \<Rightarrow> None
         | Some i \<Rightarrow> if st_size i \<le> HEADER_SIZE then None else Some (st_size i)), c)))"

text \<open>From the region's lock held, to the handle.\<close>

definition mapRegion ::
  "'w so_kernel \<Rightarrow> int \<Rightarrow> int \<Rightarrow> string \<Rightarrow> int \<Rightarrow> 'w so_ctx \<Rightarrow> so_state_posix option \<times> 'w so_ctx" where
  "mapRegion K d lockD path maxSize c =
     (case sizeRegion K d maxSize c of
        (None, c) \<Rightarrow> (None, abandonOpen K d lockD c)
      | (Some mappedSize, c) \<Rightarrow>
     (case call (mmap K mappedSize d) c of
        (None, c) \<Rightarrow> (None, abandonOpen K d lockD c)
      | (Some v, c) \<Rightarrow>
     (case call (new_state K) c of (made, c) \<Rightarrow>
        if \<not> made then (None, abandonOpen K d lockD (on_sys (munmap K v mappedSize) c))
        else let state = \<lparr>view = Some v, payloadRoom = mappedSize - HEADER_SIZE, fd = d, lockFd = lockD,
                          viewSize = mappedSize, lockPath = path, lockRefreshed = now K (sys c)\<rparr>;
                 c = ensureHeader v (payloadRoom state) maxSize c
             in (Some state, set_error SO_NONE (unlockForHandle_posix K state c)))))"

definition refusedRegion :: "errno \<Rightarrow> so_error" where
  "refusedRegion e = (if isForeign e then SO_NOT_OWNED else SO_FAILED)"

definition native_sharedObjectOpen_posix ::
  "'w so_kernel \<Rightarrow> bool \<Rightarrow> string option \<Rightarrow> int \<Rightarrow> int \<Rightarrow> 'w so_ctx
    \<Rightarrow> (so_state_posix option \<times> 'w so_ctx) option" where
  "native_sharedObjectOpen_posix K shortName name maxSize lockTimeoutMs c =
     (let c = set_error SO_FAILED c;
          maxSize = askedSize maxSize;
          sharedName = makeSharedName_posix shortName name
      in if shortName
         then let path = makeLockPath name
              in case takeLockFile K path lockTimeoutMs c of
                   None \<Rightarrow> None
                 | Some (None, c) \<Rightarrow> Some (None, c)
                 | Some (Some lockD, c) \<Rightarrow>
                     (case openRegion K sharedName c of
                        (Err e, c) \<Rightarrow>
                          Some (None, on_sys (close_fd K lockD) (on_sys (flock_un K lockD)
                                        (set_error (refusedRegion e) c)))
                      | (Ret d, c) \<Rightarrow> Some (mapRegion K d lockD path maxSize c))
         else (case openRegion K sharedName c of
                 (Err e, c) \<Rightarrow> Some (None, set_error (refusedRegion e) c)
               | (Ret d, c) \<Rightarrow>
                   (case lockDescriptor K d lockTimeoutMs c of
                      None \<Rightarrow> None
                    | Some (ok, c) \<Rightarrow>
                        if \<not> ok then Some (None, on_sys (close_fd K d) c)
                        else Some (mapRegion K d d [] maxSize c))))"

definition native_sharedObjectClose_posix ::
  "'w so_kernel \<Rightarrow> so_state_posix option \<Rightarrow> 'w so_ctx \<Rightarrow> 'w so_ctx" where
  "native_sharedObjectClose_posix K handle c =
     (case handle of
        None \<Rightarrow> c
      | Some state \<Rightarrow>
          let c = (case view state of None \<Rightarrow> c | Some v \<Rightarrow> on_sys (munmap K v (viewSize state)) c);
              c = (if lockFd state \<ge> 0 \<and> lockFd state \<noteq> fd state
                   then on_sys (close_fd K (lockFd state)) c else c)
          in (if fd state \<ge> 0 then on_sys (close_fd K (fd state)) c else c))"

definition native_sharedObjectRemove_posix ::
  "'w so_kernel \<Rightarrow> bool \<Rightarrow> string option \<Rightarrow> int \<Rightarrow> 'w so_ctx \<Rightarrow> (int \<times> 'w so_ctx) option" where
  "native_sharedObjectRemove_posix K shortName name lockTimeoutMs c =
     (let c = set_error SO_FAILED c;
          sharedName = makeSharedName_posix shortName name;
          path = makeLockPath name
      in case (if shortName then takeLockFile K path lockTimeoutMs c else Some (None, c)) of
           None \<Rightarrow> None
         | Some (lockD, c) \<Rightarrow>
             if shortName \<and> lockD = None then Some (-1, c)
             else case call (shm_unlink K sharedName) c of (r, c) \<Rightarrow>
               let removed = (case r of Ret _ \<Rightarrow> 1 | Err e \<Rightarrow> if e = ENOENT then 0 else -1);
                   c = (case lockD of
                          None \<Rightarrow> c
                        | Some d \<Rightarrow> on_sys (close_fd K d) (on_sys (flock_un K d) (on_sys (unlink_path K path) c)))
               in Some (removed, if removed \<ge> (0::int) then set_error SO_NONE c else c))"

section \<open>What a region holds\<close>

text \<open>The abstract value of a region as a handle sees it: the payload, or nothing readable.\<close>

definition contents :: "'s so_state_scheme \<Rightarrow> region \<Rightarrow> bytes option" where
  "contents state r =
     (if isValidHeader r \<and> unat (payloadSize r) \<le> payloadLimit state r
      then Some (take (unat (payloadSize r)) (payload r)) else None)"

text \<open>The handle's mapping has the room it was measured to have.\<close>

definition mapping_ok :: "'s so_state_scheme \<Rightarrow> nat \<Rightarrow> 'w so_ctx \<Rightarrow> bool" where
  "mapping_ok state v c \<longleftrightarrow> view state = Some v \<and> payloadRoom state \<le> length (payload (regions c v))"

definition written :: "region \<Rightarrow> bytes \<Rightarrow> int \<Rightarrow> region" where
  "written r bs n =
     r\<lparr>payload := take (nat n) bs @ drop (nat n) (payload r), payloadSize := of_int n\<rparr>"

lemma set_frame [simp]:
  "regions (set_error e c) = regions c" "lastError (set_error e c) = e" "sys (set_error e c) = sys c"
  "regions (set_region v r c) = (regions c)(v := r)" "lastError (set_region v r c) = lastError c"
  "sys (set_region v r c) = sys c"
  by (simp_all add: set_error_def set_region_def)

lemma payloadLimit_room: "payloadLimit state r \<le> payloadRoom state"
  by (simp add: payloadLimit_def Let_def)

lemma memcpy_fits:
  "n \<le> length src \<Longrightarrow> n \<le> length dst \<Longrightarrow> memcpy dst src n = Some (take n src @ drop n dst)"
  by (simp add: memcpy_def blit_def)

lemma memcpy_Some:
  "memcpy dst src n = Some r \<Longrightarrow> r = take n src @ drop n dst \<and> n \<le> length src \<and> n \<le> length dst"
  by (auto simp: memcpy_def blit_def split: if_splits)

lemma payloadLimit_cong:
  "payloadRoom s = payloadRoom s' \<Longrightarrow> capacity r = capacity r' \<Longrightarrow> payloadLimit s r = payloadLimit s' r'"
  by (simp add: payloadLimit_def Let_def)

lemma as_int_small: "n < 2 ^ 31 \<Longrightarrow> as_int n = int n"
  by (simp add: as_int_def signed_of_nat signed_take_bit_int_eq_self)

lemma as_int_le: "as_int n \<le> int n"
  by (simp add: as_int_def signed_of_nat signed_take_bit_int_less_eq_self_iff)

lemma nat_as_int_le: "nat (as_int n) \<le> n"
  using as_int_le [of n] by linarith

context region_lock
begin

text \<open>Every operation on a handle runs between one \<open>lock\<close> and one \<open>unlock\<close>.\<close>

lemma granted:
  assumes "lock st t (set_error SO_FAILED c) = Some (ok, st', c1)"
  shows "regions c1 = regions c" "ok \<Longrightarrow> lastError c1 = SO_FAILED" "\<not> ok \<Longrightarrow> lastError c1 \<noteq> SO_NONE"
    "view st' = view st" "payloadRoom st' = payloadRoom st"
  using lock_context [OF assms] lock_handle [OF assms] by (simp_all add: lock_outcome_def)

lemma unlocked [simp]:
  "regions (unlock st c) = regions c" "lastError (unlock st c) = lastError c"
  using unlock_context by simp_all

lemma write_result:
  assumes ok: "mapping_ok st v c" and size: "0 \<le> n" "nat n \<le> length bs"
    and l: "lock st t (set_error SO_FAILED c) = Some (ok, st', c1)"
    and fits: "fits \<longleftrightarrow> ok \<and> isValidHeader (regions c v) \<and> nat n \<le> payloadLimit st (regions c v)"
  shows "\<exists>c'. native_sharedObjectWrite lock unlock (Some st) (Some bs) n t c = Some (fits, Some st', c') \<and>
      regions c' = (if fits then (regions c)(v := written (regions c v) bs n) else regions c) \<and>
      (lastError c' = SO_NONE \<longleftrightarrow> fits)"
proof -
  note g = granted [OF l]
  have lim: "payloadLimit st' (regions c v) = payloadLimit st (regions c v)"
    by (rule payloadLimit_cong [OF g(5) refl])
  have cp: "memcpy (payload (regions c v)) bs (nat n) = Some (take (nat n) bs @ drop (nat n) (payload (regions c v)))"
    if "nat n \<le> payloadLimit st (regions c v)"
    using that payloadLimit_room [of st "regions c v"] ok size by (intro memcpy_fits) (auto simp: mapping_ok_def)
  show ?thesis
    using ok size l g cp fits
    by (cases ok) (auto simp: native_sharedObjectWrite_def Let_def mapping_ok_def lim written_def)
qed

lemma read_result:
  assumes ok: "mapping_ok st v c" and size: "0 \<le> n" "nat n \<le> length buf"
    and l: "lock st t (set_error SO_FAILED c) = Some (ok, st', c1)"
    and fits: "fits \<longleftrightarrow> ok \<and> contents st (regions c v) \<noteq> None"
    and d: "d = as_int (unat (payloadSize (regions c v)))"
  shows "\<exists>c'. native_sharedObjectReadPayload lock unlock (Some st) (Some buf) n t c =
        Some (if fits then d else -1,
              Some (if fits \<and> 0 < d \<and> d \<le> n
                    then take (nat d) (payload (regions c v)) @ drop (nat d) buf else buf),
              Some st', c') \<and>
      regions c' = regions c \<and> (lastError c' = SO_NONE \<longleftrightarrow> fits)"
proof -
  note g = granted [OF l]
  have lim: "payloadLimit st' (regions c v) = payloadLimit st (regions c v)"
    by (rule payloadLimit_cong [OF g(5) refl])
  have du: "nat d \<le> unat (payloadSize (regions c v))" if "0 < d"
    using that d as_int_le [of "unat (payloadSize (regions c v))"] by linarith
  have cp: "memcpy buf (payload (regions c v)) (nat d) = Some (take (nat d) (payload (regions c v)) @ drop (nat d) buf)"
    if "contents st (regions c v) \<noteq> None" "0 < d" "d \<le> n"
    using that payloadLimit_room [of st "regions c v"] ok size du
    by (intro memcpy_fits) (auto simp: mapping_ok_def contents_def split: if_splits)
  show ?thesis
    using ok size l g cp fits
    by (cases ok) (auto simp: native_sharedObjectReadPayload_def Let_def mapping_ok_def lim
        contents_def d [symmetric] not_le split: if_splits)
qed

lemma clear_result:
  assumes "view st = Some v"
    and l: "lock st t (set_error SO_FAILED c) = Some (ok, st', c1)"
  shows "\<exists>c'. native_sharedObjectClear lock unlock (Some st) t c = Some (ok, Some st', c') \<and>
      regions c' = (if ok \<and> isValidHeader (regions c v)
                    then (regions c)(v := (regions c v)\<lparr>payloadSize := 0\<rparr>) else regions c) \<and>
      (lastError c' = SO_NONE \<longleftrightarrow> ok)"
  using assms granted [OF l] by (auto simp: native_sharedObjectClear_def Let_def)

lemma capacity_result:
  assumes "view st = Some v"
    and l: "lock st t (set_error SO_FAILED c) = Some (ok, st', c1)"
    and fits: "fits \<longleftrightarrow> ok \<and> isValidHeader (regions c v)"
  shows "\<exists>c'. native_sharedObjectGetCapacity lock unlock (Some st) t c =
        Some (if fits then as_int (payloadLimit st (regions c v)) else -1, Some st', c') \<and>
      regions c' = regions c \<and> (lastError c' = SO_NONE \<longleftrightarrow> fits)"
  using assms granted [OF l] payloadLimit_cong [of st' st "regions c v"]
  by (auto simp: native_sharedObjectGetCapacity_def Let_def)

text \<open>A call that was given no handle, no memory or a negative size touches nothing.\<close>

lemma refused_calls:
  "native_sharedObjectWrite lock unlock None data n t c = Some (False, None, set_error SO_FAILED c)"
  "native_sharedObjectWrite lock unlock handle None n t c = Some (False, handle, set_error SO_FAILED c)"
  "n < 0 \<Longrightarrow> native_sharedObjectWrite lock unlock handle data n t c = Some (False, handle, set_error SO_FAILED c)"
  "native_sharedObjectReadPayload lock unlock None data n t c = Some (-1, data, None, set_error SO_FAILED c)"
  "native_sharedObjectReadPayload lock unlock handle None n t c = Some (-1, None, handle, set_error SO_FAILED c)"
  "n < 0 \<Longrightarrow> native_sharedObjectReadPayload lock unlock handle data n t c = Some (-1, data, handle, set_error SO_FAILED c)"
  by (simp_all add: native_sharedObjectWrite_def native_sharedObjectReadPayload_def Let_def split: option.splits)

lemma contents_written:
  assumes "isValidHeader r" "nat n \<le> payloadLimit st r" "0 \<le> n" "n \<le> INT_MAX"
    and "nat n \<le> length bs" "payloadRoom st' = payloadRoom st"
  shows "contents st' (written r bs n) = Some (take (nat n) bs)"
    "unat (payloadSize (written r bs n)) = nat n"
proof -
  have u: "unat (of_int n :: u32) = nat n"
    using assms by (simp add: unat_eq_nat_uint uint_word_of_int_eq take_bit_int_eq_self)
  then show "unat (payloadSize (written r bs n)) = nat n" by (simp add: written_def)
  have "payloadLimit st' (written r bs n) = payloadLimit st r"
    by (rule payloadLimit_cong) (simp_all add: assms written_def)
  then show "contents st' (written r bs n) = Some (take (nat n) bs)"
    using assms u by (simp add: contents_def written_def isValidHeader_def)
qed

lemma write_then_read:
  assumes st: "mapping_ok st v c" and size: "0 \<le> n" "n \<le> INT_MAX" "nat n \<le> length bs"
    and w: "native_sharedObjectWrite lock unlock (Some st) (Some bs) n t c = Some (True, h1, c1)"
    and st2: "mapping_ok st2 v c2" "payloadRoom st2 = payloadRoom st" "regions c2 v = regions c1 v"
    and size2: "n \<le> m" "nat m \<le> length buf"
    and l2: "lock st2 t2 (set_error SO_FAILED c2) = Some (True, st3, c3)"
  shows "\<exists>c'. native_sharedObjectReadPayload lock unlock (Some st2) (Some buf) m t2 c2 =
      Some (n, Some (take (nat n) bs @ drop (nat n) buf), Some st3, c') \<and>
      regions c' = regions c2 \<and> lastError c' = SO_NONE"
proof -
  obtain ok st' d where l: "lock st t (set_error SO_FAILED c) = Some (ok, st', d)"
    using w st size by (auto simp: native_sharedObjectWrite_def Let_def mapping_ok_def split: option.splits)
  let ?r = "regions c v"
  have r1: "isValidHeader ?r" "nat n \<le> payloadLimit st ?r" "regions c1 v = written ?r bs n"
    using write_result [OF st size(1,3) l refl] w by (auto split: if_splits)
  have cw: "contents st2 (written ?r bs n) = Some (take (nat n) bs)"
    "unat (payloadSize (written ?r bs n)) = nat n"
    using contents_written [OF r1(1,2) size st2(2)] by simp_all
  have d: "as_int (nat n) = n" using size by (simp add: as_int_small nat_less_iff)
  have "take (nat n) (payload (written ?r bs n)) = take (nat n) bs" using size by (simp add: written_def)
  then show ?thesis
    using read_result [OF st2(1) _ size2(2) l2 refl refl] size size2 st2(3) r1(3) cw d
    by (cases "n = 0") auto
qed

lemma write_error:
  assumes "native_sharedObjectWrite lock unlock handle data n t c = Some (ok, h', c')"
  shows "lastError c' = SO_NONE \<longleftrightarrow> ok"
  using assms
  by (auto simp: native_sharedObjectWrite_def Let_def lock_outcome_def
      split: option.splits prod.splits if_splits dest!: lock_context)

lemma read_error:
  assumes "native_sharedObjectReadPayload lock unlock handle data n t c = Some (r, b, h', c')"
  shows "lastError c' \<noteq> SO_NONE \<Longrightarrow> r = -1 \<and> b = data"
  using assms
  by (auto simp: native_sharedObjectReadPayload_def Let_def lock_outcome_def
      split: option.splits prod.splits if_splits dest!: lock_context)

lemma clear_error:
  assumes "native_sharedObjectClear lock unlock handle t c = Some (ok, h', c')"
  shows "lastError c' = SO_NONE \<longleftrightarrow> ok"
  using assms
  by (auto simp: native_sharedObjectClear_def Let_def lock_outcome_def
      split: option.splits prod.splits if_splits dest!: lock_context)

lemma capacity_error:
  assumes "native_sharedObjectGetCapacity lock unlock handle t c = Some (r, h', c')"
  shows "lastError c' \<noteq> SO_NONE \<Longrightarrow> r = -1"
  using assms
  by (auto simp: native_sharedObjectGetCapacity_def Let_def lock_outcome_def
      split: option.splits prod.splits if_splits dest!: lock_context)

end

section \<open>Properties of the operations\<close>

text \<open>
  C1. What one participant writes, another reads. After a write that succeeded, a read through any
  handle on the same region, of this process or another, that is granted the lock before anything
  else is written answers the length written and copies exactly the bytes written into a buffer
  with room for them, and leaves the rest of the buffer alone.
\<close>

theorem shared_object_roundtrip:
  assumes "mapping_ok st v c" and "0 \<le> n" "n \<le> INT_MAX" "nat n \<le> length bs"
    and "native_sharedObjectWrite (lockForHandle_posix K shortName) (unlockForHandle_posix K)
           (Some st) (Some bs) n t c = Some (True, h1, c1)"
    and "mapping_ok st2 v c2" "payloadRoom st2 = payloadRoom st" "regions c2 v = regions c1 v"
    and "n \<le> m" "nat m \<le> length buf"
    and "lockForHandle_posix K shortName st2 t2 (set_error SO_FAILED c2) = Some (True, st3, c3)"
  shows "\<exists>c'. native_sharedObjectReadPayload (lockForHandle_posix K shortName) (unlockForHandle_posix K)
             (Some st2) (Some buf) m t2 c2
           = Some (n, Some (take (nat n) bs @ drop (nat n) buf), Some st3, c') \<and>
         regions c' = regions c2 \<and> lastError c' = SO_NONE"
  using flock_lock.write_then_read [OF assms] .

definition free_kernel :: "int so_kernel" where
  "free_kernel = stuck_kernel\<lparr>flock_nb := \<lambda>d w. (Ret (), w)\<rparr>"

definition sample_state :: so_state_posix where
  "sample_state = \<lparr>view = Some 0, payloadRoom = 4, fd = 3, lockFd = 3, viewSize = 16, lockPath = [], lockRefreshed = 0\<rparr>"

definition sample_ctx :: "int so_ctx" where
  "sample_ctx = \<lparr>lastError = SO_NONE, regions = \<lambda>_. \<lparr>magic = SHARED_OBJECT_MAGIC, payloadSize = 0, capacity = 9, payload = [1, 2, 3, 4]\<rparr>, sys = 0\<rparr>"

lemmas sample_defs = free_kernel_def stuck_kernel_def sample_state_def sample_ctx_def

lemma sample_lock:
  "lockForHandle_posix free_kernel False sample_state 5 c = Some (True, sample_state, c)"
  by (simp add: lockForHandle_posix_def lockDescriptor_def call_def sample_defs)

theorem shared_object_roundtrip_witness:
  "\<exists>c1 c'. native_sharedObjectWrite (lockForHandle_posix free_kernel False) (unlockForHandle_posix free_kernel)
             (Some sample_state) (Some [7, 8, 9]) 2 5 sample_ctx = Some (True, Some sample_state, c1) \<and>
     native_sharedObjectReadPayload (lockForHandle_posix free_kernel False) (unlockForHandle_posix free_kernel)
             (Some sample_state) (Some [0, 0, 0]) 3 5 c1 = Some (2, Some [7, 8, 0], Some sample_state, c')"
proof -
  have m: "mapping_ok sample_state 0 sample_ctx" by (simp add: mapping_ok_def sample_defs)
  have lim: "nat 2 \<le> payloadLimit sample_state (regions sample_ctx 0)" "isValidHeader (regions sample_ctx 0)"
    by (simp_all add: payloadLimit_def Let_def sample_defs isValidHeader_def)
  obtain c1 where w: "native_sharedObjectWrite (lockForHandle_posix free_kernel False) (unlockForHandle_posix free_kernel)
             (Some sample_state) (Some [7, 8, 9]) 2 5 sample_ctx = Some (True, Some sample_state, c1)"
      "regions c1 0 = written (regions sample_ctx 0) [7, 8, 9] 2"
    using flock_lock.write_result [OF m _ _ sample_lock refl, of 2 "[7, 8, 9]"] lim by auto
  have m2: "mapping_ok sample_state 0 c1"
    using w(2) by (simp add: mapping_ok_def sample_defs written_def)
  show ?thesis
    using shared_object_roundtrip [OF m _ _ _ w(1) m2 refl refl _ _ sample_lock, of 3 "[0, 0, 0]"] w(1)
    by auto
qed

text \<open>Nothing but the payload's bytes and length of the one region may change.\<close>

definition only_within :: "'s so_state_scheme \<Rightarrow> nat \<Rightarrow> 'w so_ctx \<Rightarrow> 'w so_ctx \<Rightarrow> bool" where
  "only_within st v c c' \<longleftrightarrow>
     (\<forall>v'. v' \<noteq> v \<longrightarrow> regions c' v' = regions c v') \<and>
     length (payload (regions c' v)) = length (payload (regions c v)) \<and>
     drop (payloadRoom st) (payload (regions c' v)) = drop (payloadRoom st) (payload (regions c v)) \<and>
     magic (regions c' v) = magic (regions c v) \<and> capacity (regions c' v) = capacity (regions c v)"

definition accesses_in_bounds ::
  "('s, 'w) so_lock \<Rightarrow> ('s, 'w) so_unlock \<Rightarrow> 's so_state_scheme \<Rightarrow> nat \<Rightarrow> bytes \<Rightarrow> int \<Rightarrow> int \<Rightarrow> 'w so_ctx \<Rightarrow> bool" where
  "accesses_in_bounds lock unlock st v mem n t c \<longleftrightarrow>
     (\<exists>ok h c'. native_sharedObjectWrite lock unlock (Some st) (Some mem) n t c = Some (ok, h, c') \<and>
                only_within st v c c') \<and>
     (\<exists>r mem' h c'. native_sharedObjectReadPayload lock unlock (Some st) (Some mem) n t c = Some (r, Some mem', h, c') \<and>
                regions c' = regions c \<and> length mem' = length mem \<and> drop (nat n) mem' = drop (nat n) mem)"

lemma only_within_written:
  assumes "mapping_ok st v c" "nat n \<le> payloadLimit st (regions c v)" "nat n \<le> length bs"
    and "regions c' = (regions c)(v := written (regions c v) bs n)"
  shows "only_within st v c c'"
  using assms payloadLimit_room [of st "regions c v"]
  by (auto simp: only_within_def mapping_ok_def written_def)

lemma only_within_refl: "regions c' = regions c \<Longrightarrow> only_within st v c c'"
  by (simp add: only_within_def)

context region_lock
begin

lemma in_bounds:
  assumes st: "mapping_ok st v c" and size: "0 \<le> n" "nat n \<le> length mem"
    and l: "lock st t (set_error SO_FAILED c) \<noteq> None"
  shows "accesses_in_bounds lock unlock st v mem n t c"
proof -
  obtain ok st' c1 where l': "lock st t (set_error SO_FAILED c) = Some (ok, st', c1)"
    using l by auto
  let ?fits = "ok \<and> isValidHeader (regions c v) \<and> nat n \<le> payloadLimit st (regions c v)"
  obtain c' where "native_sharedObjectWrite lock unlock (Some st) (Some mem) n t c = Some (?fits, Some st', c')"
    "regions c' = (if ?fits then (regions c)(v := written (regions c v) mem n) else regions c)"
    using write_result [OF st size l' refl] by auto
  then have w: "\<exists>ok h c'. native_sharedObjectWrite lock unlock (Some st) (Some mem) n t c = Some (ok, h, c') \<and>
                only_within st v c c'"
    using only_within_written [OF st _ size(2), of c'] only_within_refl [of c' c st v]
    by (cases ?fits) auto
  let ?d = "as_int (unat (payloadSize (regions c v)))"
  have len: "nat ?d \<le> length (payload (regions c v))" if "contents st (regions c v) \<noteq> None"
    using that st payloadLimit_room [of st "regions c v"] nat_as_int_le [of "unat (payloadSize (regions c v))"]
    by (auto simp: contents_def mapping_ok_def split: if_splits)
  then show ?thesis
    using w read_result [OF st size l' refl refl] size by (auto simp: accesses_in_bounds_def)
qed

end

text \<open>
  C2. Reads and writes stay in bounds whatever the region holds. The header is shared memory that
  any participant may have filled with any bytes; still, on every platform, no copy leaves the
  mapping or the caller's buffer, a write changes nothing but this region's payload and payload
  length, and a read changes no region and none of the buffer past the size it was told.
\<close>

theorem shared_object_in_bounds:
  assumes "mapping_ok st v c" and "mapping_ok wst v c" and "0 \<le> n" and "nat n \<le> length mem"
    and "lockForHandle_posix K shortName st t (set_error SO_FAILED c) \<noteq> None"
  shows "accesses_in_bounds (lockForHandle_posix K shortName) (unlockForHandle_posix K) st v mem n t c \<and>
         accesses_in_bounds (lockForHandle_windows W) (unlockForHandle_windows W) wst v mem n t c"
proof -
  have "lockForHandle_windows W wst t (set_error SO_FAILED c) \<noteq> None"
    by (simp add: lockForHandle_windows_def Let_def del: not_None_eq split: option.splits prod.splits)
  then show ?thesis
    using flock_lock.in_bounds [OF assms(1,3,4,5)] mutex_lock.in_bounds [OF assms(2,3,4)] by blast
qed

theorem shared_object_in_bounds_witness:
  "accesses_in_bounds (lockForHandle_posix free_kernel False) (unlockForHandle_posix free_kernel)
     sample_state 0 [7, 8, 9] 3 5 sample_ctx"
proof -
  have m: "mapping_ok sample_state 0 sample_ctx"
    "mapping_ok \<lparr>view = Some 0, payloadRoom = 4, fileMapping = None, mutex = None\<rparr> 0 sample_ctx"
    by (simp_all add: mapping_ok_def sample_defs)
  show ?thesis
    using shared_object_in_bounds [OF m, of 3 "[7, 8, 9]" free_kernel False 5] by (simp add: sample_lock)
qed

text \<open>
  The error a call leaves on the thread: none exactly when a write or a clear succeeded, and a
  read or a size asked for that left one answered -1 and, for a read, copied nothing.
\<close>

definition error_contract :: "('s, 'w) so_lock \<Rightarrow> ('s, 'w) so_unlock \<Rightarrow> bool" where
  "error_contract lock unlock \<longleftrightarrow>
     (\<forall>h bs n t c ok h' c'. native_sharedObjectWrite lock unlock h bs n t c = Some (ok, h', c') \<longrightarrow>
        (lastError c' = SO_NONE \<longleftrightarrow> ok)) \<and>
     (\<forall>h t c ok h' c'. native_sharedObjectClear lock unlock h t c = Some (ok, h', c') \<longrightarrow>
        (lastError c' = SO_NONE \<longleftrightarrow> ok)) \<and>
     (\<forall>h b n t c r b' h' c'. native_sharedObjectReadPayload lock unlock h b n t c = Some (r, b', h', c') \<longrightarrow>
        lastError c' \<noteq> SO_NONE \<longrightarrow> r = -1 \<and> b' = b) \<and>
     (\<forall>h t c r h' c'. native_sharedObjectGetCapacity lock unlock h t c = Some (r, h', c') \<longrightarrow>
        lastError c' \<noteq> SO_NONE \<longrightarrow> r = -1)"

context region_lock
begin

lemma contract: "error_contract lock unlock"
  unfolding error_contract_def
  using write_error clear_error read_error capacity_error by blast

end


end
