(* ===== verification/Shared_Open.thy ===== *)
theory Shared_Open
  imports Shared_Object
begin

text \<open>
  What opening, closing and removing a region do: the header found or made by an open, and the
  descriptors a process is left with.
\<close>

section \<open>The header after an open\<close>

definition region_opened :: "int \<Rightarrow> nat \<Rightarrow> region \<Rightarrow> region \<Rightarrow> bool" where
  "region_opened asked room r r' \<longleftrightarrow>
     isValidHeader r' \<and> 0 < unat (capacity r') \<and> payload r' = payload r \<and>
     (if isValidHeader r \<and> capacity r \<noteq> 0 then r' = r
      else payloadSize r' = 0 \<and> int (unat (capacity r')) = min asked (int room))"

definition open_outcome :: "int \<Rightarrow> 'w so_ctx \<Rightarrow> 's so_state_scheme option \<Rightarrow> 'w so_ctx \<Rightarrow> bool" where
  "open_outcome asked c res c' \<longleftrightarrow>
     (case res of
        None \<Rightarrow> lastError c' \<noteq> SO_NONE \<and> regions c' = regions c
      | Some st \<Rightarrow>
          lastError c' = SO_NONE \<and> 0 < payloadRoom st \<and>
          (\<exists>v. view st = Some v \<and> (\<forall>v'. v' \<noteq> v \<longrightarrow> regions c' v' = regions c v') \<and>
               region_opened asked (payloadRoom st) (regions c v) (regions c' v)))"

lemma initialised:
  assumes "1 \<le> asked" "asked \<le> INT_MAX" "0 < room"
  shows "isValidHeader (initialiseHeader r room asked)"
    "int (unat (capacity (initialiseHeader r room asked))) = min asked (int room)"
    "payloadSize (initialiseHeader r room asked) = 0" "payload (initialiseHeader r room asked) = payload r"
proof -
  have w: "unat (of_int asked :: u64) = nat asked"
    using assms by (simp add: unat_eq_nat_uint uint_word_of_int_eq take_bit_int_eq_self)
  define k where "k = (if nat asked < room then nat asked else room)"
  have "int k = min asked (int room)" "k < 2 ^ 32" using assms by (auto simp: k_def min_def)
  then show "int (unat (capacity (initialiseHeader r room asked))) = min asked (int room)"
    by (simp add: initialiseHeader_def Let_def w k_def [symmetric] unat_of_nat take_bit_nat_eq_self)
qed (simp_all add: initialiseHeader_def Let_def isValidHeader_def)

definition ensured :: "nat \<Rightarrow> int \<Rightarrow> region \<Rightarrow> region" where
  "ensured room asked r =
     (if \<not> isValidHeader r \<or> capacity r = 0 then initialiseHeader r room asked else r)"

lemma ensureHeader_frame [simp]:
  "regions (ensureHeader v room asked c) = (regions c)(v := ensured room asked (regions c v))"
  "lastError (ensureHeader v room asked c) = lastError c"
  by (auto simp: ensureHeader_def Let_def ensured_def)

lemma ensured_opened:
  assumes "1 \<le> asked" "asked \<le> INT_MAX" "0 < room"
  shows "region_opened asked room r (ensured room asked r)"
proof -
  note i = initialised [OF assms, of r]
  have "0 < unat (capacity (initialiseHeader r room asked))" using i(2) assms by linarith
  then show ?thesis using i by (auto simp: region_opened_def ensured_def unat_gt_0)
qed

lemma askedSize_range: "maxSize \<le> INT_MAX \<Longrightarrow> 1 \<le> askedSize maxSize \<and> askedSize maxSize \<le> INT_MAX"
  by (simp add: askedSize_def defaultCapacity_def)

lemma open_outcome_made:
  assumes "1 \<le> asked" "asked \<le> INT_MAX" "view st = Some v" "0 < payloadRoom st"
    and "regions c' = (regions c)(v := ensured (payloadRoom st) asked (regions c v))"
    and "lastError c' = SO_NONE"
  shows "open_outcome asked c (Some st) c'"
  using assms ensured_opened [OF assms(1,2,4)] by (simp add: open_outcome_def)

lemma call_keeps: "call f c = (r, c') \<Longrightarrow> regions c' = regions c \<and> lastError c' = lastError c"
  by (auto simp: call_def split: prod.splits)

context region_lock
begin

lemma lock_keeps:
  "lock st t c = Some (ok, st', c') \<Longrightarrow>
     lock_outcome c ok c' \<and> view st' = view st \<and> payloadRoom st' = payloadRoom st"
  using lock_context lock_handle by blast

end

lemma closeRegion_windows_frame [simp]:
  "regions (closeRegion_windows W v m c) = regions c" "lastError (closeRegion_windows W v m c) = lastError c"
  by (simp_all add: closeRegion_windows_def)

lemma abandonOpen_frame [simp]:
  "regions (abandonOpen K d l c) = regions c" "lastError (abandonOpen K d l c) = lastError c"
  by (simp_all add: abandonOpen_def Let_def)

lemma open_windows_outcome:
  assumes "maxSize \<le> INT_MAX"
    and "native_sharedObjectOpen_windows W name maxSize t c = Some (res, c')"
  shows "open_outcome (askedSize maxSize) c res c'"
proof -
  note a = askedSize_range [OF assms(1)]
  show ?thesis
  proof (cases res)
    case None
    then show ?thesis
      using assms(2)
      by (auto simp: native_sharedObjectOpen_windows_def Let_def open_outcome_def lock_outcome_def
          split: prod.splits option.splits if_splits dest!: call_keeps mutex_lock.lock_keeps)
  next
    case (Some st)
    then obtain v where "view st = Some v" "0 < payloadRoom st"
      "regions c' = (regions c)(v := ensured (payloadRoom st) (askedSize maxSize) (regions c v))"
      "lastError c' = SO_NONE"
      using assms(2)
      by (auto simp: native_sharedObjectOpen_windows_def Let_def lock_outcome_def
          split: prod.splits option.splits if_splits
          dest!: call_keeps mutex_lock.lock_keeps)
    then show ?thesis using open_outcome_made [of "askedSize maxSize" st] a Some by blast
  qed
qed

lemma openRegion_frame:
  "openRegion K p c = (r, c') \<Longrightarrow> regions c' = regions c \<and> lastError c' = lastError c"
  by (auto simp: openRegion_def split: prod.splits sysret.splits if_splits dest!: call_keeps isOwnFile_frame)

lemma sizeRegion_frame:
  assumes "sizeRegion K d n c = (r, c')"
  shows "regions c' = regions c \<and> lastError c' = lastError c \<and> (\<forall>s. r = Some s \<longrightarrow> HEADER_SIZE < s)"
  using assms
  by (auto simp: sizeRegion_def split: prod.splits option.splits if_splits dest!: call_keeps)

lemma mapRegion_outcome:
  assumes "mapRegion K d l path asked c = (res, c')" "lastError c = SO_FAILED"
    and "1 \<le> asked" "asked \<le> INT_MAX"
  shows "open_outcome asked c res c'"
proof (cases res)
  case None
  then show ?thesis
    using assms(1,2)
    by (auto simp: mapRegion_def Let_def open_outcome_def
        split: prod.splits option.splits if_splits dest!: call_keeps sizeRegion_frame)
next
  case (Some st)
  then obtain v where "view st = Some v" "0 < payloadRoom st"
    "regions c' = (regions c)(v := ensured (payloadRoom st) asked (regions c v))"
    "lastError c' = SO_NONE"
    using assms(1,2) flock_lock.unlock_context [of K]
    by (auto simp: mapRegion_def Let_def
        split: prod.splits option.splits if_splits dest!: call_keeps sizeRegion_frame)
  then show ?thesis using open_outcome_made [of asked st] assms(3,4) Some by blast
qed

lemma open_outcome_from:
  "open_outcome asked c1 res c' \<Longrightarrow> regions c1 = regions c \<Longrightarrow> open_outcome asked c res c'"
  by (simp add: open_outcome_def split: option.splits)

lemma open_outcome_none:
  "lastError c' \<noteq> SO_NONE \<Longrightarrow> regions c' = regions c \<Longrightarrow> open_outcome asked c None c'"
  by (simp add: open_outcome_def)

lemma open_posix_outcome:
  assumes "maxSize \<le> INT_MAX"
    and "native_sharedObjectOpen_posix K shortName name maxSize t c = Some (res, c')"
  shows "open_outcome (askedSize maxSize) c res c'"
proof -
  note a = askedSize_range [OF assms(1)]
  have m: "open_outcome (askedSize maxSize) c res c'"
    if "mapRegion K d l path (askedSize maxSize) c1 = (res, c')" "lastError c1 = SO_FAILED" "regions c1 = regions c"
    for d l path c1
    using mapRegion_outcome [OF that(1,2)] open_outcome_from that(3) a by blast
  show ?thesis
  proof (cases shortName)
    case True
    then show ?thesis
      using assms(2)
      by (auto simp: native_sharedObjectOpen_posix_def Let_def takeLockFile_def
          split: prod.splits option.splits sysret.splits if_splits
          dest!: openRegion_frame takeLockFile_attempts_outcome
          intro: m)
        (auto simp: lock_outcome_def refusedRegion_def intro!: open_outcome_none intro: m)
  next
    case False
    then show ?thesis
      using assms(2)
      by (auto simp: native_sharedObjectOpen_posix_def Let_def
          split: prod.splits option.splits sysret.splits if_splits
          dest!: openRegion_frame lockDescriptor_outcome
          intro: m)
        (auto simp: lock_outcome_def refusedRegion_def intro!: open_outcome_none intro: m)
  qed
qed


text \<open>A kernel with one region of 20 bytes, owned by the user, and every lock free.\<close>

definition small_kernel :: "int so_kernel" where
  "small_kernel = free_kernel\<lparr>fstat := \<lambda>d w. (Some \<lparr>st_dev = 1, st_ino = 2, st_uid = 0, st_mode = 0,
      st_regular = True, st_size = 20\<rparr>, w)\<rparr>"

definition blank_ctx :: "int so_ctx" where
  "blank_ctx = \<lparr>lastError = SO_NONE, regions = \<lambda>_. \<lparr>magic = 0, payloadSize = 0, capacity = 0, payload = replicate 8 0\<rparr>, sys = 0\<rparr>"


section \<open>Descriptors\<close>

text \<open>
  What the descriptors of a process do: a call that opens one answers one that was not open, closing
  one removes it, and no other call changes which are open.
\<close>

definition opens :: "('w \<Rightarrow> int set) \<Rightarrow> ('w \<Rightarrow> int sysret \<times> 'w) \<Rightarrow> bool" where
  "opens fds f \<longleftrightarrow>
     (\<forall>w. case f w of
            (Ret d, w') \<Rightarrow> 0 \<le> d \<and> d \<notin> fds w \<and> fds w' = insert d (fds w)
          | (Err _, w') \<Rightarrow> fds w' = fds w)"

definition tracks_fds :: "'w so_kernel \<Rightarrow> ('w \<Rightarrow> int set) \<Rightarrow> bool" where
  "tracks_fds K fds \<longleftrightarrow>
     (\<forall>p. opens fds (open_lock K p)) \<and> (\<forall>p. opens fds (shm_open K p)) \<and>
     (\<forall>d w. fds (close_fd K d w) = fds w - {d}) \<and>
     (\<forall>d. keeps fds (flock_nb K d)) \<and> (\<forall>d. keeps fds (flock_ex K d)) \<and>
     (\<forall>d w. fds (flock_un K d w) = fds w) \<and> (\<forall>us w. fds (sleep_for K us w) = fds w) \<and>
     (\<forall>d. keeps fds (fstat K d)) \<and> (\<forall>p. keeps fds (lstat_path K p)) \<and>
     (\<forall>d w. fds (fchmod_own K d w) = fds w) \<and> (\<forall>d w. fds (futimes K d w) = fds w) \<and>
     (\<forall>d n. keeps fds (ftruncate K d n)) \<and> (\<forall>n d. keeps fds (mmap K n d)) \<and>
     (\<forall>v n w. fds (munmap K v n w) = fds w) \<and> keeps fds (new_state K) \<and>
     (\<forall>p. keeps fds (shm_unlink K p)) \<and> (\<forall>p w. fds (unlink_path K p w) = fds w)"

lemma call_obs:
  assumes "keeps fds f" "call f c = (r, c')"
  shows "fds (sys c') = fds (sys c)"
  using sys_call [OF assms(2)] assms(1) by (simp add: keeps_def)

lemma call_opens:
  assumes "opens fds f" "call f c = (r, c')"
  shows "case r of Ret d \<Rightarrow> 0 \<le> d \<and> d \<notin> fds (sys c) \<and> fds (sys c') = insert d (fds (sys c))
       | Err _ \<Rightarrow> fds (sys c') = fds (sys c)"
proof -
  have "f (sys c) = (r, sys c')" using sys_call [OF assms(2)] by simp
  then show ?thesis
    using assms(1) [unfolded opens_def, rule_format, of "sys c"] by (cases r) simp_all
qed

lemma tracks_simps:
  assumes "tracks_fds K fds"
  shows "fds (close_fd K d w) = fds w - {d}" "fds (flock_un K d w) = fds w" "fds (sleep_for K us w) = fds w"
    "fds (fchmod_own K d w) = fds w" "fds (futimes K d w) = fds w" "fds (munmap K v n w) = fds w"
    "fds (unlink_path K p w) = fds w"
  using assms by (simp_all add: tracks_fds_def)

lemma tracks_keep:
  assumes "tracks_fds K fds"
  shows "keeps fds (flock_nb K d)" "keeps fds (flock_ex K d)" "keeps fds (fstat K d)"
    "keeps fds (lstat_path K p)" "keeps fds (ftruncate K d n)" "keeps fds (mmap K n d)"
    "keeps fds (new_state K)" "keeps fds (shm_unlink K p)"
  using assms by (simp_all add: tracks_fds_def)

lemma tracks_calls:
  assumes "tracks_fds K fds"
  shows "call (flock_nb K d) c = (r1, c') \<Longrightarrow> fds (sys c') = fds (sys c)"
    "call (flock_ex K d) c = (r2, c') \<Longrightarrow> fds (sys c') = fds (sys c)"
    "call (fstat K d) c = (r3, c') \<Longrightarrow> fds (sys c') = fds (sys c)"
    "call (lstat_path K p) c = (r4, c') \<Longrightarrow> fds (sys c') = fds (sys c)"
    "call (ftruncate K d n) c = (r5, c') \<Longrightarrow> fds (sys c') = fds (sys c)"
    "call (mmap K n d) c = (r6, c') \<Longrightarrow> fds (sys c') = fds (sys c)"
    "call (new_state K) c = (r7, c') \<Longrightarrow> fds (sys c') = fds (sys c)"
    "call (shm_unlink K p) c = (r8, c') \<Longrightarrow> fds (sys c') = fds (sys c)"
  by - (erule tracks_keep [OF assms, THEN call_obs])+

text \<open>Waiting for a lock changes nothing that locking and sleeping do not.\<close>

lemma lockDescriptor_poll_keeps:
  assumes "\<And>d. keeps obs (flock_nb K d)" "\<And>us w. obs (sleep_for K us w) = obs w"
    and "lockDescriptor_poll K d deadline pauseUs c = Some r"
  shows "obs (sys (snd r)) = obs (sys c)"
proof -
  have call: "obs (sys c2) = obs (sys c1)" if "call (flock_nb K d) c1 = (x, c2)" for d c1 x c2
    by (rule call_obs [OF assms(1) that])
  have "K = K \<longrightarrow> obs (sys (snd r)) = obs (sys c)"
  proof (rule lockDescriptor_poll.raw_induct
      [where P = "\<lambda>K' d dl p c r. K' = K \<longrightarrow> obs (sys (snd r)) = obs (sys c)", OF _ assms(3)], goal_cases)
    case (1 poll K' d deadline pauseUs c r)
    from 1(2) show ?case
      by (auto simp: Let_def assms(2) split: if_splits prod.splits sysret.splits dest!: 1(1) call)
  qed
  then show ?thesis by simp
qed

lemma retry_keeps:
  assumes "keeps obs f" "retry (call f) again c = Some (r, c')"
  shows "obs (sys c') = obs (sys c)"
proof -
  let ?P = "\<lambda>c'. obs (sys c') = obs (sys c)"
  have "?P (snd (call f v))" if "?P v" for v
    using call_obs [OF assms(1), of v "fst (call f v)" "snd (call f v)"] that by simp
  then obtain v where "?P v" "call f v = (r, c')"
    using retry_invariant [where P = ?P, OF assms(2)] by auto
  then show ?thesis using call_obs [OF assms(1), of v r c'] by simp
qed

lemma lockDescriptor_keeps:
  assumes "\<And>d. keeps obs (flock_nb K d)" "\<And>d. keeps obs (flock_ex K d)" "\<And>us w. obs (sleep_for K us w) = obs w"
    and "lockDescriptor K d timeoutMs c = Some (ok, c')"
  shows "obs (sys c') = obs (sys c)"
  using assms(4)
  by (auto simp: lockDescriptor_def fail_with_def split: if_splits sysret.splits option.splits prod.splits
      dest!: retry_keeps [OF assms(2)] lockDescriptor_poll_keeps [OF assms(1,3)] call_obs [OF assms(1)])

lemma lockDescriptor_fds:
  assumes "tracks_fds K fds" "lockDescriptor K d timeoutMs c = Some (ok, c')"
  shows "fds (sys c') = fds (sys c)"
  by (rule lockDescriptor_keeps [OF tracks_keep(1,2) [OF assms(1)] tracks_simps(3) [OF assms(1)] assms(2)])

lemma isOwnFile_fds:
  assumes t: "tracks_fds K fds" and "isOwnFile K d regular c = (own, c')"
  shows "fds (sys c') = fds (sys c)"
  using assms(2)
  by (auto simp: isOwnFile_def tracks_simps [OF t] split: prod.splits option.splits if_splits
      dest!: tracks_calls(3) [OF t] del: equalityI)

lemma isAtPath_fds:
  assumes t: "tracks_fds K fds" and "isAtPath K d path c = (there, c')"
  shows "fds (sys c') = fds (sys c)"
  using assms(2)
  by (auto simp: isAtPath_def split: prod.splits option.splits
      dest!: tracks_calls(3) [OF t] tracks_calls(4) [OF t] del: equalityI)

lemma tracks_opens:
  assumes "tracks_fds K fds"
  shows "opens fds (open_lock K p)" "opens fds (shm_open K p)"
  using assms by (simp_all add: tracks_fds_def)

text \<open>A descriptor newly open, in a world where the others are those of before.\<close>

definition newly :: "('w \<Rightarrow> int set) \<Rightarrow> 'w so_ctx \<Rightarrow> int option \<Rightarrow> 'w so_ctx \<Rightarrow> bool" where
  "newly fds c r c' \<longleftrightarrow>
     (case r of
        None \<Rightarrow> fds (sys c') = fds (sys c)
      | Some d \<Rightarrow> 0 \<le> d \<and> d \<notin> fds (sys c) \<and> fds (sys c') = insert d (fds (sys c)))"

lemma openLockFile_fds:
  assumes t: "tracks_fds K fds" and o: "openLockFile K path c = (r, c')"
  shows "newly fds c r c'"
proof -
  obtain x c1 where c1: "call (open_lock K path) c = (x, c1)" by (cases "call (open_lock K path) c")
  show ?thesis
    using o c1 call_opens [OF tracks_opens(1) [OF t] c1]
    by (cases x) (auto simp: openLockFile_def newly_def tracks_simps [OF t]
        split: prod.splits if_splits dest!: isOwnFile_fds [OF t] del: equalityI)
qed

lemma openRegion_fds:
  assumes t: "tracks_fds K fds" and o: "openRegion K path c = (r, c')"
  shows "newly fds c (case r of Ret d \<Rightarrow> Some d | Err _ \<Rightarrow> None) c'"
proof -
  obtain x c1 where c1: "call (shm_open K path) c = (x, c1)" by (cases "call (shm_open K path) c")
  show ?thesis
    using o c1 call_opens [OF tracks_opens(2) [OF t] c1]
    by (cases x) (auto simp: openRegion_def newly_def tracks_simps [OF t]
        split: prod.splits if_splits dest!: isOwnFile_fds [OF t] del: equalityI)
qed

lemma takeLockFile_fds:
  assumes t: "tracks_fds K fds"
  shows "takeLockFile_attempts n K path timeoutMs c = Some (r, c') \<Longrightarrow> newly fds c r c'"
proof (induction n arbitrary: c)
  case 0
  then show ?case by (auto simp: newly_def)
next
  case (Suc n)
  obtain d c1 where o: "openLockFile K path c = (d, c1)" by (cases "openLockFile K path c")
  note n1 = openLockFile_fds [OF t o]
  show ?case
  proof (cases d)
    case None
    then show ?thesis using Suc.prems o n1 by simp
  next
    case (Some d')
    then obtain ok c2 where l: "lockDescriptor K d' timeoutMs c1 = Some (ok, c2)"
      using Suc.prems o by (auto split: option.splits)
    obtain there c3 where p: "isAtPath K d' path c2 = (there, c3)" by (cases "isAtPath K d' path c2")
    have "fds (sys c3) = insert d' (fds (sys c))" "fds (sys c2) = insert d' (fds (sys c))" "0 \<le> d'" "d' \<notin> fds (sys c)"
      using isAtPath_fds [OF t p] lockDescriptor_fds [OF t l] n1 Some by (simp_all add: newly_def)
    moreover have "newly fds (on_sys (close_fd K d') (on_sys (flock_un K d') c3)) r c'" if "ok" "\<not> there"
      using Suc.IH Suc.prems o Some l p that by simp
    ultimately show ?thesis
      using Suc.prems o Some l p
      by (cases r) (auto simp: newly_def tracks_simps [OF t] split: if_splits del: equalityI)
  qed
qed

lemma sizeRegion_fds:
  assumes t: "tracks_fds K fds" and "sizeRegion K d n c = (r, c')"
  shows "fds (sys c') = fds (sys c)"
  using assms(2)
  by (auto simp: sizeRegion_def split: prod.splits option.splits if_splits
      dest!: tracks_calls(3) [OF t] tracks_calls(5) [OF t] del: equalityI)

lemma ensureHeader_sys [simp]: "sys (ensureHeader v room asked c) = sys c"
  by (simp add: ensureHeader_def Let_def)

lemma abandonOpen_fds:
  "tracks_fds K fds \<Longrightarrow> fds (sys (abandonOpen K d l c)) = fds (sys c) - {l, d}"
  by (auto simp: abandonOpen_def Let_def tracks_simps)

lemma unlockForHandle_posix_fds:
  "tracks_fds K fds \<Longrightarrow> fds (sys (unlockForHandle_posix K st c)) = fds (sys c)"
  by (simp add: unlockForHandle_posix_def tracks_simps)

lemma mapRegion_fds:
  assumes t: "tracks_fds K fds" and m: "mapRegion K d l path asked c = (res, c')"
  shows "case res of None \<Rightarrow> fds (sys c') = fds (sys c) - {l, d}
       | Some st \<Rightarrow> fds (sys c') = fds (sys c) \<and> fd st = d \<and> lockFd st = l"
  using m
  by (cases res) (auto simp: mapRegion_def Let_def tracks_simps [OF t] abandonOpen_fds [OF t]
      unlockForHandle_posix_fds [OF t] split: prod.splits option.splits if_splits
      dest!: sizeRegion_fds [OF t] tracks_calls(6) [OF t] tracks_calls(7) [OF t] del: equalityI)

text \<open>What an open leaves open: nothing, or the handle's own descriptors, which were not open before.\<close>

definition opened_fds :: "('w \<Rightarrow> int set) \<Rightarrow> 'w so_ctx \<Rightarrow> so_state_posix option \<Rightarrow> 'w so_ctx \<Rightarrow> bool" where
  "opened_fds fds c res c' \<longleftrightarrow>
     (case res of
        None \<Rightarrow> fds (sys c') = fds (sys c)
      | Some st \<Rightarrow> 0 \<le> fd st \<and> 0 \<le> lockFd st \<and> fd st \<notin> fds (sys c) \<and> lockFd st \<notin> fds (sys c) \<and>
                  fds (sys c') = {fd st, lockFd st} \<union> fds (sys c))"

lemma open_linux_fds:
  assumes t: "tracks_fds K fds" and "native_sharedObjectOpen_posix K False name maxSize timeoutMs c = Some (res, c')"
  shows "opened_fds fds c res c'"
proof -
  obtain r c1 where o: "openRegion K (makeSharedName_posix False name) (set_error SO_FAILED c) = (r, c1)"
    by (cases "openRegion K (makeSharedName_posix False name) (set_error SO_FAILED c)")
  note n = openRegion_fds [OF t o]
  show ?thesis
  proof (cases r)
    case (Err e)
    then show ?thesis using assms(2) o n
      by (auto simp: native_sharedObjectOpen_posix_def Let_def opened_fds_def newly_def del: equalityI)
  next
    case (Ret d)
    then obtain ok c2 where l: "lockDescriptor K d timeoutMs c1 = Some (ok, c2)"
      using assms(2) o by (auto simp: native_sharedObjectOpen_posix_def Let_def split: option.splits)
    have f: "fds (sys c2) = insert d (fds (sys c))" "0 \<le> d" "d \<notin> fds (sys c)"
      using lockDescriptor_fds [OF t l] n Ret by (simp_all add: newly_def)
    show ?thesis
    proof (cases ok)
      case True
      then have m: "mapRegion K d d [] (askedSize maxSize) c2 = (res, c')"
        using assms(2) o Ret l by (simp add: native_sharedObjectOpen_posix_def Let_def)
      show ?thesis using mapRegion_fds [OF t m] f by (cases res) (auto simp: opened_fds_def)
    next
      case False
      then show ?thesis using assms(2) o Ret l f
        by (auto simp: native_sharedObjectOpen_posix_def Let_def opened_fds_def tracks_simps [OF t])
    qed
  qed
qed

lemma open_macos_fds:
  assumes t: "tracks_fds K fds" and "native_sharedObjectOpen_posix K True name maxSize timeoutMs c = Some (res, c')"
  shows "opened_fds fds c res c'"
proof -
  obtain x c1 where l: "takeLockFile K (makeLockPath name) timeoutMs (set_error SO_FAILED c) = Some (x, c1)"
    using assms(2) by (auto simp: native_sharedObjectOpen_posix_def Let_def split: option.splits prod.splits)
  note n = takeLockFile_fds [OF t l [unfolded takeLockFile_def]]
  show ?thesis
  proof (cases x)
    case None
    then show ?thesis using assms(2) l n
      by (auto simp: native_sharedObjectOpen_posix_def Let_def opened_fds_def newly_def del: equalityI)
  next
    case (Some ld)
    obtain r c2 where o: "openRegion K (makeSharedName_posix True name) c1 = (r, c2)"
      by (cases "openRegion K (makeSharedName_posix True name) c1")
    have f: "fds (sys c1) = insert ld (fds (sys c))" "0 \<le> ld" "ld \<notin> fds (sys c)"
      using n Some by (simp_all add: newly_def)
    note n2 = openRegion_fds [OF t o]
    show ?thesis
    proof (cases r)
      case (Err e)
      then show ?thesis using assms(2) l o n2 f Some
        by (simp add: native_sharedObjectOpen_posix_def Let_def opened_fds_def newly_def)
          (auto simp: tracks_simps [OF t])
    next
      case (Ret d)
      then have m: "mapRegion K d ld (makeLockPath name) (askedSize maxSize) c2 = (res, c')"
        using assms(2) l o Some by (simp add: native_sharedObjectOpen_posix_def Let_def)
      show ?thesis using mapRegion_fds [OF t m] f n2 Ret by (cases res) (auto simp: opened_fds_def newly_def)
    qed
  qed
qed

lemma close_fds:
  assumes t: "tracks_fds K fds" and "0 \<le> fd st" "0 \<le> lockFd st"
  shows "fds (sys (native_sharedObjectClose_posix K (Some st) c)) = fds (sys c) - {fd st, lockFd st}"
  using assms(2,3) by (auto simp: native_sharedObjectClose_posix_def Let_def tracks_simps [OF t] split: option.splits)

lemma remove_fds:
  assumes t: "tracks_fds K fds"
    and "native_sharedObjectRemove_posix K shortName name timeoutMs c = Some (r, c')"
  shows "fds (sys c') = fds (sys c)"
proof (cases shortName)
  case False
  then show ?thesis using assms(2)
    by (auto simp: native_sharedObjectRemove_posix_def Let_def split: prod.splits sysret.splits if_splits
        dest!: tracks_calls(8) [OF t] del: equalityI)
next
  case True
  then obtain x c1 where l: "takeLockFile K (makeLockPath name) timeoutMs (set_error SO_FAILED c) = Some (x, c1)"
    using assms(2) by (auto simp: native_sharedObjectRemove_posix_def Let_def split: option.splits prod.splits)
  have "newly fds c x c1"
    using takeLockFile_fds [OF t l [unfolded takeLockFile_def]] by (cases x) (simp_all add: newly_def)
  then show ?thesis using assms(2) l True
    by (cases x) (auto simp: native_sharedObjectRemove_posix_def Let_def newly_def tracks_simps [OF t]
        split: prod.splits sysret.splits if_splits dest!: tracks_calls(8) [OF t] del: equalityI)
qed

text \<open>
  C5. No descriptor leaks. On Linux and macOS, whatever the system answers: an open that returns
  no handle leaves the process with exactly the descriptors it had; closing the handle an open
  returned leaves exactly those too; and a removal always does.
\<close>

theorem shared_object_no_leak:
  assumes "tracks_fds K fds"
    and "native_sharedObjectOpen_posix K shortName name maxSize t c = Some (res, c')"
    and "native_sharedObjectRemove_posix K shortName name2 t2 c2 = Some (removed, c2')"
  shows "fds (sys (native_sharedObjectClose_posix K res c')) = fds (sys c) \<and>
         (res = None \<longrightarrow> fds (sys c') = fds (sys c)) \<and> fds (sys c2') = fds (sys c2)"
proof -
  have o: "opened_fds fds c res c'"
    using open_linux_fds [OF assms(1)] open_macos_fds [OF assms(1)] assms(2) by (cases shortName) auto
  moreover have "fds (sys (native_sharedObjectClose_posix K res c')) = fds (sys c)"
    using o close_fds [OF assms(1)]
    by (cases res) (auto simp: opened_fds_def native_sharedObjectClose_posix_def)
  ultimately show ?thesis using remove_fds [OF assms(1,3)] by (cases res) (simp_all add: opened_fds_def)
qed

text \<open>A kernel whose world is the list of open descriptors; there is no memory to map.\<close>

definition fd_kernel :: "int list so_kernel" where
  "fd_kernel =
     \<lparr>flock_nb = \<lambda>d w. (Ret (), w), flock_ex = \<lambda>d w. (Ret (), w),
      flock_un = \<lambda>d w. w, now = \<lambda>w. 0, sleep_for = \<lambda>us w. w, close_fd = \<lambda>d w. removeAll d w,
      open_lock = \<lambda>p w. (Ret (1 + foldr max w 0), (1 + foldr max w 0) # w),
      fstat = \<lambda>d w. (Some \<lparr>st_dev = 1, st_ino = 2, st_uid = 0, st_mode = 0, st_regular = True, st_size = 20\<rparr>, w),
      lstat_path = \<lambda>p w. (Some \<lparr>st_dev = 1, st_ino = 2, st_uid = 0, st_mode = 0, st_regular = True, st_size = 20\<rparr>, w),
      geteuid = \<lambda>w. 0, fchmod_own = \<lambda>d w. w, futimes = \<lambda>d w. w,
      shm_open = \<lambda>p w. (Ret (1 + foldr max w 0), (1 + foldr max w 0) # w),
      ftruncate = \<lambda>d n w. (True, w), mmap = \<lambda>n d w. (Some 0, w), munmap = \<lambda>v n w. w,
      new_state = \<lambda>w. (True, w), shm_unlink = \<lambda>p w. (Ret (), w), unlink_path = \<lambda>p w. w\<rparr>"

lemma fd_kernel_tracks: "tracks_fds fd_kernel set"
proof -
  have "1 + foldr max w 0 \<notin> set w" "0 \<le> 1 + foldr max w (0::int)" for w :: "int list"
    using foldr_max_int [of w] by fastforce+
  then show ?thesis
    by (auto simp: tracks_fds_def fd_kernel_def opens_def keeps_def)
qed

definition fd_ctx :: "int list so_ctx" where
  "fd_ctx = \<lparr>lastError = SO_NONE, regions = \<lambda>_. \<lparr>magic = 0, payloadSize = 0, capacity = 0, payload = replicate 8 0\<rparr>, sys = [2, 1, 0]\<rparr>"

theorem shared_object_no_leak_witness:
  "\<exists>st c' c2'. native_sharedObjectOpen_posix fd_kernel True (Some ''a'') 5 9 fd_ctx = Some (Some st, c') \<and>
     fd st = 4 \<and> lockFd st = 3 \<and>
     native_sharedObjectRemove_posix fd_kernel True (Some ''a'') 9 fd_ctx = Some (1, c2') \<and>
     set (sys (native_sharedObjectClose_posix fd_kernel (Some st) c')) = {0, 1, 2}"
proof -
  note defs = takeLockFile_def takeLockFile_attempts.simps eval_nat_numeral openLockFile_def lockDescriptor_def
    isAtPath_def call_def isOwnFile_def openRegion_def mapRegion_def sizeRegion_def HEADER_SIZE_def fd_kernel_def
  obtain st c' where o: "native_sharedObjectOpen_posix fd_kernel True (Some ''a'') 5 9 fd_ctx = Some (Some st, c')"
    "fd st = 4" "lockFd st = 3"
    by (simp add: native_sharedObjectOpen_posix_def Let_def defs fd_ctx_def)
  obtain c2' where r: "native_sharedObjectRemove_posix fd_kernel True (Some ''a'') 9 fd_ctx = Some (1, c2')"
    by (simp add: native_sharedObjectRemove_posix_def Let_def defs fd_ctx_def)
  have "set (sys fd_ctx) = {0, 1, 2}" by (auto simp: fd_ctx_def)
  then show ?thesis
    using shared_object_no_leak [OF fd_kernel_tracks o(1) r] o r by auto
qed

end
