(* ===== verification/Lock_File_Protocol.thy ===== *)
theory Lock_File_Protocol
  imports Shared_Lock
begin

text \<open>
  The lock file of macOS (\<^verbatim>\<open>takeLockFile\<close>, \<^verbatim>\<open>lockFileOfState\<close> and \<^verbatim>\<open>native_sharedObjectRemove\<close> of
  \<^verbatim>\<open>NativeSharedObject.cpp\<close>) as an interleaving of participants. \<open>Shared_Lock\<close> has the calls of one
  participant; here any number of them run, one system call of one of them at a time, over one
  path in \<^verbatim>\<open>/tmp\<close>. A participant's phase is the point of those functions it has reached.
\<close>

section \<open>Participants and steps\<close>

datatype phase =
    Outside
  | Opened nat
  | Locked nat
  | Inside nat
  | Unlinked nat

text \<open>
  \<open>at_path\<close> is the file the path names, \<open>holder\<close> whose \<^verbatim>\<open>flock()\<close> a file has, \<open>fresh\<close> the number of the
  next file made.
\<close>

record lf_state =
  at_path :: "nat option"
  fresh :: nat
  holder :: "nat \<Rightarrow> nat option"
  phases :: "nat \<Rightarrow> phase"

definition lf_init :: lf_state where
  "lf_init = \<lparr>at_path = None, fresh = 0, holder = \<lambda>_. None, phases = \<lambda>_. Outside\<rparr>"

definition to_phase :: "nat \<Rightarrow> phase \<Rightarrow> lf_state \<Rightarrow> lf_state" where
  "to_phase p ph s = s\<lparr>phases := (phases s)(p := ph)\<rparr>"

text \<open>A participant's locks go with it, when it unlocks, closes or dies.\<close>

definition release :: "nat \<Rightarrow> lf_state \<Rightarrow> lf_state" where
  "release p s = s\<lparr>holder := \<lambda>i. if holder s i = Some p then None else holder s i\<rparr>"

text \<open>
  \<open>guarded\<close> says what a cleaner of \<^verbatim>\<open>/tmp\<close> may take away: only a file nobody holds, which is what
  bringing the times of a file in use up to date is for, or any file at all.

  A lock released by \<open>leave\<close> keeps the descriptor, for the next call through the same handle
  (\<^verbatim>\<open>lockFileOfState\<close>), or is closed with it (\<^verbatim>\<open>native_sharedObjectClose\<close>).
\<close>

inductive lf_step :: "bool \<Rightarrow> lf_state \<Rightarrow> lf_state \<Rightarrow> bool" for guarded where
  open_there:
    "phases s p = Outside \<Longrightarrow> at_path s = Some i \<Longrightarrow> lf_step guarded s (to_phase p (Opened i) s)"
| open_made:
    "phases s p = Outside \<Longrightarrow> at_path s = None \<Longrightarrow>
       lf_step guarded s (to_phase p (Opened (fresh s)) (s\<lparr>at_path := Some (fresh s), fresh := Suc (fresh s)\<rparr>))"
| flock_taken:
    "phases s p = Opened i \<Longrightarrow> holder s i = None \<Longrightarrow>
       lf_step guarded s (to_phase p (Locked i) (s\<lparr>holder := (holder s)(i := Some p)\<rparr>))"
| flock_refused:
    "phases s p = Opened i \<Longrightarrow> lf_step guarded s (to_phase p Outside s)"
| check_there:
    "phases s p = Locked i \<Longrightarrow> at_path s = Some i \<Longrightarrow> lf_step guarded s (to_phase p (Inside i) s)"
| check_gone:
    "phases s p = Locked i \<Longrightarrow> at_path s \<noteq> Some i \<Longrightarrow> lf_step guarded s (to_phase p Outside (release p s))"
| leave:
    "phases s p = Inside i \<Longrightarrow> ph \<in> {Opened i, Outside} \<Longrightarrow> lf_step guarded s (to_phase p ph (release p s))"
| remove:
    "phases s p = Inside i \<Longrightarrow> lf_step guarded s (to_phase p (Unlinked i) (s\<lparr>at_path := None\<rparr>))"
| remove_done:
    "phases s p = Unlinked i \<Longrightarrow> lf_step guarded s (to_phase p Outside (release p s))"
| die:
    "lf_step guarded s (to_phase p Outside (release p s))"
| clean:
    "at_path s = Some i \<Longrightarrow> guarded \<longrightarrow> holder s i = None \<Longrightarrow> lf_step guarded s (s\<lparr>at_path := None\<rparr>)"

inductive_cases lf_stepE: "lf_step guarded s s'"

inductive lf_reachable :: "bool \<Rightarrow> lf_state \<Rightarrow> bool" for guarded where
  start: "lf_reachable guarded lf_init"
| step: "lf_reachable guarded s \<Longrightarrow> lf_step guarded s s' \<Longrightarrow> lf_reachable guarded s'"

section \<open>Mutual exclusion\<close>

fun locks_file :: "phase \<Rightarrow> nat option" where
  "locks_file Outside = None"
| "locks_file (Opened i) = None"
| "locks_file (Locked i) = Some i"
| "locks_file (Inside i) = Some i"
| "locks_file (Unlinked i) = Some i"

definition lf_inv :: "lf_state \<Rightarrow> bool" where
  "lf_inv s \<longleftrightarrow>
     (\<forall>p i. (locks_file (phases s p) = Some i) = (holder s i = Some p)) \<and>
     (\<forall>p i. phases s p = Inside i \<longrightarrow> at_path s = Some i)"

lemma phases_to_phase [simp]:
  "phases (to_phase p ph s) = (phases s)(p := ph)" "holder (to_phase p ph s) = holder s"
  "at_path (to_phase p ph s) = at_path s"
  by (simp_all add: to_phase_def)

lemma release_simps [simp]:
  "phases (release p s) = phases s" "at_path (release p s) = at_path s"
  "holder (release p s) i = (if holder s i = Some p then None else holder s i)"
  by (simp_all add: release_def)

lemma lf_inv_init: "lf_inv lf_init"
  by (simp add: lf_inv_def lf_init_def)

lemma lf_inv_released:
  assumes "lf_inv s" "locks_file ph = None"
  shows "lf_inv (to_phase p ph (release p s))"
  using assms by (auto simp: lf_inv_def)

lemma lf_inv_unchanged:
  assumes "lf_inv s" "locks_file ph = locks_file (phases s p)" "\<And>i. ph = Inside i \<Longrightarrow> at_path s = Some i"
  shows "lf_inv (to_phase p ph s)"
  using assms by (auto simp: lf_inv_def)

lemma lf_inv_inside: "lf_inv s \<Longrightarrow> phases s p = Inside i \<Longrightarrow> at_path s = Some i \<and> holder s i = Some p"
  unfolding lf_inv_def by (metis locks_file.simps(4))

lemma lf_inv_idle: "lf_inv s \<Longrightarrow> locks_file (phases s p) = None \<Longrightarrow> holder s i \<noteq> Some p"
  unfolding lf_inv_def by (metis option.distinct(1))

lemma lf_inv_step:
  assumes inv: "lf_inv s" and "lf_step True s s'"
  shows "lf_inv s'"
  using assms(2)
proof (cases rule: lf_step.cases)
  case (open_there p i)
  then show ?thesis using lf_inv_unchanged [OF inv, of "Opened i" p] by simp
next
  case (open_made p)
  then show ?thesis using inv lf_inv_idle [OF inv, of p] by (auto simp: lf_inv_def)
next
  case (flock_taken p i)
  then show ?thesis using inv lf_inv_idle [OF inv, of p] by (auto simp: lf_inv_def)
next
  case (flock_refused p i)
  then show ?thesis using lf_inv_unchanged [OF inv, of Outside p] by simp
next
  case (check_there p i)
  then show ?thesis using lf_inv_unchanged [OF inv, of "Inside i" p] by simp
next
  case (remove p i)
  have others: "phases s q \<noteq> Inside j" if "q \<noteq> p" for q j
    using lf_inv_inside [OF inv remove(2)] lf_inv_inside [OF inv, of q j] that by auto
  have own: "(i = j) = (holder s j = Some p)" for j
    using inv remove(2) unfolding lf_inv_def by (metis locks_file.simps(4) option.inject)
  show ?thesis using inv remove by (simp add: lf_inv_def others own)
next
  case (clean i)
  have "phases s q \<noteq> Inside j" for q j
    using lf_inv_inside [OF inv, of q j] clean by auto
  then show ?thesis using inv clean by (simp add: lf_inv_def)
qed (use lf_inv_released [OF inv] in auto)

lemma lf_inv_reachable: "lf_reachable True s \<Longrightarrow> lf_inv s"
  by (induction rule: lf_reachable.induct) (auto intro: lf_inv_init lf_inv_step)

text \<open>
  C3. The lock file excludes. However the calls of any number of participants interleave, opening,
  locking, removing the region's name and its lock file, dying at any point, and as long as a
  cleaner of \<^verbatim>\<open>/tmp\<close> takes no file in use, no two participants are inside the region's lock at once.
\<close>

theorem lock_file_excludes:
  assumes "lf_reachable True s" and "phases s p = Inside i" and "phases s q = Inside j"
  shows "p = q"
proof -
  note inv = lf_inv_reachable [OF assms(1), unfolded lf_inv_def]
  have "at_path s = Some i" "at_path s = Some j" using inv assms(2,3) by blast+
  moreover have "holder s i = Some p" "holder s j = Some q"
    using inv assms(2,3) by (metis locks_file.simps(4))+
  ultimately show ?thesis by simp
qed

lemma reach_inside:
  "\<exists>s. lf_reachable guarded s \<and> phases s p = Inside 0 \<and> at_path s = Some 0 \<and> fresh s = 1 \<and>
       (\<forall>q. q \<noteq> p \<longrightarrow> phases s q = Outside) \<and> holder s = (\<lambda>_. None)(0 := Some p)"
proof -
  let ?s1 = "to_phase p (Opened 0) (lf_init\<lparr>at_path := Some 0, fresh := 1\<rparr>)"
  let ?s2 = "to_phase p (Locked 0) (?s1\<lparr>holder := (holder ?s1)(0 := Some p)\<rparr>)"
  let ?s3 = "to_phase p (Inside 0) ?s2"
  have 1: "lf_step guarded lf_init ?s1"
    using lf_step.open_made [of lf_init p guarded] by (simp add: lf_init_def)
  have 2: "lf_step guarded ?s1 ?s2" by (rule lf_step.flock_taken) (simp_all add: lf_init_def)
  have 3: "lf_step guarded ?s2 ?s3" by (rule lf_step.check_there) (simp_all add: lf_init_def)
  have "lf_reachable guarded ?s3"
    by (rule lf_reachable.step [OF lf_reachable.step [OF lf_reachable.step [OF lf_reachable.start 1] 2] 3])
  then show ?thesis by (intro exI [of _ ?s3]) (simp add: lf_init_def to_phase_def)
qed

theorem lock_file_excludes_witness:
  "\<exists>s. lf_reachable True s \<and> phases s 7 = Inside 0 \<and> (\<forall>q. phases s q = Inside 0 \<longrightarrow> q = 7)"
proof -
  obtain s where "lf_reachable True s" "phases s 7 = Inside 0" using reach_inside by blast
  then show ?thesis using lock_file_excludes [of s _ 0 7 0] by blast
qed

text \<open>
  Keeping the lock file's times up to date is what the exclusion rests on: were a cleaner to
  take a file in use, two participants could be inside the region's lock at once, the one holding
  the file taken and one holding the file made after it.
\<close>

theorem lock_file_needs_refresh:
  "\<exists>s p q i j. lf_reachable False s \<and> phases s p = Inside i \<and> phases s q = Inside j \<and> p \<noteq> q"
proof -
  obtain s where s: "lf_reachable False s" "phases s 0 = Inside 0" "at_path s = Some 0" "fresh s = 1"
    "phases s 1 = Outside" "holder s = (\<lambda>_. None)(0 := Some 0)"
    using reach_inside [of False 0] by auto
  let ?s1 = "s\<lparr>at_path := None\<rparr>"
  let ?s2 = "to_phase 1 (Opened 1) (?s1\<lparr>at_path := Some 1, fresh := 2\<rparr>)"
  let ?s3 = "to_phase 1 (Locked 1) (?s2\<lparr>holder := (holder ?s2)(1 := Some 1)\<rparr>)"
  let ?s4 = "to_phase 1 (Inside 1) ?s3"
  have 1: "lf_step False s ?s1" by (rule lf_step.clean [OF s(3)]) simp
  have 2: "lf_step False ?s1 ?s2"
    using lf_step.open_made [of ?s1 1 False] s by (simp add: numeral_2_eq_2)
  have 3: "lf_step False ?s2 ?s3" by (rule lf_step.flock_taken) (simp_all add: s)
  have 4: "lf_step False ?s3 ?s4" by (rule lf_step.check_there) simp_all
  have "lf_reachable False ?s4"
    by (rule lf_reachable.step [OF lf_reachable.step [OF lf_reachable.step [OF lf_reachable.step [OF s(1) 1] 2] 3] 4])
  moreover have "phases ?s4 0 = Inside 0" "phases ?s4 1 = Inside 1" using s by simp_all
  moreover have "(0::nat) \<noteq> 1" by simp
  ultimately show ?thesis by blast
qed

end
