(* ===== verification/Socket_Transfer.thy ===== *)
theory Socket_Transfer
  imports Prelude
begin

text \<open>
  Addresses and single transfers of \<^verbatim>\<open>_internal/net/NativeSocketAddress.cpp\<close>. The socket calls are the
  fields of \<open>sock_api\<close>, functions on a world \<open>'w\<close>; what a receive hands over is the bytes it would have
  the kernel write at the given place. A call that throws into Haxe answers \<open>Inl\<close> of the message, and
  one whose \<^verbatim>\<open>EINTR\<close> loop never ends is \<open>None\<close>, as is one that would write outside the buffer.
\<close>

section \<open>Handles\<close>

text \<open>
  A Haxe value passed for a socket: null, an object whose field \<^verbatim>\<open>__s\<close> may hold one, or the native
  wrapper itself.
\<close>

datatype sock_value = SNull | SClass "int option" | SWrapper int

definition crossbyte_val_sock :: "sock_value \<Rightarrow> int hx" where
  "crossbyte_val_sock inValue =
     (case inValue of
        SNull \<Rightarrow> Inl ''Invalid socket handle''
      | SClass None \<Rightarrow> Inl ''Invalid socket handle''
      | SClass (Some s) \<Rightarrow> Inr s
      | SWrapper s \<Rightarrow> Inr s)"

section \<open>Addresses\<close>

text \<open>
  A socket address in memory: the port in network byte order, an IPv4 host as the 32 bits at
  \<^verbatim>\<open>sin_addr\<close>, an IPv6 host as its sixteen bytes.
\<close>

datatype sockaddr = Sockaddr_in u32 u16 | Sockaddr_in6 u16 bytes | Sockaddr_other

definition sizeof_sockaddr_in :: nat where
  "sizeof_sockaddr_in = 16"

definition sizeof_sockaddr_in6 :: nat where
  "sizeof_sockaddr_in6 = 28"

text \<open>Byte order on the little-endian hosts the code is built for.\<close>

definition htons :: "u16 \<Rightarrow> u16" where
  "htons w = push_bit 8 w OR drop_bit 8 w"

definition ntohs :: "u16 \<Rightarrow> u16" where
  "ntohs w = push_bit 8 w OR drop_bit 8 w"

text \<open>\<^verbatim>\<open>sys.net.Address\<close>.\<close>

record dyn_address =
  host :: int
  port :: int
  ipv6 :: "bytes option"

definition crossbyte_address_to_array :: "sockaddr option \<Rightarrow> nat \<Rightarrow> int list option" where
  "crossbyte_address_to_array address len =
     (case address of
        None \<Rightarrow> None
      | Some (Sockaddr_in h p) \<Rightarrow>
          if len \<ge> sizeof_sockaddr_in then Some [sint h, uint (ntohs p)] else None
      | Some (Sockaddr_in6 p bs) \<Rightarrow>
          if len \<ge> sizeof_sockaddr_in6 then Some (0 # uint (ntohs p) # map uint (take 16 bs)) else None
      | Some Sockaddr_other \<Rightarrow> None)"

definition crossbyte_sockaddr_to_dynamic ::
  "sockaddr option \<Rightarrow> nat \<Rightarrow> dyn_address option \<Rightarrow> dyn_address option" where
  "crossbyte_sockaddr_to_dynamic address len outAddress =
     (case (address, outAddress) of
        (Some (Sockaddr_in h p), Some a) \<Rightarrow>
          if len \<ge> sizeof_sockaddr_in
          then Some (a\<lparr>host := sint h, port := uint (ntohs p), ipv6 := None\<rparr>) else outAddress
      | (Some (Sockaddr_in6 p bs), Some a) \<Rightarrow>
          if len \<ge> sizeof_sockaddr_in6
          then Some (a\<lparr>host := 0, port := uint (ntohs p), ipv6 := Some (take 16 bs)\<rparr>) else outAddress
      | _ \<Rightarrow> outAddress)"

definition crossbyte_dynamic_to_sockaddr :: "dyn_address \<Rightarrow> (sockaddr \<times> nat) hx" where
  "crossbyte_dynamic_to_sockaddr inAddress =
     (case ipv6 inAddress of
        Some v6 \<Rightarrow>
          if length v6 < 16 then Inl ''Invalid IPv6 address''
          else Inr (Sockaddr_in6 (htons (of_int (port inAddress))) (take 16 v6), sizeof_sockaddr_in6)
      | None \<Rightarrow> Inr (Sockaddr_in (of_int (host inAddress)) (htons (of_int (port inAddress))), sizeof_sockaddr_in))"

section \<open>The socket calls\<close>

record 'w sock_api =
  accept_call :: "int \<Rightarrow> 'w \<Rightarrow> int sysret \<times> 'w"
  no_inherit :: "int \<Rightarrow> 'w \<Rightarrow> 'w"
  getname :: "bool \<Rightarrow> int \<Rightarrow> 'w \<Rightarrow> (sockaddr \<times> nat) option \<times> 'w"
  sendto :: "int \<Rightarrow> bytes \<Rightarrow> sockaddr \<times> nat \<Rightarrow> 'w \<Rightarrow> nat sysret \<times> 'w"
  send :: "int \<Rightarrow> bytes \<Rightarrow> 'w \<Rightarrow> nat sysret \<times> 'w"
  recvfrom :: "int \<Rightarrow> nat \<Rightarrow> 'w \<Rightarrow> (bytes \<times> sockaddr \<times> nat) sysret \<times> 'w"
  recv :: "int \<Rightarrow> nat \<Rightarrow> 'w \<Rightarrow> bytes sysret \<times> 'w"
  leave_zone :: "errno \<Rightarrow> errno"
  so_error_of :: "int \<Rightarrow> 'w \<Rightarrow> int option \<times> 'w"
  strerror :: "int \<Rightarrow> string"
  format_message :: "int \<Rightarrow> string"
  ignore_reports :: "int \<Rightarrow> 'w \<Rightarrow> 'w"

text \<open>
  \<open>leave_zone\<close> is what hxcpp's \<^verbatim>\<open>ExitGCFreeZone\<close> makes of the thread's error code. On Windows a call is
  made once, elsewhere again for as long as a signal interrupts it.
\<close>

definition attempt :: "os \<Rightarrow> ('w \<Rightarrow> 'r sysret \<times> 'w) \<Rightarrow> 'w \<Rightarrow> ('r sysret \<times> 'w) option" where
  "attempt os f w = (case os of Windows \<Rightarrow> Some (f w) | Posix \<Rightarrow> retry f interrupted w)"

definition blocked_code :: "os \<Rightarrow> errno \<Rightarrow> bool" where
  "blocked_code os e =
     (case os of
        Windows \<Rightarrow> e = EWOULDBLOCK \<or> e = EALREADY
      | Posix \<Rightarrow> e = EAGAIN \<or> e = EWOULDBLOCK \<or> e = EINPROGRESS \<or> e = EALREADY)"

text \<open>Windows reads the error before leaving the zone, POSIX after.\<close>

definition crossbyte_block_error :: "os \<Rightarrow> 'w sock_api \<Rightarrow> errno \<Rightarrow> string" where
  "crossbyte_block_error os A e =
     (let error = (case os of Windows \<Rightarrow> e | Posix \<Rightarrow> leave_zone A e)
      in if blocked_code os error then ''Blocking'' else ''Socket operation failed'')"

definition crossbyte_would_block :: "os \<Rightarrow> errno \<Rightarrow> bool" where
  "crossbyte_would_block os e = blocked_code os e"

definition crossbyte_unreachable_report :: "os \<Rightarrow> errno \<Rightarrow> bool" where
  "crossbyte_unreachable_report os e =
     (case os of
        Windows \<Rightarrow> e = ECONNRESET \<or> e = EOther 10052
      | Posix \<Rightarrow> e = ECONNREFUSED \<or> e = EHOSTUNREACH \<or> e = ENETUNREACH)"

definition crossbyte_too_large :: "os \<Rightarrow> errno \<Rightarrow> bool" where
  "crossbyte_too_large os e = (e = EMSGSIZE)"

section \<open>Transfers\<close>

definition accept_again :: "int sysret \<Rightarrow> bool" where
  "accept_again r = (case r of Ret _ \<Rightarrow> False | Err e \<Rightarrow> e = EINTR \<or> e = ECONNABORTED)"

definition crossbyte_socket_accept ::
  "os \<Rightarrow> 'w sock_api \<Rightarrow> sock_value \<Rightarrow> 'w \<Rightarrow> (sock_value hx \<times> 'w) option" where
  "crossbyte_socket_accept os A socket w =
     (case crossbyte_val_sock socket of
        Inl m \<Rightarrow> Some (Inl m, w)
      | Inr s \<Rightarrow>
          (case (case os of Windows \<Rightarrow> Some (accept_call A s w) | Posix \<Rightarrow> retry (accept_call A s) accept_again w) of
             None \<Rightarrow> None
           | Some (Err e, w) \<Rightarrow> Some (Inl (crossbyte_block_error os A e), w)
           | Some (Ret accepted, w) \<Rightarrow> Some (Inr (SWrapper accepted), no_inherit A accepted w)))"

definition crossbyte_socket_name_info ::
  "'w sock_api \<Rightarrow> sock_value \<Rightarrow> bool \<Rightarrow> 'w \<Rightarrow> int list option hx \<times> 'w" where
  "crossbyte_socket_name_info A socket peer w =
     (case crossbyte_val_sock socket of
        Inl m \<Rightarrow> (Inl m, w)
      | Inr s \<Rightarrow>
          (case getname A peer s w of
             (None, w) \<Rightarrow> (Inr None, w)
           | (Some (address, len), w) \<Rightarrow> (Inr (crossbyte_address_to_array (Some address) len), w)))"

definition crossbyte_socket_host_info where
  "crossbyte_socket_host_info A socket = crossbyte_socket_name_info A socket False"

definition crossbyte_socket_peer_info where
  "crossbyte_socket_peer_info A socket = crossbyte_socket_name_info A socket True"

text \<open>A connected datagram socket of macOS and the BSDs refuses an address: it goes again without.\<close>

definition sendto_or_send :: "os \<Rightarrow> 'w sock_api \<Rightarrow> int \<Rightarrow> bytes \<Rightarrow> sockaddr \<times> nat \<Rightarrow> 'w \<Rightarrow> nat sysret \<times> 'w" where
  "sendto_or_send os A s data address w =
     (case sendto A s data address w of (r, w) \<Rightarrow>
        if os = Posix \<and> r = Err EISCONN then send A s data w else (r, w))"

definition crossbyte_socket_send_to ::
  "os \<Rightarrow> 'w sock_api \<Rightarrow> sock_value \<Rightarrow> bytes \<Rightarrow> int \<Rightarrow> int \<Rightarrow> dyn_address \<Rightarrow> 'w \<Rightarrow> (int hx \<times> 'w) option" where
  "crossbyte_socket_send_to os A socket buffer position len address w =
     (case crossbyte_val_sock socket of
        Inl m \<Rightarrow> Some (Inl m, w)
      | Inr s \<Rightarrow>
          if bad_span position len (int (length buffer)) then Some (Inl ''Invalid data position'', w)
          else (case crossbyte_dynamic_to_sockaddr address of
                  Inl m \<Rightarrow> Some (Inl m, w)
                | Inr name \<Rightarrow>
                    (case attempt os (sendto_or_send os A s (slice (nat position) (nat len) buffer) name) w of
                       None \<Rightarrow> None
                     | Some (Err e, w) \<Rightarrow> Some (Inl (crossbyte_block_error os A e), w)
                     | Some (Ret sent, w) \<Rightarrow> Some (Inr (int sent), w))))"

definition crossbyte_socket_recv_from ::
  "os \<Rightarrow> 'w sock_api \<Rightarrow> sock_value \<Rightarrow> bytes \<Rightarrow> int \<Rightarrow> int \<Rightarrow> dyn_address option \<Rightarrow> 'w
    \<Rightarrow> (int hx \<times> bytes \<times> dyn_address option \<times> 'w) option" where
  "crossbyte_socket_recv_from os A socket buffer position len address w =
     (case crossbyte_val_sock socket of
        Inl m \<Rightarrow> Some (Inl m, buffer, address, w)
      | Inr s \<Rightarrow>
          if bad_span position len (int (length buffer))
          then Some (Inl ''Invalid data position'', buffer, address, w)
          else (case attempt os (recvfrom A s (nat len)) w of
                  None \<Rightarrow> None
                | Some (Err e, w) \<Rightarrow> Some (Inl (crossbyte_block_error os A e), buffer, address, w)
                | Some (Ret (data, name, nameLength), w) \<Rightarrow>
                    (case blit buffer (nat position) data of
                       None \<Rightarrow> None
                     | Some buffer \<Rightarrow>
                         Some (Inr (int (length data)), buffer,
                               crossbyte_sockaddr_to_dynamic (Some name) nameLength address, w))))"

definition crossbyte_socket_try_send ::
  "os \<Rightarrow> 'w sock_api \<Rightarrow> sock_value \<Rightarrow> bytes \<Rightarrow> int \<Rightarrow> int \<Rightarrow> 'w \<Rightarrow> (int hx \<times> 'w) option" where
  "crossbyte_socket_try_send os A socket buffer position len w =
     (case crossbyte_val_sock socket of
        Inl m \<Rightarrow> Some (Inl m, w)
      | Inr s \<Rightarrow>
          if bad_span position len (int (length buffer)) then Some (Inr 0, w)
          else (case attempt os (send A s (slice (nat position) (nat len) buffer)) w of
                  None \<Rightarrow> None
                | Some (Err e, w) \<Rightarrow>
                    if crossbyte_would_block os e then Some (Inr (-1), w) else Some (Inl ''EOF'', w)
                | Some (Ret sent, w) \<Rightarrow> Some (Inr (int sent), w)))"

text \<open>
  On Windows a datagram longer than the buffer fails with \<^verbatim>\<open>WSAEMSGSIZE\<close> once it has filled it; what it
  filled it with is \<open>filled\<close>.
\<close>

definition crossbyte_socket_try_recv ::
  "os \<Rightarrow> 'w sock_api \<Rightarrow> (int \<Rightarrow> nat \<Rightarrow> 'w \<Rightarrow> bytes) \<Rightarrow> sock_value \<Rightarrow> bytes \<Rightarrow> int \<Rightarrow> int \<Rightarrow> 'w
    \<Rightarrow> (int hx \<times> bytes \<times> 'w) option" where
  "crossbyte_socket_try_recv os A filled socket buffer position len w =
     (case crossbyte_val_sock socket of
        Inl m \<Rightarrow> Some (Inl m, buffer, w)
      | Inr s \<Rightarrow>
          if bad_span position len (int (length buffer)) then Some (Inr 0, buffer, w)
          else (case attempt os (recv A s (nat len)) w of
                  None \<Rightarrow> None
                | Some (Err e, w) \<Rightarrow>
                    if os = Windows \<and> e = EMSGSIZE
                    then (case blit buffer (nat position) (filled s (nat len) w) of
                            None \<Rightarrow> None
                          | Some buffer \<Rightarrow> Some (Inr len, buffer, w))
                    else if crossbyte_would_block os e then Some (Inr (-1), buffer, w)
                    else Some (Inl ''EOF'', buffer, w)
                | Some (Ret data, w) \<Rightarrow>
                    (case blit buffer (nat position) data of
                       None \<Rightarrow> None
                     | Some buffer \<Rightarrow> Some (Inr (int (length data)), buffer, w))))"

definition crossbyte_socket_try_send_to ::
  "os \<Rightarrow> 'w sock_api \<Rightarrow> sock_value \<Rightarrow> bytes \<Rightarrow> int \<Rightarrow> int \<Rightarrow> dyn_address \<Rightarrow> 'w \<Rightarrow> (int hx \<times> 'w) option" where
  "crossbyte_socket_try_send_to os A socket buffer position len address w =
     (case crossbyte_val_sock socket of
        Inl m \<Rightarrow> Some (Inl m, w)
      | Inr s \<Rightarrow>
          if bad_span position len (int (length buffer)) then Some (Inl ''Invalid data position'', w)
          else (case crossbyte_dynamic_to_sockaddr address of
                  Inl m \<Rightarrow> Some (Inl m, w)
                | Inr name \<Rightarrow>
                    (case attempt os (sendto_or_send os A s (slice (nat position) (nat len) buffer) name) w of
                       None \<Rightarrow> None
                     | Some (Err e, w) \<Rightarrow>
                         if crossbyte_would_block os e then Some (Inr (-1), w)
                         else if crossbyte_too_large os e then Some (Inl ''Datagram too large'', w)
                         else Some (Inl ''Socket operation failed'', w)
                     | Some (Ret sent, w) \<Rightarrow> Some (Inr (int sent), w))))"

definition crossbyte_socket_try_recv_from ::
  "os \<Rightarrow> 'w sock_api \<Rightarrow> sock_value \<Rightarrow> bytes \<Rightarrow> int \<Rightarrow> int \<Rightarrow> dyn_address option \<Rightarrow> 'w
    \<Rightarrow> (int hx \<times> bytes \<times> dyn_address option \<times> 'w) option" where
  "crossbyte_socket_try_recv_from os A socket buffer position len address w =
     (case crossbyte_val_sock socket of
        Inl m \<Rightarrow> Some (Inl m, buffer, address, w)
      | Inr s \<Rightarrow>
          if bad_span position len (int (length buffer))
          then Some (Inl ''Invalid data position'', buffer, address, w)
          else (case attempt os (recvfrom A s (nat len)) w of
                  None \<Rightarrow> None
                | Some (Err e, w) \<Rightarrow>
                    if crossbyte_would_block os e then Some (Inr (-1), buffer, address, w)
                    else if crossbyte_unreachable_report os e then Some (Inr (-3), buffer, address, w)
                    else Some (Inl ''Socket operation failed'', buffer, address, w)
                | Some (Ret (data, name, nameLength), w) \<Rightarrow>
                    (case blit buffer (nat position) data of
                       None \<Rightarrow> None
                     | Some buffer \<Rightarrow>
                         Some (Inr (int (length data)), buffer,
                               crossbyte_sockaddr_to_dynamic (Some name) nameLength address, w))))"

definition crossbyte_udp_ignore_unreachable ::
  "os \<Rightarrow> 'w sock_api \<Rightarrow> sock_value \<Rightarrow> 'w \<Rightarrow> unit hx \<times> 'w" where
  "crossbyte_udp_ignore_unreachable os A socket w =
     (case os of
        Posix \<Rightarrow> (Inr (), w)
      | Windows \<Rightarrow>
          (case crossbyte_val_sock socket of
             Inl m \<Rightarrow> (Inl m, w)
           | Inr s \<Rightarrow> (Inr (), ignore_reports A s w)))"

fun trim_message :: "string \<Rightarrow> string" where
  "trim_message text =
     (if text \<noteq> [] \<and> (last text = CHR 0x0D \<or> last text = CHR 0x0A \<or> last text = CHR ''.'')
      then trim_message (butlast text) else text)"

declare trim_message.simps [simp del]

definition crossbyte_socket_connect_error ::
  "os \<Rightarrow> 'w sock_api \<Rightarrow> sock_value \<Rightarrow> 'w \<Rightarrow> string option hx \<times> 'w" where
  "crossbyte_socket_connect_error os A socket w =
     (case crossbyte_val_sock socket of
        Inl m \<Rightarrow> (Inl m, w)
      | Inr s \<Rightarrow>
          (case so_error_of A s w of
             (None, w) \<Rightarrow> (Inr (Some ''the socket could not say whether it connected''), w)
           | (Some error, w) \<Rightarrow>
               if error = 0 then (Inr None, w)
               else (case os of
                       Windows \<Rightarrow>
                         let text = trim_message (format_message A error)
                         in (Inr (Some (if text \<noteq> [] then text else ''connect failed'')), w)
                     | Posix \<Rightarrow> (Inr (Some (strerror A error)), w))))"

section \<open>Addresses survive the way there and back\<close>

lemma ntohs_htons [simp]: "ntohs (htons w) = w"
  by (rule bit_eqI) (auto simp: ntohs_def htons_def bit_simps)

lemma htons_ntohs [simp]: "htons (ntohs w) = w"
  by (rule bit_eqI) (auto simp: ntohs_def htons_def bit_simps)

text \<open>An address as the Haxe side keeps one: no host beside an IPv6 one, and nothing out of range.\<close>

definition proper_address :: "dyn_address \<Rightarrow> bool" where
  "proper_address a \<longleftrightarrow>
     0 \<le> port a \<and> port a \<le> 65535 \<and>
     (case ipv6 a of
        None \<Rightarrow> - 2147483648 \<le> host a \<and> host a \<le> INT_MAX
      | Some v6 \<Rightarrow> host a = 0 \<and> length v6 = 16)"

lemma sint_of_int_id: "- 2147483648 \<le> h \<Longrightarrow> h \<le> INT_MAX \<Longrightarrow> sint (of_int h :: u32) = h"
  by (simp add: signed_of_int signed_take_bit_int_eq_self)

lemma uint_port: "0 \<le> p \<Longrightarrow> p \<le> 65535 \<Longrightarrow> uint (of_int p :: u16) = p"
  by (simp add: unsigned_of_int take_bit_int_eq_self)



section \<open>Receives stay in bounds\<close>

text \<open>What a receive of at most \<open>n\<close> bytes promises: no more than that.\<close>

definition receives_fit :: "'w sock_api \<Rightarrow> bool" where
  "receives_fit A \<longleftrightarrow>
     (\<forall>s n w. case fst (recvfrom A s n w) of Ret (data, _) \<Rightarrow> length data \<le> n | Err _ \<Rightarrow> True) \<and>
     (\<forall>s n w. case fst (recv A s n w) of Ret data \<Rightarrow> length data \<le> n | Err _ \<Rightarrow> True)"

lemma attempt_answer:
  assumes "attempt os f w = Some (r, w')"
  shows "\<exists>v. f v = (r, w')" "os = Posix \<Longrightarrow> r \<noteq> Err EINTR"
proof -
  show "\<exists>v. f v = (r, w')"
    using assms retry_invariant [of f interrupted w "(r, w')" "\<lambda>_. True"]
    by (auto simp: attempt_def split: os.splits)
  show "r \<noteq> Err EINTR" if "os = Posix"
    using assms that retry_result_final [of f interrupted w "(r, w')"] by (auto simp: attempt_def)
qed

lemma attempt_receives:
  assumes "receives_fit A"
  shows "attempt os (recvfrom A s n) w = Some (Ret (data, name), w') \<Longrightarrow> length data \<le> n"
    and "attempt os (recv A s n) w = Some (Ret data', w') \<Longrightarrow> length data' \<le> n"
proof -
  show "length data \<le> n" if a: "attempt os (recvfrom A s n) w = Some (Ret (data, name), w')"
  proof -
    obtain v where "recvfrom A s n v = (Ret (data, name), w')" using attempt_answer(1) [OF a] by blast
    moreover have "case fst (recvfrom A s n v) of Ret (data, _) \<Rightarrow> length data \<le> n | Err _ \<Rightarrow> True"
      using assms by (simp add: receives_fit_def)
    ultimately show ?thesis by simp
  qed
  show "length data' \<le> n" if a: "attempt os (recv A s n) w = Some (Ret data', w')"
  proof -
    obtain v where "recv A s n v = (Ret data', w')" using attempt_answer(1) [OF a] by blast
    moreover have "case fst (recv A s n v) of Ret data \<Rightarrow> length data \<le> n | Err _ \<Rightarrow> True"
      using assms by (simp add: receives_fit_def)
    ultimately show ?thesis by simp
  qed
qed

text \<open>
  What a receive of at most \<open>len\<close> bytes at \<open>position\<close> may do to a buffer: nothing, or put the bytes it
  answered there.
\<close>

definition received_at :: "bytes \<Rightarrow> int \<Rightarrow> int \<Rightarrow> int hx \<Rightarrow> bytes \<Rightarrow> bool" where
  "received_at buffer position len res buffer' \<longleftrightarrow>
     length buffer' = length buffer \<and>
     (case res of
        Inl _ \<Rightarrow> buffer' = buffer
      | Inr n \<Rightarrow>
          if n < 0 then buffer' = buffer
          else n \<le> max 0 len \<and>
               (\<forall>i < length buffer. int i < position \<or> position + n \<le> int i \<longrightarrow> buffer' ! i = buffer ! i))"

lemma received_at_blit:
  assumes "blit buffer (nat position) data = Some buffer'" "0 \<le> position" "int (length data) \<le> len"
  shows "received_at buffer position len (Inr (int (length data))) buffer'"
  using assms(2,3) blit_length [OF assms(1)]
  by (auto simp: received_at_def intro!: blit_outside [OF assms(1)])

lemma received_at_same [simp]:
  "received_at buffer position len (Inl m) buffer" "received_at buffer position len (Inr 0) buffer"
  "received_at buffer position len (Inr (-1)) buffer" "received_at buffer position len (Inr (-3)) buffer"
  by (simp_all add: received_at_def)

lemma blit_received:
  assumes "\<not> bad_span position len (int (length buffer))" "length data \<le> nat len"
  shows "\<exists>buffer'. blit buffer (nat position) data = Some buffer' \<and>
    received_at buffer position len (Inr (int (length data))) buffer'"
proof -
  have p: "0 \<le> position" "0 \<le> len" "nat position + nat len \<le> length buffer"
    using assms(1) by (simp_all add: not_bad_span)
  then obtain buffer' where b: "blit buffer (nat position) data = Some buffer'"
    using blit_Some_iff [of buffer "nat position" data] assms(2) by auto
  then show ?thesis using received_at_blit [OF b p(1), of len] p(2) assms(2) by auto
qed

definition in_bounds4 ::
  "bytes \<Rightarrow> int \<Rightarrow> int \<Rightarrow> (int hx \<times> bytes \<times> dyn_address option \<times> 'w) option \<Rightarrow> bool" where
  "in_bounds4 buffer position len r \<longleftrightarrow>
     (case r of None \<Rightarrow> False | Some (res, buffer', _) \<Rightarrow> received_at buffer position len res buffer')"

definition in_bounds3 :: "bytes \<Rightarrow> int \<Rightarrow> int \<Rightarrow> (int hx \<times> bytes \<times> 'w) option \<Rightarrow> bool" where
  "in_bounds3 buffer position len r \<longleftrightarrow>
     (case r of None \<Rightarrow> False | Some (res, buffer', _) \<Rightarrow> received_at buffer position len res buffer')"

lemma recv_from_bounds:
  assumes fit: "receives_fit A" and ends: "\<And>s n w. attempt os (recvfrom A s n) w \<noteq> None"
  shows "in_bounds4 buffer position len (crossbyte_socket_recv_from os A socket buffer position len address w) \<and>
         in_bounds4 buffer position len (crossbyte_socket_try_recv_from os A socket buffer position len address w)"
proof (cases "crossbyte_val_sock socket")
  case (Inl m)
  then show ?thesis
    by (simp add: in_bounds4_def crossbyte_socket_recv_from_def crossbyte_socket_try_recv_from_def)
next
  case (Inr s)
  note defs = Inr in_bounds4_def crossbyte_socket_recv_from_def crossbyte_socket_try_recv_from_def
  obtain r w' where a: "attempt os (recvfrom A s (nat len)) w = Some (r, w')"
    using ends [of s "nat len" w] by auto
  show ?thesis
  proof (cases "bad_span position len (int (length buffer))")
    case False
    show ?thesis
    proof (cases r)
      case (Ret x)
      obtain data name n where x: "x = (data, name, n)" by (cases x)
      then obtain buffer' where "blit buffer (nat position) data = Some buffer'"
        "received_at buffer position len (Inr (int (length data))) buffer'"
        using blit_received [OF False, of data] attempt_receives(1) [OF fit, of os s "nat len" w data "(name, n)" w'] a Ret
        by auto
      then show ?thesis using a Ret x False by (simp add: defs)
    next
      case (Err e)
      then show ?thesis using a False by (simp add: defs)
    qed
  qed (simp add: defs)
qed

lemma try_recv_bounds:
  assumes fit: "receives_fit A" and ends: "\<And>s n w. attempt os (recv A s n) w \<noteq> None"
    and "\<And>s n w. length (filled s n w) = n"
  shows "in_bounds3 buffer position len (crossbyte_socket_try_recv os A filled socket buffer position len w)"
proof (cases "crossbyte_val_sock socket")
  case (Inl m)
  then show ?thesis by (simp add: in_bounds3_def crossbyte_socket_try_recv_def)
next
  case (Inr s)
  note defs = Inr in_bounds3_def crossbyte_socket_try_recv_def
  obtain r w' where a: "attempt os (recv A s (nat len)) w = Some (r, w')"
    using ends [of s "nat len" w] by auto
  show ?thesis
  proof (cases "bad_span position len (int (length buffer))")
    case False
    show ?thesis
    proof (cases r)
      case (Ret data)
      then obtain buffer' where "blit buffer (nat position) data = Some buffer'"
        "received_at buffer position len (Inr (int (length data))) buffer'"
        using blit_received [OF False, of data] attempt_receives(2) [OF fit, of os s "nat len" w data w'] a
        by auto
      then show ?thesis using a Ret False by (simp add: defs)
    next
      case (Err e)
      have "0 \<le> len" using False by (simp add: not_bad_span)
      then obtain buffer' where "blit buffer (nat position) (filled s (nat len) w') = Some buffer'"
        "received_at buffer position len (Inr len) buffer'"
        using blit_received [OF False, of "filled s (nat len) w'"] assms(3) by auto
      then show ?thesis using a Err False by (simp add: defs)
    qed
  qed (simp add: defs)
qed

text \<open>
  Receives stay in bounds and answer the truth. For any socket, buffer, position and length, on
  POSIX and Windows, and as long as the system hands over no more bytes than it was asked for: a
  receive never writes outside the part of the buffer it was given; bytes outside what it answers
  are as they were; and a receive that throws, or answers that nothing came, wrote nothing.
\<close>

theorem receives_in_bounds:
  assumes "receives_fit A" and "\<And>s n w. length (filled s n w) = n"
    and "\<And>s n w. attempt os (recvfrom A s n) w \<noteq> None" and "\<And>s n w. attempt os (recv A s n) w \<noteq> None"
  shows "in_bounds4 buffer position len (crossbyte_socket_recv_from os A socket buffer position len address w) \<and>
         in_bounds4 buffer position len (crossbyte_socket_try_recv_from os A socket buffer position len address w) \<and>
         in_bounds3 buffer position len (crossbyte_socket_try_recv os A filled socket buffer position len w)"
  using recv_from_bounds [OF assms(1,3)] try_recv_bounds [where filled = filled, OF assms(1,4,2)] by blast

text \<open>A system whose world is the datagram waiting; every send is taken whole.\<close>

definition sample_api :: "bytes sock_api" where
  "sample_api =
     \<lparr>accept_call = \<lambda>s w. (Ret 9, w), no_inherit = \<lambda>s w. w, getname = \<lambda>b s w. (None, w),
      sendto = \<lambda>s d a w. (Ret (length d), d), send = \<lambda>s d w. (Ret (length d), d),
      recvfrom = \<lambda>s n w. (if w = [] then Err EAGAIN else Ret (take n w, Sockaddr_in 16777343 20480, 16), []),
      recv = \<lambda>s n w. (if w = [] then Err EAGAIN else Ret (take n w), []),
      leave_zone = \<lambda>e. e, so_error_of = \<lambda>s w. (Some 0, w), strerror = \<lambda>e. [], format_message = \<lambda>e. [],
      ignore_reports = \<lambda>s w. w\<rparr>"

theorem receives_in_bounds_witness:
  "in_bounds4 [0, 0, 0, 0] 1 2 (crossbyte_socket_recv_from Posix sample_api (SWrapper 5) [0, 0, 0, 0] 1 2 None [7, 8, 9]) \<and>
   crossbyte_socket_recv_from Posix sample_api (SWrapper 5) [0, 0, 0, 0] 1 2 None [7, 8, 9] =
     Some (Inr 2, [0, 7, 8, 0], None, [])"
proof -
  have fit: "receives_fit sample_api" by (simp add: receives_fit_def sample_api_def)
  have rf: "attempt Posix (recvfrom sample_api s n) w = Some (recvfrom sample_api s n w)" for s n w
    by (simp add: attempt_def sample_api_def retry_done)
  have r: "attempt Posix (recv sample_api s n) w = Some (recv sample_api s n w)" for s n w
    by (simp add: attempt_def sample_api_def retry_done)
  have len: "length ((\<lambda>s n w. replicate n (0 :: byte)) s n w) = n" for s n and w :: bytes by simp
  have "in_bounds4 [0, 0, 0, 0] 1 2 (crossbyte_socket_recv_from Posix sample_api (SWrapper 5) [0, 0, 0, 0] 1 2 None [7, 8, 9])"
    using receives_in_bounds [where filled = "\<lambda>s n w. replicate n 0", OF fit len, of Posix] by (simp add: rf r)
  moreover have "crossbyte_socket_recv_from Posix sample_api (SWrapper 5) [0, 0, 0, 0] 1 2 None [7, 8, 9] =
     Some (Inr 2, [0, 7, 8, 0], None, [])"
    unfolding crossbyte_socket_recv_from_def rf
    by (simp add: crossbyte_val_sock_def bad_span_def blit_def sample_api_def crossbyte_sockaddr_to_dynamic_def)
  ultimately show ?thesis ..
qed

section \<open>The forms that do not throw for a socket that would block\<close>

text \<open>What a form that throws answers, and what its counterpart makes of it.\<close>

definition same_send :: "(int hx \<times> 'w) option \<Rightarrow> (int hx \<times> 'w) option \<Rightarrow> bool" where
  "same_send throwing trying \<longleftrightarrow>
     (case throwing of
        None \<Rightarrow> trying = None
      | Some (Inr n, w) \<Rightarrow> trying = Some (Inr n, w)
      | Some (Inl m, w) \<Rightarrow>
          if m = ''Blocking'' then trying = Some (Inr (-1), w)
          else trying = Some (Inl m, w) \<or> trying = Some (Inl ''Datagram too large'', w))"

definition same_recv ::
  "(int hx \<times> bytes \<times> dyn_address option \<times> 'w) option \<Rightarrow> (int hx \<times> bytes \<times> dyn_address option \<times> 'w) option \<Rightarrow> bool" where
  "same_recv throwing trying \<longleftrightarrow>
     (case throwing of
        None \<Rightarrow> trying = None
      | Some (Inr n, s) \<Rightarrow> trying = Some (Inr n, s)
      | Some (Inl m, s) \<Rightarrow>
          if m = ''Blocking'' then trying = Some (Inr (-1), s)
          else trying = Some (Inl m, s) \<or> m = ''Socket operation failed'' \<and> trying = Some (Inr (-3), s))"



text \<open>
  Without that, they part: on POSIX \<open>crossbyte_block_error\<close> reads the error code only after the zone is
  left, so where leaving it clears the code, a receive with nothing waiting throws a failure.
\<close>

lemma block_error_after_zone:
  "crossbyte_block_error Posix (sample_api\<lparr>leave_zone := \<lambda>_. EOther 0\<rparr>) EAGAIN = ''Socket operation failed''"
  by (simp add: crossbyte_block_error_def blocked_code_def Let_def)

end
