(* ===== verification/Send_Batch.thy ===== *)
theory Send_Batch
  imports Socket_Transfer
begin

text \<open>
  \<^verbatim>\<open>crossbyte_socket_send_batch\<close> of \<^verbatim>\<open>_internal/net/NativeSocketAddress.cpp\<close>: many datagrams in few
  calls. A batch is \<open>chunks\<close> (the byte arrays, null as \<open>None\<close>), \<open>spans\<close> (three integers a datagram: chunk,
  position, length) and \<open>targets\<close>, references to address objects that \<open>heap\<close> resolves; the code compares
  targets by reference.
\<close>

section \<open>A batch\<close>

definition batch_chunk :: "bytes option list \<Rightarrow> int list \<Rightarrow> nat \<Rightarrow> bytes" where
  "batch_chunk chunks spans k = (case chunks ! nat (spans ! (3 * k)) of None \<Rightarrow> [] | Some bs \<Rightarrow> bs)"

text \<open>\<open>len\<close> bytes from where datagram \<open>k\<close> starts.\<close>

definition crossbyte_batch_data :: "bytes option list \<Rightarrow> int list \<Rightarrow> nat \<Rightarrow> int \<Rightarrow> bytes" where
  "crossbyte_batch_data chunks spans k len =
     slice (nat (spans ! (3 * k + 1))) (nat len) (batch_chunk chunks spans k)"

text \<open>What is wrong with a datagram's place, checked in order before anything is sent.\<close>

fun check_spans :: "bytes option list \<Rightarrow> int list \<Rightarrow> nat list \<Rightarrow> string option" where
  "check_spans chunks spans [] = None"
| "check_spans chunks spans (i # is) =
     (let index = spans ! (3 * i); position = spans ! (3 * i + 1); len = spans ! (3 * i + 2)
      in if index < 0 \<or> index \<ge> int (length chunks) then Some ''Invalid data position''
         else let chunkLength = int (length (batch_chunk chunks spans i))
              in if chunkLength \<le> 0 \<or> bad_span position len chunkLength then Some ''Invalid data position''
                 else check_spans chunks spans is)"

section \<open>Runs the kernel cuts up\<close>

function gso_run_loop ::
  "int list \<Rightarrow> nat list \<Rightarrow> nat \<Rightarrow> nat \<Rightarrow> int \<Rightarrow> nat \<Rightarrow> int \<Rightarrow> nat \<times> int" where
  "gso_run_loop spans targets first count segment run tot =
     (if first + run < count \<and> run < 64
      then let k = first + run; len = spans ! (3 * k + 2)
           in if targets ! k \<noteq> targets ! first \<or> spans ! (3 * k) \<noteq> spans ! (3 * first)
                 \<or> spans ! (3 * k + 1) \<noteq> spans ! (3 * first + 1) + tot
                 \<or> len \<le> 0 \<or> len > segment \<or> tot + len > 65000
              then (run, tot)
              else if len < segment then (run + 1, tot + len)
              else gso_run_loop spans targets first count segment (run + 1) (tot + len)
      else (run, tot))"
  by pat_completeness auto
termination
  by (relation "measure (\<lambda>(spans, targets, first, count, segment, run, tot). 64 - run)") auto

declare gso_run_loop.simps [simp del]

definition crossbyte_gso_run :: "int list \<Rightarrow> nat list \<Rightarrow> nat \<Rightarrow> nat \<Rightarrow> nat \<times> int" where
  "crossbyte_gso_run spans targets first count =
     (let segment = spans ! (3 * first + 2)
      in if segment \<le> 0 then (1, segment)
         else gso_run_loop spans targets first count segment 1 segment)"

definition crossbyte_gso_refused :: "errno \<Rightarrow> bool" where
  "crossbyte_gso_refused e = (e = EINVAL \<or> e = EIO \<or> e = EOPNOTSUPP \<or> e = ENOPROTOOPT)"

section \<open>Sending on Linux\<close>

type_synonym datagram = "bytes \<times> sockaddr \<times> nat"

text \<open>\<open>sendmsg_cut\<close> is \<^verbatim>\<open>sendmsg\<close> with a \<^verbatim>\<open>UDP_SEGMENT\<close> control message.\<close>

record 'w batch_api =
  sendmsg_cut :: "int \<Rightarrow> bytes \<Rightarrow> sockaddr \<times> nat \<Rightarrow> u16 \<Rightarrow> 'w \<Rightarrow> nat sysret \<times> 'w"
  sendmmsg :: "int \<Rightarrow> datagram list \<Rightarrow> 'w \<Rightarrow> nat sysret \<times> 'w"

datatype cut_outcome = CutThrew string | CutSent | CutFailed | CutRefused

definition send_cut ::
  "'w batch_api \<Rightarrow> int \<Rightarrow> bytes option list \<Rightarrow> int list \<Rightarrow> nat list \<Rightarrow> (nat \<Rightarrow> dyn_address) \<Rightarrow> nat \<Rightarrow> int \<Rightarrow> 'w
    \<Rightarrow> (cut_outcome \<times> 'w) option" where
  "send_cut A s chunks spans targets heap i tot w =
     (case crossbyte_dynamic_to_sockaddr (heap (targets ! i)) of
        Inl m \<Rightarrow> Some (CutThrew m, w)
      | Inr name \<Rightarrow>
          (case retry (sendmsg_cut A s (crossbyte_batch_data chunks spans i tot) name
                        (of_int (spans ! (3 * i + 2)))) interrupted w of
             None \<Rightarrow> None
           | Some (Ret _, w) \<Rightarrow> Some (CutSent, w)
           | Some (Err e, w) \<Rightarrow> Some (if crossbyte_gso_refused e then CutRefused else CutFailed, w)))"

text \<open>Up to 64 messages from datagram \<open>i + n\<close> on, stopping short of the next run worth cutting.\<close>

function batch_fill ::
  "bytes option list \<Rightarrow> int list \<Rightarrow> nat list \<Rightarrow> (nat \<Rightarrow> dyn_address) \<Rightarrow> nat \<Rightarrow> bool \<Rightarrow> nat \<Rightarrow> nat \<Rightarrow> datagram list hx" where
  "batch_fill chunks spans targets heap count gso i n =
     (if i + n < count \<and> n < 64 \<and> \<not> (n > 0 \<and> gso \<and> fst (crossbyte_gso_run spans targets (i + n) count) \<ge> 2)
      then (case crossbyte_dynamic_to_sockaddr (heap (targets ! (i + n))) of
              Inl m \<Rightarrow> Inl m
            | Inr name \<Rightarrow>
                (case batch_fill chunks spans targets heap count gso i (n + 1) of
                   Inl m \<Rightarrow> Inl m
                 | Inr ms \<Rightarrow> Inr ((crossbyte_batch_data chunks spans (i + n) (spans ! (3 * (i + n) + 2)), name) # ms)))
      else Inr [])"
  by pat_completeness auto
termination
  by (relation "measure (\<lambda>(chunks, spans, targets, heap, count, gso, i, n). 64 - n)") auto

declare batch_fill.simps [simp del]

text \<open>How many of how many messages one \<^verbatim>\<open>sendmmsg\<close> took; a failure took none.\<close>

definition send_filled ::
  "'w batch_api \<Rightarrow> int \<Rightarrow> datagram list hx \<Rightarrow> 'w \<Rightarrow> ((nat \<times> nat) hx \<times> 'w) option" where
  "send_filled A s filled w =
     (case filled of
        Inl m \<Rightarrow> Some (Inl m, w)
      | Inr ms \<Rightarrow>
          (case retry (sendmmsg A s ms) interrupted w of
             None \<Rightarrow> None
           | Some (Ret result, w) \<Rightarrow> Some (Inr (result, length ms), w)
           | Some (Err e, w) \<Rightarrow> Some (Inr (0, length ms), w)))"

text \<open>
  One pass of the loop over the batch: it answers, or goes on after as many datagrams. \<open>gso\<close> is the
  process's \<^verbatim>\<open>crossbyte_udp_gso\<close>, which the result carries on.
\<close>

datatype pass = Stop "nat hx" | Go nat

definition linux_fill_pass ::
  "'w batch_api \<Rightarrow> int \<Rightarrow> bytes option list \<Rightarrow> int list \<Rightarrow> nat list \<Rightarrow> (nat \<Rightarrow> dyn_address) \<Rightarrow> nat
    \<Rightarrow> bool \<Rightarrow> nat \<Rightarrow> nat \<Rightarrow> 'w \<Rightarrow> (pass \<times> bool \<times> 'w) option" where
  "linux_fill_pass A s chunks spans targets heap count gso i sent w =
     (case send_filled A s (batch_fill chunks spans targets heap count gso i 0) w of
        None \<Rightarrow> None
      | Some (Inl m, w) \<Rightarrow> Some (Stop (Inl m), gso, w)
      | Some (Inr (result, n), w) \<Rightarrow>
          Some (if result = 0 then Stop (Inr sent)
                else if result < n then Stop (Inr (sent + result)) else Go result, gso, w))"

definition linux_send_pass ::
  "'w batch_api \<Rightarrow> int \<Rightarrow> bytes option list \<Rightarrow> int list \<Rightarrow> nat list \<Rightarrow> (nat \<Rightarrow> dyn_address) \<Rightarrow> nat
    \<Rightarrow> bool \<Rightarrow> nat \<Rightarrow> nat \<Rightarrow> 'w \<Rightarrow> (pass \<times> bool \<times> 'w) option" where
  "linux_send_pass A s chunks spans targets heap count gso i sent w =
     (case crossbyte_gso_run spans targets i count of (run, tot) \<Rightarrow>
        if gso \<and> run \<ge> 2
        then (case send_cut A s chunks spans targets heap i tot w of
                None \<Rightarrow> None
              | Some (CutThrew m, w) \<Rightarrow> Some (Stop (Inl m), gso, w)
              | Some (CutSent, w) \<Rightarrow> Some (Go run, gso, w)
              | Some (CutFailed, w) \<Rightarrow> Some (Stop (Inr sent), gso, w)
              | Some (CutRefused, w) \<Rightarrow> linux_fill_pass A s chunks spans targets heap count False i sent w)
        else linux_fill_pass A s chunks spans targets heap count gso i sent w)"

lemma linux_send_pass_moves:
  "linux_send_pass A s chunks spans targets heap count gso i sent w = Some (Go d, gso', w') \<Longrightarrow> 0 < d"
  by (auto simp: linux_send_pass_def linux_fill_pass_def
      split: prod.splits if_splits option.splits cut_outcome.splits sum.splits)

function linux_send_loop ::
  "'w batch_api \<Rightarrow> int \<Rightarrow> bytes option list \<Rightarrow> int list \<Rightarrow> nat list \<Rightarrow> (nat \<Rightarrow> dyn_address) \<Rightarrow> nat
    \<Rightarrow> bool \<Rightarrow> nat \<Rightarrow> nat \<Rightarrow> 'w \<Rightarrow> (nat hx \<times> bool \<times> 'w) option" where
  "linux_send_loop A s chunks spans targets heap count gso i sent w =
     (if i < count
      then (case linux_send_pass A s chunks spans targets heap count gso i sent w of
              None \<Rightarrow> None
            | Some (Stop r, gso, w) \<Rightarrow> Some (r, gso, w)
            | Some (Go d, gso, w) \<Rightarrow> linux_send_loop A s chunks spans targets heap count gso (i + d) (sent + d) w)
      else Some (Inr sent, gso, w))"
  by pat_completeness auto
termination
  by (relation "measure (\<lambda>(A, s, chunks, spans, targets, heap, count, gso, i, sent, w). count - i)")
    (auto dest: linux_send_pass_moves)

declare linux_send_loop.simps [simp del]

definition batch_invalid :: "int list \<Rightarrow> nat list \<Rightarrow> int \<Rightarrow> int \<Rightarrow> bool" where
  "batch_invalid spans targets first count =
     (first < 0 \<or> count < first \<or> count > int (length targets) \<or> count > int (length spans) div 3)"

definition crossbyte_socket_send_batch_linux ::
  "'w batch_api \<Rightarrow> sock_value \<Rightarrow> bytes option list \<Rightarrow> int list \<Rightarrow> nat list \<Rightarrow> (nat \<Rightarrow> dyn_address) \<Rightarrow> int \<Rightarrow> int
    \<Rightarrow> bool \<Rightarrow> 'w \<Rightarrow> (nat hx \<times> bool \<times> 'w) option" where
  "crossbyte_socket_send_batch_linux A socket chunks spans targets heap first count gso w =
     (case crossbyte_val_sock socket of
        Inl m \<Rightarrow> Some (Inl m, gso, w)
      | Inr s \<Rightarrow>
          if batch_invalid spans targets first count then Some (Inl ''Invalid batch'', gso, w)
          else (case check_spans chunks spans [nat first..<nat count] of
                  Some m \<Rightarrow> Some (Inl m, gso, w)
                | None \<Rightarrow> linux_send_loop A s chunks spans targets heap (nat count) gso (nat first) 0 w))"

section \<open>Sending elsewhere\<close>

function plain_send_loop ::
  "os \<Rightarrow> 'w sock_api \<Rightarrow> int \<Rightarrow> bytes option list \<Rightarrow> int list \<Rightarrow> nat list \<Rightarrow> (nat \<Rightarrow> dyn_address) \<Rightarrow> nat
    \<Rightarrow> nat \<Rightarrow> nat \<Rightarrow> 'w \<Rightarrow> (nat hx \<times> 'w) option" where
  "plain_send_loop os A s chunks spans targets heap count i sent w =
     (if i < count
      then (case crossbyte_dynamic_to_sockaddr (heap (targets ! i)) of
              Inl m \<Rightarrow> Some (Inl m, w)
            | Inr name \<Rightarrow>
                (case attempt os (sendto_or_send os A s (crossbyte_batch_data chunks spans i (spans ! (3 * i + 2))) name) w of
                   None \<Rightarrow> None
                 | Some (Err e, w) \<Rightarrow> Some (Inr sent, w)
                 | Some (Ret _, w) \<Rightarrow> plain_send_loop os A s chunks spans targets heap count (i + 1) (sent + 1) w))
      else Some (Inr sent, w))"
  by pat_completeness auto
termination
  by (relation "measure (\<lambda>(os, A, s, chunks, spans, targets, heap, count, i, sent, w). count - i)") auto

declare plain_send_loop.simps [simp del]

definition crossbyte_socket_send_batch ::
  "os \<Rightarrow> 'w sock_api \<Rightarrow> sock_value \<Rightarrow> bytes option list \<Rightarrow> int list \<Rightarrow> nat list \<Rightarrow> (nat \<Rightarrow> dyn_address) \<Rightarrow> int \<Rightarrow> int
    \<Rightarrow> 'w \<Rightarrow> (nat hx \<times> 'w) option" where
  "crossbyte_socket_send_batch os A socket chunks spans targets heap first count w =
     (case crossbyte_val_sock socket of
        Inl m \<Rightarrow> Some (Inl m, w)
      | Inr s \<Rightarrow>
          if batch_invalid spans targets first count then Some (Inl ''Invalid batch'', w)
          else (case check_spans chunks spans [nat first..<nat count] of
                  Some m \<Rightarrow> Some (Inl m, w)
                | None \<Rightarrow> plain_send_loop os A s chunks spans targets heap (nat count) (nat first) 0 w))"

section \<open>What a batch means\<close>

text \<open>The datagram the caller asked for at place \<open>k\<close>: its bytes and where they go.\<close>

definition dgram :: "bytes option list \<Rightarrow> int list \<Rightarrow> nat list \<Rightarrow> (nat \<Rightarrow> dyn_address) \<Rightarrow> nat \<Rightarrow> datagram" where
  "dgram chunks spans targets heap k =
     (crossbyte_batch_data chunks spans k (spans ! (3 * k + 2)),
      (case crossbyte_dynamic_to_sockaddr (heap (targets ! k)) of Inr name \<Rightarrow> name | Inl _ \<Rightarrow> (Sockaddr_other, 0)))"

definition span_ok :: "bytes option list \<Rightarrow> int list \<Rightarrow> nat \<Rightarrow> bool" where
  "span_ok chunks spans k \<longleftrightarrow>
     0 \<le> spans ! (3 * k + 1) \<and> 0 \<le> spans ! (3 * k + 2) \<and>
     nat (spans ! (3 * k + 1)) + nat (spans ! (3 * k + 2)) \<le> length (batch_chunk chunks spans k)"

lemma check_spans_ok: "check_spans chunks spans ks = None \<Longrightarrow> k \<in> set ks \<Longrightarrow> span_ok chunks spans k"
  by (induction ks) (auto simp: Let_def span_ok_def not_bad_span split: if_splits)

text \<open>What the kernel makes of a send it is told to cut.\<close>

fun chop :: "nat \<Rightarrow> 'a list \<Rightarrow> 'a list list" where
  "chop n xs = (if n = 0 \<or> xs = [] then [] else take n xs # chop n (drop n xs))"

declare chop.simps [simp del]

lemma slice_slice: "a + m \<le> n \<Longrightarrow> slice a m (slice p n xs) = slice (p + a) m xs"
  by (simp add: slice_def drop_take min_absorb1 add.commute)

lemma slice_drop: "slice a m (drop n xs) = slice (n + a) m xs"
  by (simp add: slice_def add.commute)

lemma chop_run:
  assumes "0 < l" "l \<le> n"
  shows "length xs = m * n + l \<Longrightarrow>
    chop n xs = map (\<lambda>j. slice (j * n) (if j < m then n else l) xs) [0..<Suc m]"
proof (induction m arbitrary: xs)
  case 0
  then show ?case using assms by (auto simp: chop.simps [of n xs] chop.simps [of n "[]"] slice_def)
next
  case (Suc m)
  have "xs \<noteq> []" "n \<noteq> 0" using Suc.prems assms by auto
  then have "chop n xs = take n xs # chop n (drop n xs)" by (subst chop.simps) simp
  also have "chop n (drop n xs) = map (\<lambda>j. slice (j * n) (if j < m then n else l) (drop n xs)) [0..<Suc m]"
    by (rule Suc.IH) (simp add: Suc.prems)
  also have "\<dots> = map (\<lambda>j. slice (j * n) (if j < Suc m then n else l) xs) (map Suc [0..<Suc m])"
    by (simp add: slice_drop)
  also have "map Suc [0..<Suc m] = [1..<Suc (Suc m)]" by (simp add: map_Suc_upt del: upt_Suc)
  also have "take n xs # map (\<lambda>j. slice (j * n) (if j < Suc m then n else l) xs) [1..<Suc (Suc m)] =
      map (\<lambda>j. slice (j * n) (if j < Suc m then n else l) xs) [0..<Suc (Suc m)]"
    by (subst (2) upt_conv_Cons) (simp_all add: slice_def del: upt_Suc)
  finally show ?case .
qed

section \<open>A run is cut into its datagrams\<close>

text \<open>The shape of a run: one peer, end to end in one chunk, equal lengths but the last.\<close>

definition run_shape :: "int list \<Rightarrow> nat list \<Rightarrow> nat \<Rightarrow> int \<Rightarrow> nat \<Rightarrow> int \<Rightarrow> bool" where
  "run_shape spans targets first segment run tot \<longleftrightarrow>
     0 < run \<and>
     (\<forall>j < run. targets ! (first + j) = targets ! first \<and> spans ! (3 * (first + j)) = spans ! (3 * first) \<and>
                spans ! (3 * (first + j) + 1) = spans ! (3 * first + 1) + int j * segment) \<and>
     (\<forall>j < run - 1. spans ! (3 * (first + j) + 2) = segment) \<and>
     0 < spans ! (3 * (first + run - 1) + 2) \<and> spans ! (3 * (first + run - 1) + 2) \<le> segment \<and>
     tot = int (run - 1) * segment + spans ! (3 * (first + run - 1) + 2)"

lemma run_shape_extend:
  assumes "run_shape spans targets first segment run tot" "spans ! (3 * (first + run - 1) + 2) = segment"
    and "targets ! (first + run) = targets ! first" "spans ! (3 * (first + run)) = spans ! (3 * first)"
    and "spans ! (3 * (first + run) + 1) = spans ! (3 * first + 1) + tot"
    and "0 < spans ! (3 * (first + run) + 2)" "spans ! (3 * (first + run) + 2) \<le> segment"
  shows "run_shape spans targets first segment (run + 1) (tot + spans ! (3 * (first + run) + 2))"
proof -
  have run: "0 < run" and tot: "tot = int run * segment"
    using assms(1,2) by (simp_all add: run_shape_def algebra_simps of_nat_diff)
  have "spans ! (3 * (first + j) + 2) = segment" if "j < run" for j
    using assms(1,2) that run by (cases "j = run - 1") (auto simp: run_shape_def)
  moreover have "targets ! (first + j) = targets ! first \<and> spans ! (3 * (first + j)) = spans ! (3 * first) \<and>
      spans ! (3 * (first + j) + 1) = spans ! (3 * first + 1) + int j * segment" if "j < run + 1" for j
    using assms(1,3,4,5) that tot by (cases "j = run") (simp_all add: run_shape_def)
  ultimately show ?thesis
    using assms(6,7) tot by (simp add: run_shape_def)
qed

lemma gso_run_loop_shape:
  assumes "run_shape spans targets first segment run tot" "spans ! (3 * (first + run - 1) + 2) = segment"
    and "gso_run_loop spans targets first count segment run tot = (r, t)"
  shows "run_shape spans targets first segment r t \<and> run \<le> r \<and> r \<le> max 64 run \<and>
         (r = run \<and> t = tot \<or> first + r \<le> count \<and> t \<le> 65000)"
  using assms
proof (induction spans targets first count segment run tot rule: gso_run_loop.induct)
  case (1 spans targets first count segment run tot)
  let ?k = "first + run"
  let ?len = "spans ! (3 * ?k + 2)"
  let ?stop = "targets ! ?k \<noteq> targets ! first \<or> spans ! (3 * ?k) \<noteq> spans ! (3 * first)
                 \<or> spans ! (3 * ?k + 1) \<noteq> spans ! (3 * first + 1) + tot
                 \<or> ?len \<le> 0 \<or> ?len > segment \<or> tot + ?len > 65000"
  show ?case
  proof (cases "first + run < count \<and> run < 64 \<and> \<not> ?stop")
    case False
    then have "(r, t) = (run, tot)"
      using "1.prems"(3) by (subst (asm) gso_run_loop.simps) (auto simp: Let_def split: if_splits)
    then show ?thesis using "1.prems"(1) by simp
  next
    case True
    then have ext: "run_shape spans targets first segment (run + 1) (tot + ?len)"
      using run_shape_extend [OF "1.prems"(1,2)] by simp
    show ?thesis
    proof (cases "?len < segment")
      case short: True
      then have "(r, t) = (run + 1, tot + ?len)"
        using "1.prems"(3) True by (subst (asm) gso_run_loop.simps) (auto simp: Let_def split: if_splits)
      then show ?thesis using ext True by auto
    next
      case False
      then have full: "?len = segment" using True by simp
      have "gso_run_loop spans targets first count segment (run + 1) (tot + ?len) = (r, t)"
        using "1.prems"(3) True False by (subst (asm) gso_run_loop.simps) (simp add: Let_def)
      from "1.IH" [OF _ refl refl _ _ ext _ this] True False full show ?thesis by auto
    qed
  qed
qed

lemma gso_run_shape:
  assumes "crossbyte_gso_run spans targets first count = (run, tot)" "2 \<le> run"
  shows "run_shape spans targets first (spans ! (3 * first + 2)) run tot \<and> run \<le> 64 \<and>
         first + run \<le> count \<and> tot \<le> 65000 \<and> 0 < spans ! (3 * first + 2)"
proof -
  let ?seg = "spans ! (3 * first + 2)"
  have seg: "0 < ?seg" and loop: "gso_run_loop spans targets first count ?seg 1 ?seg = (run, tot)"
    using assms by (auto simp: crossbyte_gso_run_def Let_def split: if_splits)
  have "run_shape spans targets first ?seg 1 ?seg" using seg by (simp add: run_shape_def)
  from gso_run_loop_shape [OF this _ loop] seg assms(2) show ?thesis by auto
qed

lemma run_cut:
  assumes shape: "run_shape spans targets first segment run tot" and seg: "spans ! (3 * first + 2) = segment"
    and ok: "\<And>k. first \<le> k \<Longrightarrow> k < first + run \<Longrightarrow> span_ok chunks spans k"
  shows "chop (nat segment) (crossbyte_batch_data chunks spans first tot) =
         map (\<lambda>k. crossbyte_batch_data chunks spans k (spans ! (3 * k + 2))) [first..<first + run]"
proof -
  define p where "p = nat (spans ! (3 * first + 1))"
  define l where "l = nat (spans ! (3 * (first + run - 1) + 2))"
  define n where "n = nat segment"
  define c where "c = batch_chunk chunks spans first"
  have run: "0 < run" and l: "0 < l" "l \<le> n" and tot: "nat tot = (run - 1) * n + l"
    using shape by (auto simp: run_shape_def l_def n_def nat_add_distrib nat_mult_distrib)
  have chunk: "batch_chunk chunks spans (first + j) = c" if "j < run" for j
    using shape that by (simp add: run_shape_def batch_chunk_def c_def)
  have p0: "0 \<le> spans ! (3 * first + 1)" using ok [of first] run by (simp add: span_ok_def)
  have pos: "nat (spans ! (3 * (first + j) + 1)) = p + j * n" if "j < run" for j
    using shape that p0 l(2) l(1) by (simp add: run_shape_def p_def n_def nat_add_distrib nat_mult_distrib)
  have len: "nat (spans ! (3 * (first + j) + 2)) = (if j < run - 1 then n else l)" if "j < run" for j
    using shape that by (cases "j = run - 1") (auto simp: run_shape_def n_def l_def)
  have "p + (run - 1) * n + l \<le> length c"
    using ok [of "first + (run - 1)"] run pos [of "run - 1"] len [of "run - 1"] chunk [of "run - 1"]
    by (simp add: span_ok_def)
  then have long: "length (slice p (nat tot) c) = (run - 1) * n + l" by (simp add: tot slice_def)
  have "chop n (slice p (nat tot) c) =
      map (\<lambda>j. slice (j * n) (if j < run - 1 then n else l) (slice p (nat tot) c)) [0..<Suc (run - 1)]"
    by (rule chop_run [OF l long])
  also have "\<dots> = map (\<lambda>j. crossbyte_batch_data chunks spans (first + j) (spans ! (3 * (first + j) + 2))) [0..<run]"
  proof (rule map_cong)
    show "[0..<Suc (run - 1)] = [0..<run]" using run by simp
    fix j assume "j \<in> set [0..<run]"
    then have j: "j < run" by simp
    have "j * n + (if j < run - 1 then n else l) \<le> nat tot"
    proof (cases "j < run - 1")
      case True
      then have "Suc j * n \<le> (run - 1) * n" by (intro mult_le_mono1) simp
      then show ?thesis using True by (simp add: tot)
    next
      case False
      then have "j = run - 1" using j by simp
      then show ?thesis by (simp add: tot)
    qed
    then show "slice (j * n) (if j < run - 1 then n else l) (slice p (nat tot) c) =
        crossbyte_batch_data chunks spans (first + j) (spans ! (3 * (first + j) + 2))"
      by (simp add: slice_slice crossbyte_batch_data_def chunk [OF j] pos [OF j, simplified] len [OF j, simplified])
  qed
  also have "\<dots> = map (\<lambda>k. crossbyte_batch_data chunks spans k (spans ! (3 * k + 2))) (map (\<lambda>j. j + first) [0..<run])"
    by (simp add: add.commute)
  also have "map (\<lambda>j. j + first) [0..<run] = [first..<first + run]" by (simp add: map_add_upt add.commute)
  finally show ?thesis by (simp add: crossbyte_batch_data_def n_def p_def c_def)
qed

section \<open>What reaches the wire\<close>

text \<open>
  The documented behaviour of the two calls, over the record \<open>log\<close> of what has gone out: a send told to
  cut puts out the pieces of its bytes, in order, to its address; \<^verbatim>\<open>sendmmsg\<close> puts out as many of its
  messages, from the first, as it answers; and a call that fails puts out nothing.
\<close>

definition sends_logged :: "'w batch_api \<Rightarrow> ('w \<Rightarrow> datagram list) \<Rightarrow> bool" where
  "sends_logged A log \<longleftrightarrow>
     (\<forall>s d a g w. case sendmsg_cut A s d a g w of
        (Ret _, w') \<Rightarrow> log w' = log w @ map (\<lambda>b. (b, a)) (chop (unat g) d)
      | (Err _, w') \<Rightarrow> log w' = log w) \<and>
     (\<forall>s ms w. case sendmmsg A s ms w of
        (Ret n, w') \<Rightarrow> n \<le> length ms \<and> log w' = log w @ take n ms
      | (Err _, w') \<Rightarrow> log w' = log w)"

lemma retry_logged:
  assumes "retry f interrupted w = Some (r, w')" and "\<And>v e v'. f v = (Err e, v') \<Longrightarrow> log v' = log v"
  shows "\<exists>v. f v = (r, w') \<and> log v = log w"
proof -
  have "log (snd (f v)) = log w" if "log v = log w" "interrupted (fst (f v))" for v
    using that assms(2) [of v _ "snd (f v)"] by (cases "f v"; cases "fst (f v)") auto
  from retry_invariant_again [where P = "\<lambda>v. log v = log w", OF assms(1) refl this] show ?thesis by auto
qed

lemma retry_cut:
  assumes "sends_logged A log" "retry (sendmsg_cut A s d a g) interrupted w = Some (r, w')"
  shows "log w' = log w @ (case r of Ret _ \<Rightarrow> map (\<lambda>b. (b, a)) (chop (unat g) d) | Err _ \<Rightarrow> [])"
proof -
  have law: "case sendmsg_cut A s d a g v of
        (Ret _, w') \<Rightarrow> log w' = log v @ map (\<lambda>b. (b, a)) (chop (unat g) d) | (Err _, w') \<Rightarrow> log w' = log v" for v
    by (rule assms(1) [unfolded sends_logged_def, THEN conjunct1, rule_format])
  have err: "log v' = log v" if "sendmsg_cut A s d a g v = (Err e, v')" for v e v'
    using law [of v] that by simp
  have "\<exists>v. sendmsg_cut A s d a g v = (r, w') \<and> log v = log w"
    by (rule retry_logged [OF assms(2)]) (erule err)
  then obtain v where "sendmsg_cut A s d a g v = (r, w')" "log v = log w" by blast
  then show ?thesis using law [of v] by (cases r) simp_all
qed

lemma retry_mmsg:
  assumes "sends_logged A log" "retry (sendmmsg A s ms) interrupted w = Some (r, w')"
  shows "case r of Ret n \<Rightarrow> n \<le> length ms \<and> log w' = log w @ take n ms | Err _ \<Rightarrow> log w' = log w"
proof -
  have law: "case sendmmsg A s ms v of
        (Ret n, w') \<Rightarrow> n \<le> length ms \<and> log w' = log v @ take n ms | (Err _, w') \<Rightarrow> log w' = log v" for v
    by (rule assms(1) [unfolded sends_logged_def, THEN conjunct2, rule_format])
  have err: "log v' = log v" if "sendmmsg A s ms v = (Err e, v')" for v e v'
    using law [of v] that by simp
  have "\<exists>v. sendmmsg A s ms v = (r, w') \<and> log v = log w"
    by (rule retry_logged [OF assms(2)]) (erule err)
  then obtain v where "sendmmsg A s ms v = (r, w')" "log v = log w" by blast
  then show ?thesis using law [of v] by (cases r) simp_all
qed

lemma send_cut_logged:
  assumes law: "sends_logged A log" and cut: "send_cut A s chunks spans targets heap i tot w = Some (out, w')"
    and run: "crossbyte_gso_run spans targets i count = (run, tot)" "2 \<le> run"
    and ok: "\<And>k. i \<le> k \<Longrightarrow> k < count \<Longrightarrow> span_ok chunks spans k"
  shows "log w' = log w @ (if out = CutSent then map (dgram chunks spans targets heap) [i..<i + run] else [])"
proof (cases "crossbyte_dynamic_to_sockaddr (heap (targets ! i))")
  case (Inl m)
  then show ?thesis using cut by (auto simp: send_cut_def)
next
  case (Inr name)
  let ?seg = "spans ! (3 * i + 2)"
  note shape = gso_run_shape [OF run]
  have seg: "unat (of_int ?seg :: u16) = nat ?seg"
  proof -
    have "1 * ?seg \<le> int (run - 1) * ?seg" using run(2) shape by (intro mult_right_mono) auto
    moreover have "tot = int (run - 1) * ?seg + spans ! (3 * (i + run - 1) + 2)" "0 < spans ! (3 * (i + run - 1) + 2)"
      using shape by (simp_all add: run_shape_def)
    ultimately have "?seg \<le> 65000" using shape by linarith
    then show ?thesis
      using shape by (simp add: unat_eq_nat_uint unsigned_of_int take_bit_int_eq_self)
  qed
  have "chop (nat ?seg) (crossbyte_batch_data chunks spans i tot) =
      map (\<lambda>k. crossbyte_batch_data chunks spans k (spans ! (3 * k + 2))) [i..<i + run]"
  proof (rule run_cut)
    show "run_shape spans targets i ?seg run tot" using shape by blast
    show "span_ok chunks spans k" if "i \<le> k" "k < i + run" for k using ok [of k] that shape by linarith
  qed simp
  moreover have "dgram chunks spans targets heap k = (crossbyte_batch_data chunks spans k (spans ! (3 * k + 2)), name)"
    if "k \<in> set [i..<i + run]" for k
  proof -
    have "k - i < run" using that by auto
    then have "targets ! (i + (k - i)) = targets ! i" using shape unfolding run_shape_def by blast
    then show ?thesis using that Inr by (simp add: dgram_def)
  qed
  ultimately have pieces: "map (\<lambda>b. (b, name)) (chop (nat ?seg) (crossbyte_batch_data chunks spans i tot)) =
      map (dgram chunks spans targets heap) [i..<i + run]"
    by simp
  obtain r v where r: "retry (sendmsg_cut A s (crossbyte_batch_data chunks spans i tot) name (of_int ?seg)) interrupted w
      = Some (r, v)"
    using cut Inr by (auto simp: send_cut_def split: option.splits)
  have out: "out = (case r of Ret _ \<Rightarrow> CutSent | Err e \<Rightarrow> if crossbyte_gso_refused e then CutRefused else CutFailed)"
    "v = w'"
    using cut Inr r by (auto simp: send_cut_def split: sysret.splits)
  show ?thesis
    using retry_cut [OF law r, unfolded seg pieces] out by (cases r) simp_all
qed

lemma batch_fill_messages:
  assumes "batch_fill chunks spans targets heap count gso i n = Inr ms"
  shows "ms = map (dgram chunks spans targets heap) [i + n..<i + n + length ms]"
  using assms
proof (induction chunks spans targets heap count gso i n arbitrary: ms rule: batch_fill.induct)
  case (1 chunks spans targets heap count gso i n)
  show ?case
  proof (cases "i + n < count \<and> n < 64 \<and> \<not> (n > 0 \<and> gso \<and> fst (crossbyte_gso_run spans targets (i + n) count) \<ge> 2)")
    case False
    then show ?thesis using "1.prems" by (subst (asm) batch_fill.simps) (auto split: if_splits)
  next
    case True
    then obtain name rest where
      name: "crossbyte_dynamic_to_sockaddr (heap (targets ! (i + n))) = Inr name" and
      rest: "batch_fill chunks spans targets heap count gso i (n + 1) = Inr rest" and
      ms: "ms = (crossbyte_batch_data chunks spans (i + n) (spans ! (3 * (i + n) + 2)), name) # rest"
      using "1.prems" by (subst (asm) batch_fill.simps) (auto split: if_splits sum.splits)
    have "rest = map (dgram chunks spans targets heap) [i + (n + 1)..<i + (n + 1) + length rest]"
      by (rule "1.IH" [OF True name rest])
    moreover have "dgram chunks spans targets heap (i + n) =
        (crossbyte_batch_data chunks spans (i + n) (spans ! (3 * (i + n) + 2)), name)"
      using name by (simp add: dgram_def)
    ultimately show ?thesis unfolding ms by (simp add: upt_conv_Cons del: upt_Suc)
  qed
qed

lemma send_filled_logged:
  assumes law: "sends_logged A log"
    and sent: "send_filled A s (batch_fill chunks spans targets heap count gso i 0) w = Some (res, w')"
  shows "case res of
      Inl m \<Rightarrow> log w' = log w
    | Inr (result, n) \<Rightarrow> result \<le> n \<and> log w' = log w @ map (dgram chunks spans targets heap) [i..<i + result]"
proof (cases "batch_fill chunks spans targets heap count gso i 0")
  case (Inl m)
  then show ?thesis using sent by (auto simp: send_filled_def)
next
  case (Inr ms)
  have ms: "ms = map (dgram chunks spans targets heap) [i..<i + length ms]"
    using batch_fill_messages [OF Inr] by simp
  have tk: "take n ms = map (dgram chunks spans targets heap) [i..<i + n]" if "n \<le> length ms" for n
  proof -
    have "take n ms = map (dgram chunks spans targets heap) (take n [i..<i + length ms])"
      by (subst ms) (simp add: take_map)
    then show ?thesis using that by (simp add: take_upt)
  qed
  obtain r v where r: "retry (sendmmsg A s ms) interrupted w = Some (r, v)"
    using sent Inr by (auto simp: send_filled_def split: option.splits)
  show ?thesis
    using sent Inr r retry_mmsg [OF law r] tk
    by (cases r) (auto simp: send_filled_def)
qed

lemma batch_fill_bound:
  "batch_fill chunks spans targets heap count gso i n = Inr ms \<Longrightarrow> i + n \<le> count \<Longrightarrow> i + n + length ms \<le> count"
proof (induction chunks spans targets heap count gso i n arbitrary: ms rule: batch_fill.induct)
  case (1 chunks spans targets heap count gso i n)
  show ?case
  proof (cases "i + n < count \<and> n < 64 \<and> \<not> (n > 0 \<and> gso \<and> fst (crossbyte_gso_run spans targets (i + n) count) \<ge> 2)")
    case False
    then show ?thesis using "1.prems" by (subst (asm) batch_fill.simps) (auto split: if_splits)
  next
    case True
    then obtain name rest where
      "crossbyte_dynamic_to_sockaddr (heap (targets ! (i + n))) = Inr name"
      "batch_fill chunks spans targets heap count gso i (n + 1) = Inr rest" "length ms = Suc (length rest)"
      using "1.prems"(1) by (subst (asm) batch_fill.simps) (auto split: if_splits sum.splits)
    then show ?thesis using "1.IH" [OF True] True by auto
  qed
qed

lemma send_filled_count:
  "send_filled A s (batch_fill chunks spans targets heap count gso i 0) w = Some (Inr (result, n), w') \<Longrightarrow>
     i \<le> count \<Longrightarrow> i + n \<le> count"
  using batch_fill_bound [of chunks spans targets heap count gso i 0]
  by (auto simp: send_filled_def split: sum.splits option.splits sysret.splits)

text \<open>What the loop has put out, from datagram \<open>i\<close> on, when it answers.\<close>

definition sent_from ::
  "('w \<Rightarrow> datagram list) \<Rightarrow> (nat \<Rightarrow> datagram) \<Rightarrow> nat \<Rightarrow> nat \<Rightarrow> nat \<Rightarrow> 'w \<Rightarrow> nat hx \<Rightarrow> 'w \<Rightarrow> bool" where
  "sent_from log dg count i sent w res w' \<longleftrightarrow>
     (case res of
        Inr n \<Rightarrow> sent \<le> n \<and> i + (n - sent) \<le> count \<and> log w' = log w @ map dg [i..<i + (n - sent)]
      | Inl _ \<Rightarrow> \<exists>d. i + d \<le> count \<and> log w' = log w @ map dg [i..<i + d])"

lemma sent_from_step:
  assumes "sent_from log dg count (i + d) (sent + d) w1 res w'" and "log w1 = log w @ map dg [i..<i + d]"
  shows "sent_from log dg count i sent w res w'"
proof -
  have join: "[i..<i + d] @ [i + d..<i + d + e] = [i..<i + (d + e)]" for e
    using upt_add_eq_append [of i "i + d" e] by (simp add: add.assoc)
  have glue: "log w1 @ map dg [i + d..<i + d + e] = log w @ map dg [i..<i + (d + e)]" for e
    unfolding assms(2) join [symmetric] by simp
  show ?thesis
  proof (cases res)
    case (Inl m)
    then obtain e where e: "i + d + e \<le> count" "log w' = log w1 @ map dg [i + d..<i + d + e]"
      using assms(1) by (auto simp: sent_from_def)
    then have "i + (d + e) \<le> count" "log w' = log w @ map dg [i..<i + (d + e)]" by (simp_all add: glue)
    then show ?thesis unfolding sent_from_def Inl by (simp only: sum.case) blast
  next
    case (Inr n)
    then have n: "sent + d \<le> n" "i + d + (n - (sent + d)) \<le> count"
      "log w' = log w @ map dg [i..<i + (d + (n - (sent + d)))]"
      using assms(1) unfolding sent_from_def Inr sum.case glue by blast+
    moreover have "d + (n - (sent + d)) = n - sent" using n(1) by simp
    ultimately show ?thesis using Inr by (simp add: sent_from_def)
  qed
qed

text \<open>What one pass has put out.\<close>

definition pass_from ::
  "('w \<Rightarrow> datagram list) \<Rightarrow> (nat \<Rightarrow> datagram) \<Rightarrow> nat \<Rightarrow> nat \<Rightarrow> nat \<Rightarrow> 'w \<Rightarrow> pass \<Rightarrow> 'w \<Rightarrow> bool" where
  "pass_from log dg count i sent w p w' \<longleftrightarrow>
     (case p of
        Stop r \<Rightarrow> sent_from log dg count i sent w r w'
      | Go d \<Rightarrow> i + d \<le> count \<and> log w' = log w @ map dg [i..<i + d])"

lemma pass_from_none:
  assumes "log w' = log w" "i \<le> count"
  shows "pass_from log dg count i sent w (Stop (Inl m)) w'" "pass_from log dg count i sent w (Stop (Inr sent)) w'"
  using assms by (auto simp: pass_from_def sent_from_def intro!: exI [of _ 0])

lemma pass_from_log:
  "log w1 = log w \<Longrightarrow> pass_from log dg count i sent w1 p w' = pass_from log dg count i sent w p w'"
  by (simp only: pass_from_def sent_from_def)

lemma linux_fill_pass_logged:
  assumes law: "sends_logged A log" and i: "i \<le> count"
    and p: "linux_fill_pass A s chunks spans targets heap count gso i sent w = Some (p, gso', w')"
  shows "pass_from log (dgram chunks spans targets heap) count i sent w p w'"
proof -
  obtain r w2 where r: "send_filled A s (batch_fill chunks spans targets heap count gso i 0) w = Some (r, w2)"
    using p by (auto simp: linux_fill_pass_def split: option.splits)
  show ?thesis
  proof (cases r)
    case (Inl m)
    then show ?thesis
      using p r send_filled_logged [OF law r] pass_from_none [of log w' w i count] i
      by (auto simp: linux_fill_pass_def)
  next
    case (Inr rn)
    obtain result n where rn: "rn = (result, n)" by (cases rn)
    have "result \<le> n" "log w2 = log w @ map (dgram chunks spans targets heap) [i..<i + result]" "i + n \<le> count"
      using send_filled_logged [OF law r] send_filled_count [OF r [unfolded Inr rn] i] Inr rn by auto
    then show ?thesis
      using p r Inr rn by (auto simp: linux_fill_pass_def pass_from_def sent_from_def)
  qed
qed

lemma linux_send_pass_logged:
  assumes law: "sends_logged A log" and i: "i \<le> count"
    and p: "linux_send_pass A s chunks spans targets heap count gso i sent w = Some (p, gso', w')"
    and ok: "\<And>k. i \<le> k \<Longrightarrow> k < count \<Longrightarrow> span_ok chunks spans k"
  shows "pass_from log (dgram chunks spans targets heap) count i sent w p w'"
proof -
  let ?dg = "dgram chunks spans targets heap"
  obtain run tot where run: "crossbyte_gso_run spans targets i count = (run, tot)"
    by (cases "crossbyte_gso_run spans targets i count")
  show ?thesis
  proof (cases "gso \<and> run \<ge> 2")
    case False
    then show ?thesis
      using p run linux_fill_pass_logged [OF law i] by (auto simp: linux_send_pass_def)
  next
    case True
    then obtain out w1 where cut: "send_cut A s chunks spans targets heap i tot w = Some (out, w1)"
      using p run by (auto simp: linux_send_pass_def split: option.splits)
    have log1: "log w1 = log w @ (if out = CutSent then map ?dg [i..<i + run] else [])"
      using send_cut_logged [OF law cut run _ ok] True by blast
    have refused: "pass_from log ?dg count i sent w p w'" if "out = CutRefused"
    proof -
      have "linux_fill_pass A s chunks spans targets heap count False i sent w1 = Some (p, gso', w')"
        using p run True cut that by (simp add: linux_send_pass_def)
      from linux_fill_pass_logged [OF law i this] show ?thesis
        using pass_from_log [of log w1 w] log1 that by simp
    qed
    show ?thesis
      using p run True cut log1 refused gso_run_shape [OF run] pass_from_none [of log w1 w i count ?dg sent] i
      by (cases out) (auto simp: linux_send_pass_def pass_from_def)
  qed
qed

lemma linux_send_loop_logged:
  assumes law: "sends_logged A log"
  shows "linux_send_loop A s chunks spans targets heap count gso i sent w = Some (res, gso', w') \<Longrightarrow> i \<le> count \<Longrightarrow>
    (\<And>k. i \<le> k \<Longrightarrow> k < count \<Longrightarrow> span_ok chunks spans k) \<Longrightarrow>
    sent_from log (dgram chunks spans targets heap) count i sent w res w'"
proof (induction "count - i" arbitrary: gso i sent w rule: less_induct)
  case less
  let ?dg = "dgram chunks spans targets heap"
  show ?case
  proof (cases "i < count")
    case False
    then show ?thesis
      using less.prems(1,2) by (subst (asm) linux_send_loop.simps) (auto simp: sent_from_def)
  next
    case True
    obtain p g w1 where p: "linux_send_pass A s chunks spans targets heap count gso i sent w = Some (p, g, w1)"
      using less.prems(1) True by (subst (asm) linux_send_loop.simps) (auto split: option.splits)
    have fr: "pass_from log ?dg count i sent w p w1"
      by (rule linux_send_pass_logged [OF law less.prems(2) p less.prems(3)])
    show ?thesis
    proof (cases p)
      case (Stop r)
      then show ?thesis
        using less.prems(1) True p fr by (subst (asm) linux_send_loop.simps) (simp add: pass_from_def)
    next
      case (Go d)
      then have l: "linux_send_loop A s chunks spans targets heap count g (i + d) (sent + d) w1 = Some (res, gso', w')"
        and d: "0 < d" "i + d \<le> count" "log w1 = log w @ map ?dg [i..<i + d]"
        using less.prems(1) True p fr linux_send_pass_moves [of A s chunks spans targets heap count gso i sent w d g w1]
        by (subst (asm) linux_send_loop.simps, simp_all add: pass_from_def)
      have "sent_from log ?dg count (i + d) (sent + d) w1 res w'"
        by (rule less.hyps [OF _ l d(2)]) (use d True less.prems(3) in auto)
      then show ?thesis using d(3) by (rule sent_from_step)
    qed
  qed
qed

text \<open>The system ends every call: it does not interrupt one for ever.\<close>

definition calls_end :: "'w batch_api \<Rightarrow> bool" where
  "calls_end A \<longleftrightarrow>
     (\<forall>s d a g w. retry (sendmsg_cut A s d a g) interrupted w \<noteq> None) \<and>
     (\<forall>s ms w. retry (sendmmsg A s ms) interrupted w \<noteq> None)"

lemma linux_send_loop_returns:
  assumes "calls_end A"
  shows "linux_send_loop A s chunks spans targets heap count gso i sent w \<noteq> None"
proof (induction "count - i" arbitrary: gso i sent w rule: less_induct)
  case less
  have calls: "retry (sendmsg_cut A s d a g) interrupted v \<noteq> None" "retry (sendmmsg A s ms) interrupted v \<noteq> None"
    for s d a g v ms using assms unfolding calls_end_def by blast+
  have cut: "send_cut A s chunks spans targets heap i t v \<noteq> None" for t v
    using calls(1) by (auto simp: send_cut_def split: sum.splits option.splits sysret.splits) (metis option.distinct(1))
  have fill: "send_filled A s ms v \<noteq> None" for ms v
    using calls(2) by (auto simp: send_filled_def split: sum.splits option.splits sysret.splits) (metis option.distinct(1))
  have fp: "linux_fill_pass A s chunks spans targets heap count g i sent v \<noteq> None" for g v
    using fill by (simp add: linux_fill_pass_def del: not_None_eq split: option.splits sum.splits prod.splits)
  have sp: "linux_send_pass A s chunks spans targets heap count gso i sent w \<noteq> None"
    using cut fp
    by (simp add: linux_send_pass_def del: not_None_eq split: option.splits cut_outcome.splits prod.splits)
  show ?case
  proof (cases "i < count")
    case True
    obtain p g w1 where p: "linux_send_pass A s chunks spans targets heap count gso i sent w = Some (p, g, w1)"
      using sp by auto
    show ?thesis
    proof (cases p)
      case (Go d)
      have "count - (i + d) < count - i"
        using linux_send_pass_moves [OF p [unfolded Go]] True by simp
      from less [OF this] show ?thesis using p Go True by (subst linux_send_loop.simps) simp
    qed (use p True in \<open>subst linux_send_loop.simps, simp\<close>)
  qed (subst linux_send_loop.simps, simp)
qed

text \<open>What a whole call has put out, of the datagrams from \<open>first\<close> to \<open>count\<close>.\<close>

definition batch_sent ::
  "('w \<Rightarrow> datagram list) \<Rightarrow> (nat \<Rightarrow> datagram) \<Rightarrow> int \<Rightarrow> int \<Rightarrow> 'w \<Rightarrow> nat hx \<Rightarrow> 'w \<Rightarrow> bool" where
  "batch_sent log dg first count w res w' \<longleftrightarrow>
     (\<exists>n. log w' = log w @ map dg [nat first..<nat first + n] \<and>
          (n = 0 \<or> 0 \<le> first \<and> first + int n \<le> count) \<and> (\<forall>k. res = Inr k \<longrightarrow> k = n))"

lemma batch_sent_nothing: "log w' = log w \<Longrightarrow> batch_sent log dg first count w (Inl m) w'"
  by (auto simp: batch_sent_def intro!: exI [of _ 0])

lemma batch_sent_from:
  assumes "sent_from log dg (nat count) (nat first) 0 w res w'" "\<not> batch_invalid spans targets first count"
  shows "batch_sent log dg first count w res w'"
proof (cases res)
  case (Inl m)
  then show ?thesis using assms by (auto simp: sent_from_def batch_sent_def batch_invalid_def)
next
  case (Inr n)
  then show ?thesis using assms by (auto simp: sent_from_def batch_sent_def batch_invalid_def)
qed

text \<open>
  C9. A batch sends what it was asked to, in order. On Linux, whatever runs are cut by the kernel and
  however the rest is gathered: the call returns, and what has gone out is exactly the datagrams from
  \<open>first\<close> on, each with its own bytes and address, as many of them as it answers. A run cut by the kernel
  comes out as the datagrams it was made of, and its length fits the 16 bits it is passed in. When it
  throws, what has gone out is still a run of the batch from its start.
\<close>

theorem send_batch_delivers:
  assumes "sends_logged A log" and "calls_end A"
  shows "\<exists>res gso' w'. crossbyte_socket_send_batch_linux A socket chunks spans targets heap first count gso w
           = Some (res, gso', w') \<and>
         batch_sent log (dgram chunks spans targets heap) first count w res w'"
proof (cases "crossbyte_val_sock socket")
  case (Inl m)
  then show ?thesis by (simp add: crossbyte_socket_send_batch_linux_def batch_sent_nothing)
next
  case (Inr s)
  show ?thesis
  proof (cases "batch_invalid spans targets first count \<or> check_spans chunks spans [nat first..<nat count] \<noteq> None")
    case True
    then show ?thesis
      using Inr by (auto simp: crossbyte_socket_send_batch_linux_def batch_sent_nothing)
  next
    case False
    obtain res gso' w' where
      l: "linux_send_loop A s chunks spans targets heap (nat count) gso (nat first) 0 w = Some (res, gso', w')"
      using linux_send_loop_returns [OF assms(2)] by (metis not_None_eq prod_cases3)
    have "sent_from log (dgram chunks spans targets heap) (nat count) (nat first) 0 w res w'"
      using False check_spans_ok [of chunks spans "[nat first..<nat count]"]
      by (intro linux_send_loop_logged [OF assms(1) l]) (auto simp: batch_invalid_def)
    then show ?thesis
      using Inr False l batch_sent_from by (auto simp: crossbyte_socket_send_batch_linux_def)
  qed
qed

text \<open>A system whose world is what has gone out.\<close>

definition wire_api :: "datagram list batch_api" where
  "wire_api =
     \<lparr>sendmsg_cut = \<lambda>s d a g w. (Ret (length d), w @ map (\<lambda>b. (b, a)) (chop (unat g) d)),
      sendmmsg = \<lambda>s ms w. (Ret (length ms), w @ ms)\<rparr>"

theorem send_batch_delivers_witness:
  "\<exists>res gso' w'. crossbyte_socket_send_batch_linux wire_api (SWrapper 5) [Some [1, 2, 3, 4, 5]]
       [0, 0, 2, 0, 2, 2, 0, 4, 1] [7, 7, 7] (\<lambda>_. \<lparr>host = 16777343, port = 9, ipv6 = None\<rparr>) 0 3 True []
         = Some (res, gso', w') \<and>
     batch_sent (\<lambda>w. w) (dgram [Some [1, 2, 3, 4, 5]] [0, 0, 2, 0, 2, 2, 0, 4, 1] [7, 7, 7]
       (\<lambda>_. \<lparr>host = 16777343, port = 9, ipv6 = None\<rparr>)) 0 3 [] res w'"
proof -
  have "sends_logged wire_api (\<lambda>w. w)" by (simp add: sends_logged_def wire_api_def)
  moreover have "calls_end wire_api" by (simp add: calls_end_def wire_api_def retry_done)
  ultimately show ?thesis by (rule send_batch_delivers)
qed

section \<open>Elsewhere\<close>

definition sendto_logged :: "os \<Rightarrow> 'w sock_api \<Rightarrow> ('w \<Rightarrow> datagram list) \<Rightarrow> bool" where
  "sendto_logged os A log \<longleftrightarrow>
     (\<forall>s d a w. case sendto_or_send os A s d a w of
        (Ret _, w') \<Rightarrow> log w' = log w @ [(d, a)]
      | (Err _, w') \<Rightarrow> log w' = log w)"

lemma attempt_sendto:
  assumes "sendto_logged os A log" "attempt os (sendto_or_send os A s d a) w = Some (r, w')"
  shows "log w' = log w @ (case r of Ret _ \<Rightarrow> [(d, a)] | Err _ \<Rightarrow> [])"
proof -
  have law: "case sendto_or_send os A s d a v of
        (Ret _, w') \<Rightarrow> log w' = log v @ [(d, a)] | (Err _, w') \<Rightarrow> log w' = log v" for v
    by (rule assms(1) [unfolded sendto_logged_def, rule_format])
  have err: "log v' = log v" if "sendto_or_send os A s d a v = (Err e, v')" for v e v'
    using law [of v] that by simp
  have "\<exists>v. sendto_or_send os A s d a v = (r, w') \<and> log v = log w"
  proof (cases os)
    case Windows
    then show ?thesis using assms(2) by (auto simp: attempt_def)
  next
    case Posix
    show ?thesis by (rule retry_logged [OF _ err]) (use assms(2) Posix in \<open>simp_all add: attempt_def\<close>)
  qed
  then obtain v where "sendto_or_send os A s d a v = (r, w')" "log v = log w" by blast
  then show ?thesis using law [of v] by (cases r) simp_all
qed

lemma plain_send_loop_logged:
  assumes law: "sendto_logged os A log"
  shows "plain_send_loop os A s chunks spans targets heap count i sent w = Some (res, w') \<Longrightarrow> i \<le> count \<Longrightarrow>
    sent_from log (dgram chunks spans targets heap) count i sent w res w'"
proof (induction "count - i" arbitrary: i sent w rule: less_induct)
  case less
  let ?dg = "dgram chunks spans targets heap"
  note unf = less.prems(1) [unfolded plain_send_loop.simps [of os A s chunks spans targets heap count i sent w]]
  have none: "sent_from log ?dg count i sent w (Inl m) w1" "sent_from log ?dg count i sent w (Inr sent) w1"
    if "log w1 = log w" for m w1
    using pass_from_none [of log w1 w i count ?dg sent] that less.prems(2) by (simp_all add: pass_from_def)
  show ?case
  proof (cases "i < count")
    case False
    then show ?thesis using unf none by auto
  next
    case True
    show ?thesis
    proof (cases "crossbyte_dynamic_to_sockaddr (heap (targets ! i))")
      case (Inl m)
      then show ?thesis using unf True none by auto
    next
      case (Inr name)
      let ?d = "crossbyte_batch_data chunks spans i (spans ! (3 * i + 2))"
      obtain r w1 where r: "attempt os (sendto_or_send os A s ?d name) w = Some (r, w1)"
        using unf True Inr by (auto split: option.splits)
      note lg = attempt_sendto [OF law r]
      show ?thesis
      proof (cases r)
        case (Err e)
        then show ?thesis using unf True Inr r lg none by auto
      next
        case (Ret x)
        have dg: "?dg i = (?d, name)" using Inr by (simp add: dgram_def)
        have "sent_from log ?dg count (i + 1) (sent + 1) w1 res w'"
          using less.hyps [of "i + 1" "sent + 1" w1] unf True Inr r Ret by simp
        moreover have "log w1 = log w @ map ?dg [i..<i + 1]" using lg Ret dg by simp
        ultimately show ?thesis by (rule sent_from_step)
      qed
    qed
  qed
qed

lemma plain_send_loop_returns:
  assumes "\<And>s d a w. attempt os (sendto_or_send os A s d a) w \<noteq> None"
  shows "plain_send_loop os A s chunks spans targets heap count i sent w \<noteq> None"
proof (induction "count - i" arbitrary: i sent w rule: less_induct)
  case less
  show ?case
  proof (cases "crossbyte_dynamic_to_sockaddr (heap (targets ! i))")
    case (Inl m)
    then show ?thesis by (subst plain_send_loop.simps) simp
  next
    case (Inr name)
    obtain r w1 where "attempt os (sendto_or_send os A s (crossbyte_batch_data chunks spans i (spans ! (3 * i + 2))) name) w
        = Some (r, w1)"
      using assms by (metis not_None_eq surj_pair)
    then show ?thesis
      using Inr less [of "i + 1" "sent + 1" w1] by (subst plain_send_loop.simps) (cases r; simp del: not_None_eq)
  qed
qed

text \<open>
  The same of the systems that send a batch one datagram at a time: the call returns, and what has
  gone out is exactly the datagrams from \<open>first\<close> on that it answers.
\<close>

theorem send_batch_elsewhere:
  assumes "sendto_logged os A log" and "\<And>s d a w. attempt os (sendto_or_send os A s d a) w \<noteq> None"
  shows "\<exists>res w'. crossbyte_socket_send_batch os A socket chunks spans targets heap first count w = Some (res, w') \<and>
         batch_sent log (dgram chunks spans targets heap) first count w res w'"
proof (cases "crossbyte_val_sock socket")
  case (Inl m)
  then show ?thesis by (simp add: crossbyte_socket_send_batch_def batch_sent_nothing)
next
  case (Inr s)
  show ?thesis
  proof (cases "batch_invalid spans targets first count \<or> check_spans chunks spans [nat first..<nat count] \<noteq> None")
    case True
    then show ?thesis using Inr by (auto simp: crossbyte_socket_send_batch_def batch_sent_nothing)
  next
    case False
    obtain res w' where l: "plain_send_loop os A s chunks spans targets heap (nat count) (nat first) 0 w = Some (res, w')"
      using plain_send_loop_returns [OF assms(2)] by (metis not_None_eq surj_pair)
    have "sent_from log (dgram chunks spans targets heap) (nat count) (nat first) 0 w res w'"
      using False by (intro plain_send_loop_logged [OF assms(1) l]) (auto simp: batch_invalid_def)
    then show ?thesis using Inr False l batch_sent_from by (auto simp: crossbyte_socket_send_batch_def)
  qed
qed

text \<open>A connected socket of a BSD, whose world is what has gone out: it refuses an address.\<close>

definition connected_api :: "datagram list sock_api" where
  "connected_api =
     \<lparr>accept_call = \<lambda>s w. (Ret 9, w), no_inherit = \<lambda>s w. w, getname = \<lambda>b s w. (None, w),
      sendto = \<lambda>s d a w. (if snd a = 16 then Err EISCONN else Ret (length d), if snd a = 16 then w else w @ [(d, a)]),
      send = \<lambda>s d w. (Err EMSGSIZE, w),
      recvfrom = \<lambda>s n w. (Err EAGAIN, w), recv = \<lambda>s n w. (Err EAGAIN, w),
      leave_zone = \<lambda>e. e, so_error_of = \<lambda>s w. (Some 0, w), strerror = \<lambda>e. [], format_message = \<lambda>e. [],
      ignore_reports = \<lambda>s w. w\<rparr>"

theorem send_batch_elsewhere_witness:
  "\<exists>res w'. crossbyte_socket_send_batch Posix connected_api (SWrapper 5) [Some [1, 2, 3]] [0, 0, 2, 0, 2, 1] [7, 8]
       (\<lambda>_. \<lparr>host = 0, port = 9, ipv6 = Some (replicate 16 1)\<rparr>) 0 2 [] = Some (res, w') \<and>
     batch_sent (\<lambda>w. w) (dgram [Some [1, 2, 3]] [0, 0, 2, 0, 2, 1] [7, 8]
       (\<lambda>_. \<lparr>host = 0, port = 9, ipv6 = Some (replicate 16 1)\<rparr>)) 0 2 [] res w'"
proof (rule send_batch_elsewhere)
  show "sendto_logged Posix connected_api (\<lambda>w. w)"
    by (simp add: sendto_logged_def sendto_or_send_def connected_api_def)
  show "attempt Posix (sendto_or_send Posix connected_api s d a) w \<noteq> None" for s d a w
    by (simp add: attempt_def sendto_or_send_def connected_api_def retry_done)
qed

end
