(* ===== verification/Recv_Batch.thy ===== *)
theory Recv_Batch
  imports Socket_Transfer
begin

text \<open>
  The receive batches of \<^verbatim>\<open>_internal/net/NativeSocketAddress.cpp\<close>, on Linux: one mapping that holds the
  message headers, from its start, and after them a slot of 65,536 bytes a datagram. The mapping is a
  function from offsets to bytes; \<open>slots\<close> is the offset of the first slot. What \<^verbatim>\<open>recvmmsg\<close> takes in is
  the datagrams it would have the kernel write into the slots.
\<close>

section \<open>A batch\<close>

definition BATCH_SLOT :: nat where
  "BATCH_SLOT = 65536"

record message =
  msg_name :: sockaddr
  msg_namelen :: nat
  msg_len :: nat

record recv_batch =
  capacity :: int
  count :: int
  mapped :: nat
  memory :: "(nat \<Rightarrow> byte) option"
  messages :: "message list"
  slots :: nat

record 'w recv_api =
  page_size :: int
  mmap_anonymous :: "nat \<Rightarrow> 'w \<Rightarrow> bool \<times> 'w"
  munmap_at :: "nat \<Rightarrow> 'w \<Rightarrow> 'w"
  recvmmsg :: "int \<Rightarrow> nat \<Rightarrow> 'w \<Rightarrow> (bytes \<times> sockaddr \<times> nat) list sysret \<times> 'w"

definition release :: "'w recv_api \<Rightarrow> recv_batch \<Rightarrow> 'w \<Rightarrow> recv_batch \<times> 'w" where
  "release A b w =
     (b\<lparr>memory := None, messages := [], slots := 0, count := 0, capacity := 0\<rparr>,
      if memory b \<noteq> None then munmap_at A (mapped b) w else w)"

text \<open>A value passed for a batch: null, or a batch, which counts only while it has its memory.\<close>

definition crossbyte_batch_of :: "recv_batch option \<Rightarrow> recv_batch option" where
  "crossbyte_batch_of batch =
     (case batch of None \<Rightarrow> None | Some b \<Rightarrow> if memory b \<noteq> None then Some b else None)"

definition crossbyte_batch_message :: "recv_batch option \<Rightarrow> int \<Rightarrow> message hx" where
  "crossbyte_batch_message found index =
     (case found of
        None \<Rightarrow> Inl ''Invalid batch index''
      | Some b \<Rightarrow> if index < 0 \<or> index \<ge> count b then Inl ''Invalid batch index'' else Inr (messages b ! nat index))"

text \<open>64, 16 and 128 bytes an entry: \<^verbatim>\<open>mmsghdr\<close>, \<^verbatim>\<open>iovec\<close> and \<^verbatim>\<open>sockaddr_storage\<close>.\<close>

definition headers_size :: "nat \<Rightarrow> int \<Rightarrow> nat" where
  "headers_size page cap = (nat cap * (64 + 16 + 128) + page - 1) div page * page"

definition crossbyte_udp_batch_new ::
  "'w recv_api \<Rightarrow> (nat \<Rightarrow> byte) \<Rightarrow> int \<Rightarrow> 'w \<Rightarrow> recv_batch option hx \<times> 'w" where
  "crossbyte_udp_batch_new A zeros cap w =
     (if cap < 1 \<or> cap > 1024 then (Inl ''Invalid batch capacity'', w)
      else let page = (if page_size A \<le> 0 then 4096 else nat (page_size A));
               headers = headers_size page cap;
               size = headers + nat cap * BATCH_SLOT
           in (case mmap_anonymous A size w of (ok, w) \<Rightarrow>
                 if \<not> ok then (Inr None, w)
                 else (Inr (Some \<lparr>capacity = cap, count = 0, mapped = size, memory = Some zeros,
                                  messages = replicate (nat cap) \<lparr>msg_name = Sockaddr_other, msg_namelen = 0, msg_len = 0\<rparr>,
                                  slots = headers\<rparr>), w)))"

definition crossbyte_udp_batch_capacity :: "recv_batch option \<Rightarrow> int" where
  "crossbyte_udp_batch_capacity batch =
     (case crossbyte_batch_of batch of None \<Rightarrow> 0 | Some b \<Rightarrow> capacity b)"

section \<open>Receiving\<close>

text \<open>What the kernel writes: datagram \<open>i\<close> from the start of slot \<open>i\<close>.\<close>

definition write_at :: "nat \<Rightarrow> bytes \<Rightarrow> (nat \<Rightarrow> byte) \<Rightarrow> nat \<Rightarrow> byte" where
  "write_at off data mem = (\<lambda>a. if off \<le> a \<and> a < off + length data then data ! (a - off) else mem a)"

fun fill_slots :: "nat \<Rightarrow> (bytes \<times> sockaddr \<times> nat) list \<Rightarrow> (nat \<Rightarrow> byte) \<Rightarrow> nat \<Rightarrow> byte" where
  "fill_slots off [] mem = mem"
| "fill_slots off ((data, _) # ds) mem = fill_slots (off + BATCH_SLOT) ds (write_at off data mem)"

definition message_of :: "bytes \<times> sockaddr \<times> nat \<Rightarrow> message" where
  "message_of d = (case d of (data, name, n) \<Rightarrow> \<lparr>msg_name = name, msg_namelen = n, msg_len = length data\<rparr>)"

definition received :: "(bytes \<times> sockaddr \<times> nat) list \<Rightarrow> recv_batch \<Rightarrow> recv_batch" where
  "received ds b =
     b\<lparr>count := int (length ds), memory := map_option (fill_slots (slots b) ds) (memory b),
       messages := map message_of ds @ drop (length ds) (messages b)\<rparr>"

text \<open>The headers made ready for \<open>max\<close> messages.\<close>

definition reset_messages :: "nat \<Rightarrow> message list \<Rightarrow> message list" where
  "reset_messages n ms = map (\<lambda>m. m\<lparr>msg_namelen := 128, msg_len := 0\<rparr>) (take n ms) @ drop n ms"

definition crossbyte_udp_batch_receive ::
  "'w recv_api \<Rightarrow> sock_value \<Rightarrow> recv_batch option \<Rightarrow> int \<Rightarrow> 'w \<Rightarrow> (int hx \<times> recv_batch option \<times> 'w) option" where
  "crossbyte_udp_batch_receive A socket batch limit w =
     (case crossbyte_val_sock socket of
        Inl m \<Rightarrow> Some (Inl m, batch, w)
      | Inr s \<Rightarrow>
          (case crossbyte_batch_of batch of
             None \<Rightarrow> Some (Inl ''Invalid batch'', batch, w)
           | Some b \<Rightarrow>
               let b = b\<lparr>count := 0\<rparr>;
                   limit = (if limit > capacity b then capacity b else limit)
               in if limit < 1 then Some (Inr (-1), Some b, w)
                  else let b = b\<lparr>messages := reset_messages (nat limit) (messages b)\<rparr>
                       in (case retry (recvmmsg A s (nat limit)) interrupted w of
                             None \<Rightarrow> None
                           | Some (Ret ds, w) \<Rightarrow> Some (Inr (int (length ds)), Some (received ds b), w)
                           | Some (Err e, w) \<Rightarrow>
                               Some (if crossbyte_would_block Posix e then Inr (-1)
                                     else if e = ENOSYS then Inr (-2)
                                     else if crossbyte_unreachable_report Posix e then Inr (-3)
                                     else Inl ''Socket operation failed'', Some b, w))))"

definition crossbyte_udp_batch_take ::
  "recv_batch option \<Rightarrow> int \<Rightarrow> dyn_address option \<Rightarrow> int hx \<times> dyn_address option" where
  "crossbyte_udp_batch_take batch index address =
     (case crossbyte_batch_message (crossbyte_batch_of batch) index of
        Inl m \<Rightarrow> (Inl m, address)
      | Inr m \<Rightarrow> (Inr (int (msg_len m)), crossbyte_sockaddr_to_dynamic (Some (msg_name m)) (msg_namelen m) address))"

text \<open>Bytes of the mapping; \<open>None\<close> outside it.\<close>

definition read_memory :: "recv_batch \<Rightarrow> nat \<Rightarrow> nat \<Rightarrow> bytes option" where
  "read_memory b off n =
     (case memory b of
        None \<Rightarrow> None
      | Some mem \<Rightarrow> if off + n \<le> mapped b then Some (map mem [off..<off + n]) else None)"

definition crossbyte_udp_batch_copy ::
  "recv_batch option \<Rightarrow> int \<Rightarrow> bytes \<Rightarrow> int \<Rightarrow> (unit hx \<times> bytes) option" where
  "crossbyte_udp_batch_copy batch index buffer position =
     (case crossbyte_batch_message (crossbyte_batch_of batch) index of
        Inl m \<Rightarrow> Some (Inl m, buffer)
      | Inr m \<Rightarrow>
          let len = int (msg_len m); bufferLength = int (length buffer)
          in if position < 0 \<or> position > bufferLength \<or> len > bufferLength - position
             then Some (Inl ''Invalid data position'', buffer)
             else if len > 0
             then (case read_memory (the batch) (slots (the batch) + nat index * BATCH_SLOT) (nat len) of
                     None \<Rightarrow> None
                   | Some data \<Rightarrow> map_option (\<lambda>buffer. (Inr (), buffer)) (blit buffer (nat position) data))
             else Some (Inr (), buffer))"

definition crossbyte_udp_batch_free :: "'w recv_api \<Rightarrow> recv_batch option \<Rightarrow> 'w \<Rightarrow> recv_batch option \<times> 'w" where
  "crossbyte_udp_batch_free A batch w =
     (case crossbyte_batch_of batch of
        None \<Rightarrow> (batch, w)
      | Some b \<Rightarrow> (case release A b w of (b, w) \<Rightarrow> (Some b, w)))"

section \<open>A batch stays well formed\<close>

definition batch_wf :: "recv_batch \<Rightarrow> bool" where
  "batch_wf b \<longleftrightarrow>
     (if memory b = None then count b = 0
      else 1 \<le> capacity b \<and> capacity b \<le> 1024 \<and> 0 \<le> count b \<and> count b \<le> capacity b \<and>
           length (messages b) = nat (capacity b) \<and> nat (capacity b) * 208 \<le> slots b \<and>
           mapped b = slots b + nat (capacity b) * BATCH_SLOT \<and>
           (\<forall>i < nat (count b). msg_len (messages b ! i) \<le> BATCH_SLOT))"

text \<open>What \<^verbatim>\<open>recvmmsg\<close> promises: no more datagrams than asked for, each cut to its slot.\<close>

definition receive_fits :: "'w recv_api \<Rightarrow> bool" where
  "receive_fits A \<longleftrightarrow>
     (\<forall>s n w. case fst (recvmmsg A s n w) of
        Ret ds \<Rightarrow> length ds \<le> n \<and> (\<forall>d \<in> set ds. length (fst d) \<le> BATCH_SLOT)
      | Err _ \<Rightarrow> True)"

lemma retry_fits:
  assumes "receive_fits A" "retry (recvmmsg A s n) interrupted w = Some (Ret ds, w')"
  shows "length ds \<le> n" "\<forall>d \<in> set ds. length (fst d) \<le> BATCH_SLOT"
proof -
  obtain v where v: "recvmmsg A s n v = (Ret ds, w')"
    using retry_invariant [of "recvmmsg A s n" interrupted w "(Ret ds, w')" "\<lambda>_. True"] assms(2) by auto
  have "case fst (recvmmsg A s n v) of
      Ret ds \<Rightarrow> length ds \<le> n \<and> (\<forall>d \<in> set ds. length (fst d) \<le> BATCH_SLOT) | Err _ \<Rightarrow> True"
    by (rule assms(1) [unfolded receive_fits_def, rule_format])
  then show "length ds \<le> n" "\<forall>d \<in> set ds. length (fst d) \<le> BATCH_SLOT" by (simp_all add: v)
qed

lemma headers_size_room:
  assumes "0 < page"
  shows "nat cap * 208 \<le> headers_size page cap"
proof -
  let ?n = "nat cap * 208 + page - 1"
  have "?n div page * page + ?n mod page = ?n" by simp
  moreover have "?n mod page < page" using assms by simp
  ultimately have "nat cap * 208 \<le> ?n div page * page" by linarith
  then show ?thesis by (simp add: headers_size_def)
qed

lemma new_wf:
  "crossbyte_udp_batch_new A zeros cap w = (Inr (Some b), w') \<Longrightarrow> batch_wf b"
  using headers_size_room [of "if page_size A \<le> 0 then 4096 else nat (page_size A)" cap]
  by (auto simp: crossbyte_udp_batch_new_def batch_wf_def Let_def split: if_splits prod.splits)

lemma received_wf:
  assumes "batch_wf b" "memory b \<noteq> None" "length ds \<le> nat (capacity b)" "\<forall>d \<in> set ds. length (fst d) \<le> BATCH_SLOT"
  shows "batch_wf (received ds b)"
proof -
  have "msg_len ((map message_of ds @ drop (length ds) (messages b)) ! i) \<le> BATCH_SLOT" if "i < length ds" for i
    using bspec [OF assms(4) nth_mem [OF that]] that by (auto simp: nth_append message_of_def split: prod.splits)
  then show ?thesis
    using assms(1,2,3) by (auto simp: batch_wf_def received_def)
qed

lemma reset_wf:
  "batch_wf b \<Longrightarrow> memory b \<noteq> None \<Longrightarrow> batch_wf (b\<lparr>count := 0, messages := reset_messages n (messages b)\<rparr>)"
  by (auto simp: batch_wf_def reset_messages_def)

lemma receive_wf:
  assumes "receive_fits A" "batch_wf b"
    and "crossbyte_udp_batch_receive A socket (Some b) limit w = Some (r, Some b', w')"
  shows "batch_wf b'"
proof (cases "memory b = None")
  case True
  then show ?thesis using assms(2,3)
    by (auto simp: crossbyte_udp_batch_receive_def crossbyte_batch_of_def split: sum.splits)
next
  case False
  let ?b = "\<lambda>n. b\<lparr>count := 0, messages := reset_messages n (messages b)\<rparr>"
  have wf: "batch_wf (?b n)" "batch_wf (b\<lparr>count := 0\<rparr>)" for n
    using reset_wf [OF assms(2) False] assms(2) False by (auto simp: batch_wf_def)
  have got: "batch_wf (received ds (?b n))"
    if "retry (recvmmsg A s n) interrupted w = Some (Ret ds, v)" "n \<le> nat (capacity b)" for s n ds v
    by (rule received_wf [OF wf(1)]) (use False retry_fits [OF assms(1) that(1)] that(2) in auto)
  show ?thesis
    using assms(2,3) False
    by (auto simp: crossbyte_udp_batch_receive_def crossbyte_batch_of_def Let_def
        split: sum.splits if_splits option.splits sysret.splits intro!: wf got)
qed

section \<open>What was received is what is handed out\<close>

lemma fill_slots_below: "a < off \<Longrightarrow> fill_slots off ds mem a = mem a"
  by (induction off ds mem rule: fill_slots.induct) (auto simp: write_at_def)

lemma fill_slots_slot:
  assumes "i < length ds" "\<forall>d \<in> set ds. length (fst d) \<le> BATCH_SLOT" "k < length (fst (ds ! i))"
  shows "fill_slots off ds mem (off + i * BATCH_SLOT + k) = fst (ds ! i) ! k"
  using assms
proof (induction off ds mem arbitrary: i rule: fill_slots.induct)
  case (2 off data rest ds mem)
  show ?case
  proof (cases i)
    case 0
    then have "k < BATCH_SLOT" using "2.prems" by simp
    then have "fill_slots (off + BATCH_SLOT) ds (write_at off data mem) (off + k) = write_at off data mem (off + k)"
      by (intro fill_slots_below) simp
    then show ?thesis using 0 "2.prems" by (simp add: write_at_def)
  next
    case (Suc j)
    then have "fill_slots (off + BATCH_SLOT) ds (write_at off data mem) (off + BATCH_SLOT + j * BATCH_SLOT + k) = fst (ds ! j) ! k"
      using "2.prems" by (intro "2.IH") auto
    then show ?thesis using Suc by (simp add: algebra_simps)
  qed
qed simp

lemma read_received:
  assumes "batch_wf b" "memory b \<noteq> None" "i < length ds" "length ds \<le> nat (capacity b)"
    and "\<forall>d \<in> set ds. length (fst d) \<le> BATCH_SLOT"
  shows "read_memory (received ds b) (slots b + i * BATCH_SLOT) (length (fst (ds ! i))) = Some (fst (ds ! i))"
proof -
  let ?n = "length (fst (ds ! i))"
  obtain mem where mem: "memory b = Some mem" using assms(2) by auto
  have "?n \<le> BATCH_SLOT" using bspec [OF assms(5) nth_mem [OF assms(3)]] .
  moreover have "Suc i * BATCH_SLOT \<le> nat (capacity b) * BATCH_SLOT"
    using assms(3,4) by (intro mult_le_mono1) simp
  ultimately have "slots b + i * BATCH_SLOT + ?n \<le> mapped b"
    using assms(1,2) by (simp add: batch_wf_def)
  moreover have "map (fill_slots (slots b) ds mem) [slots b + i * BATCH_SLOT..<slots b + i * BATCH_SLOT + ?n] = fst (ds ! i)"
    using fill_slots_slot [OF assms(3,5)] by (intro nth_equalityI) (simp_all add: add.assoc)
  ultimately show ?thesis using mem by (simp add: read_memory_def received_def)
qed

lemma receive_result:
  assumes "batch_wf b" "receive_fits A"
    and "crossbyte_udp_batch_receive A socket (Some b) limit w = Some (Inr r, Some b', w')" "0 < r"
  obtains s n ds where "retry (recvmmsg A s n) interrupted w = Some (Ret ds, w')" "r = int (length ds)"
    "memory b \<noteq> None" "n \<le> nat (capacity b)"
    "b' = received ds (b\<lparr>count := 0, messages := reset_messages n (messages b)\<rparr>)"
  using assms
  by (auto simp: crossbyte_udp_batch_receive_def crossbyte_batch_of_def Let_def
      split: sum.splits if_splits option.splits sysret.splits)


definition two_waiting :: "bool recv_api" where
  "two_waiting =
     \<lparr>page_size = 4096, mmap_anonymous = \<lambda>n w. (True, w), munmap_at = \<lambda>n w. w,
      recvmmsg = \<lambda>s n w. (if w \<and> 2 \<le> n then Ret [([1, 2, 3], Sockaddr_in 5 6, 16), ([4], Sockaddr_in 7 8, 16)]
                          else Err EAGAIN, False)\<rparr>"


section \<open>A batch is safe to use at any time\<close>

lemma copy_safe:
  assumes "batch_wf b"
  shows "\<exists>res buffer'. crossbyte_udp_batch_copy (Some b) i buffer position = Some (res, buffer') \<and>
    length buffer' = length buffer"
proof (cases "crossbyte_batch_message (crossbyte_batch_of (Some b)) i")
  case (Inl m)
  then show ?thesis by (simp add: crossbyte_udp_batch_copy_def)
next
  case (Inr m)
  then have m: "memory b \<noteq> None" "0 \<le> i" "i < count b" "m = messages b ! nat i"
    by (auto simp: crossbyte_batch_message_def crossbyte_batch_of_def split: if_splits)
  then have len: "msg_len m \<le> BATCH_SLOT" using assms by (simp add: batch_wf_def nat_less_iff)
  have "Suc (nat i) * BATCH_SLOT \<le> nat (capacity b) * BATCH_SLOT"
    using m assms by (intro mult_le_mono1) (auto simp: batch_wf_def)
  then have "slots b + nat i * BATCH_SLOT + msg_len m \<le> mapped b"
    using len m(1) assms by (simp add: batch_wf_def)
  then obtain data where d: "read_memory b (slots b + nat i * BATCH_SLOT) (msg_len m) = Some data" "length data = msg_len m"
    using m(1) by (auto simp: read_memory_def)
  show ?thesis
    using Inr d by (auto simp: crossbyte_udp_batch_copy_def Let_def blit_def)
qed

lemma free_wf:
  "crossbyte_udp_batch_free A (Some b) w = (Some b', w') \<Longrightarrow> batch_wf b \<Longrightarrow> batch_wf b' \<and> memory b' = None"
  by (auto simp: crossbyte_udp_batch_free_def crossbyte_batch_of_def release_def batch_wf_def split: if_splits)



end
