(* ===== verification/Socket_Select.thy ===== *)
theory Socket_Select
  imports Socket_Transfer Complex_Main "HOL-Library.Sublist"
begin

text \<open>
  \<^verbatim>\<open>crossbyte_socket_select\<close> of \<^verbatim>\<open>_internal/net/NativeSocketAddress.cpp\<close>: \<^verbatim>\<open>select\<close> by way of \<^verbatim>\<open>poll\<close>. A double
  is a rational; \<open>double_product\<close> is the rounded product of the machine. hxcpp's own select, which the code falls
  back on, is a parameter.
\<close>

section \<open>Definitions\<close>

definition POLLIN :: u16 where "POLLIN = 1"
definition POLLPRI :: u16 where "POLLPRI = 2"
definition POLLOUT :: u16 where "POLLOUT = 4"
definition POLLERR :: u16 where "POLLERR = 8"
definition POLLHUP :: u16 where "POLLHUP = 16"
definition POLLNVAL :: u16 where "POLLNVAL = 32"

type_synonym sock_sets = "sock_value list \<times> sock_value list \<times> sock_value list"

record 'w poll_api =
  std_select :: "sock_value list option \<Rightarrow> sock_value list option \<Rightarrow> sock_value list option \<Rightarrow> rat option
      \<Rightarrow> 'w \<Rightarrow> sock_sets hx \<times> 'w"
  poll :: "(int \<times> u16) list \<Rightarrow> int \<Rightarrow> 'w \<Rightarrow> u16 list sysret \<times> 'w"
  errno_text :: "errno \<Rightarrow> string"
  double_product :: "rat \<Rightarrow> rat \<Rightarrow> rat"

definition set_of :: "sock_value list option \<Rightarrow> sock_value list" where
  "set_of s = (case s of None \<Rightarrow> [] | Some xs \<Rightarrow> xs)"

text \<open>The descriptors of one set, asked for one event.\<close>

fun poll_fds :: "u16 \<Rightarrow> sock_value list \<Rightarrow> (int \<times> u16) list hx" where
  "poll_fds event [] = Inr []"
| "poll_fds event (s # ss) =
     (case crossbyte_val_sock s of
        Inl m \<Rightarrow> Inl m
      | Inr fd \<Rightarrow>
          if fd = -1 then Inl ''Closed socket in select''
          else (case poll_fds event ss of Inl m \<Rightarrow> Inl m | Inr fds \<Rightarrow> Inr ((fd, event) # fds)))"

definition all_fds :: "sock_value list \<Rightarrow> sock_value list \<Rightarrow> sock_value list \<Rightarrow> (int \<times> u16) list hx" where
  "all_fds rs ws es =
     (case poll_fds POLLIN rs of
        Inl m \<Rightarrow> Inl m
      | Inr a \<Rightarrow> (case poll_fds POLLOUT ws of
          Inl m \<Rightarrow> Inl m
        | Inr b \<Rightarrow> (case poll_fds POLLPRI es of Inl m \<Rightarrow> Inl m | Inr c \<Rightarrow> Inr (a @ b @ c))))"

text \<open>A wait in whole milliseconds, rounded up; -1 for no limit.\<close>

definition poll_wait :: "(rat \<Rightarrow> rat \<Rightarrow> rat) \<Rightarrow> rat option \<Rightarrow> int" where
  "poll_wait product timeout =
     (case timeout of
        None \<Rightarrow> -1
      | Some seconds \<Rightarrow>
          let milliseconds = \<lceil>product seconds 1000\<rceil>
          in if seconds \<le> 0 then 0 else if milliseconds \<ge> INT_MAX then INT_MAX else milliseconds)"

definition is_ready :: "nat \<Rightarrow> u16 \<Rightarrow> bool" where
  "is_ready k got =
     (if k = 0 then got AND (POLLIN OR POLLHUP OR POLLERR) \<noteq> 0
      else if k = 1 then got AND (POLLOUT OR POLLHUP OR POLLERR) \<noteq> 0
      else got AND POLLPRI \<noteq> 0)"

text \<open>The ready sockets of set \<open>k\<close>, whose answers start at \<open>pos\<close>.\<close>

fun choose_ready :: "nat \<Rightarrow> string \<Rightarrow> u16 list \<Rightarrow> nat \<Rightarrow> sock_value list \<Rightarrow> sock_value list hx" where
  "choose_ready k bad revents pos [] = Inr []"
| "choose_ready k bad revents pos (s # ss) =
     (let got = revents ! pos
      in if got AND POLLNVAL \<noteq> 0 then Inl (''Select error '' @ bad)
         else (case choose_ready k bad revents (pos + 1) ss of
                 Inl m \<Rightarrow> Inl m
               | Inr chosen \<Rightarrow> Inr (if is_ready k got then s # chosen else chosen)))"

definition ready_sets ::
  "string \<Rightarrow> u16 list \<Rightarrow> sock_value list \<Rightarrow> sock_value list \<Rightarrow> sock_value list \<Rightarrow> sock_sets hx" where
  "ready_sets bad revents rs ws es =
     (case choose_ready 0 bad revents 0 rs of
        Inl m \<Rightarrow> Inl m
      | Inr a \<Rightarrow> (case choose_ready 1 bad revents (length rs) ws of
          Inl m \<Rightarrow> Inl m
        | Inr b \<Rightarrow> (case choose_ready 2 bad revents (length rs + length ws) es of
            Inl m \<Rightarrow> Inl m
          | Inr c \<Rightarrow> Inr (a, b, c))))"

definition crossbyte_socket_select ::
  "os \<Rightarrow> 'w poll_api \<Rightarrow> sock_value list option \<Rightarrow> sock_value list option \<Rightarrow> sock_value list option \<Rightarrow> rat option
    \<Rightarrow> 'w \<Rightarrow> (sock_sets hx \<times> 'w) option" where
  "crossbyte_socket_select os A rs ws es timeout w =
     (if os = Windows \<or> length (set_of rs) + length (set_of ws) + length (set_of es) = 0
      then Some (std_select A rs ws es timeout w)
      else (case all_fds (set_of rs) (set_of ws) (set_of es) of
              Inl m \<Rightarrow> Some (Inl m, w)
            | Inr fds \<Rightarrow>
                (case retry (poll A fds (poll_wait (double_product A) timeout)) interrupted w of
                   None \<Rightarrow> None
                 | Some (Err e, w) \<Rightarrow> Some (Inl (''Select error '' @ errno_text A e), w)
                 | Some (Ret revents, w) \<Rightarrow>
                     Some (ready_sets (errno_text A EBADF) revents (set_of rs) (set_of ws) (set_of es), w))))"

section \<open>The answer is select's\<close>

lemma choose_ready_spec:
  "choose_ready k bad revents pos ss = Inr chosen \<Longrightarrow>
     chosen = [ss ! i. i \<leftarrow> [0..<length ss], is_ready k (revents ! (pos + i))]"
proof (induction ss arbitrary: pos chosen)
  case (Cons s ss)
  let ?f = "\<lambda>xs a i. if is_ready k (revents ! (a + i)) then [xs ! i] else []"
  obtain rest where rest: "choose_ready k bad revents (pos + 1) ss = Inr rest"
    "chosen = (if is_ready k (revents ! pos) then s # rest else rest)"
    using Cons.prems by (auto simp: Let_def split: if_splits sum.splits)
  have "concat (map (?f (s # ss) pos) [0..<Suc (length ss)]) =
      ?f (s # ss) pos 0 @ concat (map (?f (s # ss) pos) (map Suc [0..<length ss]))"
    by (simp add: map_Suc_upt upt_conv_Cons del: upt_Suc)
  also have "\<dots> = ?f (s # ss) pos 0 @ concat (map (?f ss (pos + 1)) [0..<length ss])"
    by (simp add: o_def cong: if_cong)
  finally show ?case using Cons.IH [OF rest(1)] rest(2) by (simp del: upt_Suc)
qed simp

text \<open>The sockets of a set whose answers say so, in the order given.\<close>

definition ready_in :: "nat \<Rightarrow> u16 list \<Rightarrow> nat \<Rightarrow> sock_value list \<Rightarrow> sock_value list" where
  "ready_in k revents pos ss = [ss ! i. i \<leftarrow> [0..<length ss], is_ready k (revents ! (pos + i))]"

lemma ready_sets_spec:
  assumes "ready_sets bad revents rs ws es = Inr (a, b, c)"
  shows "a = ready_in 0 revents 0 rs \<and> b = ready_in 1 revents (length rs) ws \<and>
         c = ready_in 2 revents (length rs + length ws) es"
  using assms by (auto simp: ready_sets_def ready_in_def split: sum.splits dest!: choose_ready_spec)

lemma poll_fds_spec:
  "poll_fds event ss = Inr fds \<Longrightarrow>
     length fds = length ss \<and> (\<forall>i < length ss. crossbyte_val_sock (ss ! i) = Inr (fst (fds ! i)) \<and> snd (fds ! i) = event)"
proof (induction ss arbitrary: fds)
  case (Cons s ss)
  then show ?case by (auto simp: nth_Cons split: sum.splits if_splits nat.splits)
qed simp

text \<open>
  C14. \<open>crossbyte_socket_select\<close> answers as select does, past its limit on descriptors. With sockets to ask
  about, off Windows: one \<^verbatim>\<open>poll\<close> is asked about every socket of the three sets, in order, each for its
  own event; and each set of the answer is the sockets of that set whose own answer says ready, in the
  order given. Its wait is the time asked for rounded up to a millisecond and never more than \<open>INT_MAX\<close>.
\<close>

theorem select_answers:
  assumes "crossbyte_socket_select Posix A (Some rs) (Some ws) (Some es) timeout w = Some (Inr (a, b, c), w')"
    and "rs @ ws @ es \<noteq> []"
  shows "\<exists>fds revents v. poll A fds (poll_wait (double_product A) timeout) v = (Ret revents, w') \<and>
           length fds = length (rs @ ws @ es) \<and>
           (\<forall>i < length fds. crossbyte_val_sock ((rs @ ws @ es) ! i) = Inr (fst (fds ! i)) \<and>
              snd (fds ! i) = (if i < length rs then POLLIN else if i < length rs + length ws then POLLOUT else POLLPRI)) \<and>
           a = ready_in 0 revents 0 rs \<and> b = ready_in 1 revents (length rs) ws \<and>
           c = ready_in 2 revents (length rs + length ws) es \<and>
           (\<forall>t. timeout = Some t \<and> 0 < t \<longrightarrow>
              poll_wait (double_product A) timeout = min INT_MAX \<lceil>double_product A t 1000\<rceil>)"
proof -
  obtain fds where fds: "all_fds rs ws es = Inr fds"
    using assms by (auto simp: crossbyte_socket_select_def set_of_def split: sum.splits)
  obtain x y z where xyz: "poll_fds POLLIN rs = Inr x" "poll_fds POLLOUT ws = Inr y" "poll_fds POLLPRI es = Inr z"
    "fds = x @ y @ z"
    using fds by (auto simp: all_fds_def split: sum.splits)
  obtain revents where rv: "retry (poll A fds (poll_wait (double_product A) timeout)) interrupted w = Some (Ret revents, w')"
    and sets: "ready_sets (errno_text A EBADF) revents rs ws es = Inr (a, b, c)"
    using assms fds by (auto simp: crossbyte_socket_select_def set_of_def split: option.splits sysret.splits)
  obtain v where "poll A fds (poll_wait (double_product A) timeout) v = (Ret revents, w')"
    using retry_invariant [OF rv, of "\<lambda>_. True"] by auto
  moreover have "\<forall>i < length fds. crossbyte_val_sock ((rs @ ws @ es) ! i) = Inr (fst (fds ! i)) \<and>
      snd (fds ! i) = (if i < length rs then POLLIN else if i < length rs + length ws then POLLOUT else POLLPRI)"
    using poll_fds_spec [OF xyz(1)] poll_fds_spec [OF xyz(2)] poll_fds_spec [OF xyz(3)] xyz(4)
    by (auto simp: nth_append)
  moreover have "\<forall>t. timeout = Some t \<and> 0 < t \<longrightarrow>
      poll_wait (double_product A) timeout = min INT_MAX \<lceil>double_product A t 1000\<rceil>"
    by (auto simp: poll_wait_def Let_def min_def simp del: ceiling_le_numeral numeral_le_ceiling)
  ultimately show ?thesis
    using ready_sets_spec [OF sets] poll_fds_spec [OF xyz(1)] poll_fds_spec [OF xyz(2)] poll_fds_spec [OF xyz(3)] xyz(4)
    by (intro exI [of _ fds] exI [of _ revents] exI [of _ v]) simp
qed

definition sample_poll :: "nat poll_api" where
  "sample_poll =
     \<lparr>std_select = \<lambda>r x e t w. (Inl [], w),
      poll = \<lambda>fds wait w. (Ret (map (\<lambda>(fd, ev). if fd = 7 then ev OR POLLHUP else 0) fds), w + nat wait),
      errno_text = \<lambda>e. ''9'', double_product = \<lambda>a b. a * b\<rparr>"

theorem select_answers_witness:
  "crossbyte_socket_select Posix sample_poll (Some [SWrapper 5, SWrapper 7]) (Some [SWrapper 7]) (Some []) (Some (1 / 3)) 0
     = Some (Inr ([SWrapper 7], [SWrapper 7], []), 334) \<and>
   (\<exists>fds revents v. poll sample_poll fds 334 v = (Ret revents, 334) \<and> length fds = 3)"
proof -
  have wait: "poll_wait (double_product sample_poll) (Some (1 / 3)) = 334"
    by (simp add: poll_wait_def sample_poll_def Let_def ceiling_unique)
  have s: "crossbyte_socket_select Posix sample_poll (Some [SWrapper 5, SWrapper 7]) (Some [SWrapper 7]) (Some []) (Some (1 / 3)) 0
     = Some (Inr ([SWrapper 7], [SWrapper 7], []), 334)"
    unfolding crossbyte_socket_select_def wait
    by (simp add: set_of_def all_fds_def crossbyte_val_sock_def retry_done sample_poll_def ready_sets_def is_ready_def Let_def
        POLLIN_def POLLOUT_def POLLHUP_def POLLERR_def POLLNVAL_def)
  then show ?thesis
    using select_answers [OF s] wait by (auto simp: eval_nat_numeral)
qed

end
