(* ===== verification/Pg_Wire.thy ===== *)
theory Pg_Wire
  imports Prelude "HOL-Library.Monad_Syntax"
begin

text \<open>
  What both blocks of the PostgreSQL bridge are made of, on its C++ side
  (\<^verbatim>\<open>db/postgres/_internal/NativePostgres.cpp\<close>) and its Haxe side (\<^verbatim>\<open>PostgresWire.hx\<close>): little-endian
  integers, a block being written, the bounds-checked cursor of the decoder. A C++ access outside its block
  is \<open>None\<close>, a Haxe one \<open>Outside\<close>. \<open>emits\<close> says what a writer writes and \<open>reads\<close> what a reader gets back
  from it; both compose field by field.
\<close>

section \<open>Integers\<close>

definition to_bytes :: "string \<Rightarrow> bytes" where
  "to_bytes s = map of_char s"

definition le_bytes :: "u32 \<Rightarrow> bytes" where
  "le_bytes v = [ucast v, ucast (drop_bit 8 v), ucast (drop_bit 16 v), ucast (drop_bit 24 v)]"

text \<open>A block being written and the place of the next write.\<close>

type_synonym writer = "bytes \<times> nat"

definition put :: "bytes \<Rightarrow> writer \<Rightarrow> writer option" where
  "put data out = (case out of (block, p) \<Rightarrow> map_option (\<lambda>block. (block, p + length data)) (blit block p data))"

definition putInt :: "int \<Rightarrow> writer \<Rightarrow> writer option" where
  "putInt v out = put (le_bytes (of_int v)) out"

definition putUInt :: "u32 \<Rightarrow> writer \<Rightarrow> writer option" where
  "putUInt v out = put (le_bytes v) out"

text \<open>Of \<open>data\<close>, null as \<open>None\<close>, the first \<open>len\<close> bytes.\<close>

definition putBytes :: "bytes option \<Rightarrow> int \<Rightarrow> writer \<Rightarrow> writer option" where
  "putBytes data len out =
     (case out of (block, p) \<Rightarrow>
        if len > 0
        then (case data of
                None \<Rightarrow> Some (block, p + nat len)
              | Some bs \<Rightarrow> if nat len \<le> length bs then put (take (nat len) bs) out else None)
        else Some (block, p))"

fun put_all :: "('a \<Rightarrow> writer \<Rightarrow> writer option) \<Rightarrow> 'a list \<Rightarrow> writer \<Rightarrow> writer option" where
  "put_all f [] out = Some out"
| "put_all f (x # xs) out = do { out \<leftarrow> f x out; put_all f xs out }"

definition le_value :: "bytes \<Rightarrow> u32" where
  "le_value bs =
     ucast (bs ! 0) OR push_bit 8 (ucast (bs ! 1)) OR push_bit 16 (ucast (bs ! 2)) OR push_bit 24 (ucast (bs ! 3))"

definition read_at :: "bytes \<Rightarrow> nat \<Rightarrow> nat \<Rightarrow> bytes option" where
  "read_at data p n = (if p + n \<le> length data then Some (slice p n data) else None)"

text \<open>\<open>Some None\<close> when the block is too short: the value and the cursor are left alone.\<close>

definition takeInt :: "bytes \<Rightarrow> int \<Rightarrow> int \<Rightarrow> (int \<times> int) option option" where
  "takeInt data len cursor =
     (if cursor < 0 \<or> len - cursor < 4 then Some None
      else map_option (\<lambda>bs. Some (sint (le_value bs), cursor + 4)) (read_at data (nat cursor) 4))"

definition writeInt :: "int \<Rightarrow> bytes" where
  "writeInt v = le_bytes (of_int v)"

section \<open>The reading cursor\<close>

datatype sql_error = SQLError string string string

text \<open>A read of the cursor: a value and the position after it, a throw, or an access past the block.\<close>

datatype 'a read = Value 'a nat | Thrown sql_error | Outside

type_synonym 'a reader = "bytes \<Rightarrow> nat \<Rightarrow> 'a read"

fun and_then :: "'a reader \<Rightarrow> ('a \<Rightarrow> 'b reader) \<Rightarrow> 'b reader" where
  "and_then rd k data p =
     (case rd data p of Value x p \<Rightarrow> k x data p | Thrown e \<Rightarrow> Thrown e | Outside \<Rightarrow> Outside)"

declare and_then.simps [simp del]

definition int_text :: "int \<Rightarrow> string" where
  "int_text n = (if n < 0 then ''-'' @ decimal (nat (- n)) else decimal (nat n))"

definition bridge_error :: "string \<Rightarrow> string \<Rightarrow> sql_error" where
  "bridge_error details message = SQLError ''request'' details message"

definition sub_required :: "int \<Rightarrow> bytes reader" where
  "sub_required count data p =
     (if count > int (length data) - int p
      then Thrown (bridge_error (''need='' @ int_text count @ '' at='' @ int_text (int p) @ '' of='' @ int_text (int (length data)))
                     ''Postgres bridge returned a truncated result block.'')
      else case read_at data p (nat count) of None \<Rightarrow> Outside | Some bs \<Rightarrow> Value bs (p + nat count))"

definition yield :: "'a \<Rightarrow> 'a reader" where
  "yield x data p = Value x p"

definition throw :: "sql_error \<Rightarrow> 'a reader" where
  "throw e data p = Thrown e"

definition readInt :: "int reader" where
  "readInt = and_then (sub_required 4) (\<lambda>bs. yield (sint (le_value bs)))"

text \<open>A Haxe \<open>Float\<close> that holds a whole number is that number.\<close>

definition readUInt :: "nat reader" where
  "readUInt = and_then readInt (\<lambda>value. yield (nat (if value < 0 then value + 4294967296 else value)))"

definition readBytes :: "int \<Rightarrow> bytes reader" where
  "readBytes len =
     (if len < 0 then throw (bridge_error (''length='' @ int_text len) ''Postgres bridge sent a negative length.'')
      else sub_required len)"

definition text_of :: "bytes \<Rightarrow> string" where
  "text_of bs = map (\<lambda>b. char_of (unat b)) bs"

definition readString :: "int \<Rightarrow> string reader" where
  "readString len = and_then (readBytes len) (\<lambda>bs. yield (text_of bs))"

fun read_times :: "nat \<Rightarrow> 'a reader \<Rightarrow> 'a list reader" where
  "read_times 0 rd = yield []"
| "read_times (Suc n) rd = and_then rd (\<lambda>x. and_then (read_times n rd) (\<lambda>xs. yield (x # xs)))"

section \<open>What writers write and readers read\<close>

named_theorems emits_intros \<open>what a writer writes\<close>
named_theorems reads_intros \<open>what a reader reads back\<close>

definition emits :: "(writer \<Rightarrow> writer option) \<Rightarrow> bytes \<Rightarrow> bool" where
  "emits f bs \<longleftrightarrow>
     (\<forall>block p. p + length bs \<le> length block \<longrightarrow>
        f (block, p) = Some (take p block @ bs @ drop (p + length bs) block, p + length bs))"

definition reads :: "'a reader \<Rightarrow> bytes \<Rightarrow> 'a \<Rightarrow> bool" where
  "reads rd bs x \<longleftrightarrow>
     (\<forall>pre post. rd (pre @ bs @ post) (length pre) = Value x (length pre + length bs))"

lemma emits_all: "emits f bs \<Longrightarrow> f (replicate (length bs) 0, 0) = Some (bs, length bs)"
  by (simp add: emits_def)

lemma emits_put [emits_intros]: "emits (put bs) bs"
  by (simp add: emits_def put_def blit_def)

lemma emits_bind [emits_intros]:
  assumes "emits f xs" and "emits g ys"
  shows "emits (\<lambda>out. do { out \<leftarrow> f out; g out }) (xs @ ys)"
  unfolding emits_def
proof (intro allI impI)
  fix block :: bytes and p
  assume le: "p + length (xs @ ys) \<le> length block"
  let ?b = "take p block @ xs @ drop (p + length xs) block"
  have "f (block, p) = Some (?b, p + length xs)"
    using assms(1) le by (simp add: emits_def)
  moreover have "g (?b, p + length xs) = Some (take (p + length xs) ?b @ ys @ drop (p + length xs + length ys) ?b, p + length xs + length ys)"
    using assms(2) le by (simp add: emits_def)
  moreover have "take (p + length xs) ?b = take p block @ xs" using le by simp
  moreover have "drop (p + length xs + length ys) ?b = drop (p + length (xs @ ys)) block"
    using le by (simp add: add.commute add.left_commute)
  ultimately show "do { out \<leftarrow> f (block, p); g out } =
      Some (take p block @ (xs @ ys) @ drop (p + length (xs @ ys)) block, p + length (xs @ ys))"
    by simp
qed

lemma emits_putInt [emits_intros]: "emits (putInt v) (writeInt v)"
  unfolding putInt_def [abs_def] writeInt_def by (rule emits_put)

lemma emits_putUInt [emits_intros]: "emits (putUInt v) (le_bytes v)"
  unfolding putUInt_def [abs_def] by (rule emits_put)

lemma emits_putBytes [emits_intros]:
  "\<lbrakk>0 < len \<Longrightarrow> data = Some bs \<and> nat len \<le> length bs\<rbrakk> \<Longrightarrow> emits (putBytes data len) (take (nat len) bs)"
  by (auto simp: emits_def putBytes_def put_def blit_def)

lemma length_le_bytes [simp]: "length (le_bytes v) = 4"
  by (simp add: le_bytes_def)

lemma length_writeInt [simp]: "length (writeInt v) = 4"
  by (simp add: writeInt_def)

lemma le_value_bytes [simp]: "le_value (le_bytes v) = v"
proof (rule bit_word_eqI)
  fix n
  assume "n < LENGTH(32)"
  then have n: "n < 32" by simp
  have b: "le_bytes v ! 0 = ucast v" "le_bytes v ! 1 = ucast (drop_bit 8 v)"
    "le_bytes v ! 2 = ucast (drop_bit 16 v)" "le_bytes v ! 3 = ucast (drop_bit 24 v)"
    by (simp_all add: le_bytes_def)
  show "bit (le_value (le_bytes v)) n = bit v n"
    unfolding le_value_def b using n
    by (cases "n < 8"; cases "n < 16"; cases "n < 24")
       (simp_all add: bit_or_iff bit_push_bit_iff bit_ucast_iff bit_drop_bit_eq less_diff_conv2 del: One_nat_def)
qed

lemma sint_of_int32 [simp]: "\<lbrakk>- 2147483648 \<le> v; v \<le> 2147483647\<rbrakk> \<Longrightarrow> sint (of_int v :: u32) = v"
  by (simp add: signed_of_int signed_take_bit_int_eq_self)

text \<open>Integers that fit 32 bits.\<close>

definition int32 :: "int \<Rightarrow> bool" where
  "int32 v \<longleftrightarrow> - 2147483648 \<le> v \<and> v \<le> 2147483647"

lemma slice_mid [simp]: "slice (length pre) (length bs) (pre @ bs @ post) = bs"
  by (simp add: slice_def)

lemma read_at_mid: "n = length bs \<Longrightarrow> read_at (pre @ bs @ post) (length pre) n = Some bs"
  by (simp add: read_at_def)

lemma takeInt_mid:
  assumes "int32 v" and "int (length (pre @ writeInt v)) \<le> len"
  shows "takeInt (pre @ writeInt v @ post) len (int (length pre)) = Some (Some (v, int (length pre) + 4))"
  using assms read_at_mid [of 4 "writeInt v" pre post]
  by (simp add: takeInt_def int32_def) (simp add: writeInt_def)

lemma takeInt_safe: "len \<le> int (length block) \<Longrightarrow> takeInt block len cursor \<noteq> None"
  by (auto simp: takeInt_def read_at_def)

lemma reads_yield [reads_intros]: "reads (yield x) [] x"
  by (simp add: reads_def yield_def)

lemma reads_and_then [reads_intros]:
  assumes "reads rd xs x" and "reads (k x) ys y"
  shows "reads (and_then rd k) (xs @ ys) y"
  unfolding reads_def
proof (intro allI)
  fix pre post
  have "rd (pre @ (xs @ ys) @ post) (length pre) = Value x (length (pre @ xs))"
    using assms(1) [unfolded reads_def, rule_format, of pre "ys @ post"] by simp
  moreover have "k x (pre @ (xs @ ys) @ post) (length (pre @ xs)) = Value y (length (pre @ xs) + length ys)"
    using assms(2) [unfolded reads_def, rule_format, of "pre @ xs" post] by simp
  ultimately show "and_then rd k (pre @ (xs @ ys) @ post) (length pre) = Value y (length pre + length (xs @ ys))"
    by (simp add: and_then.simps)
qed

lemma reads_map: "\<lbrakk>reads rd xs x; k x = yield y\<rbrakk> \<Longrightarrow> reads (and_then rd k) xs y"
  using reads_and_then [of rd xs x k "[]" y] reads_yield [of y] by simp

lemma reads_sub [reads_intros]: "n = int (length bs) \<Longrightarrow> reads (sub_required n) bs bs"
  by (simp add: reads_def sub_required_def read_at_mid)

lemma reads_readInt [reads_intros]: "int32 v \<Longrightarrow> reads readInt (writeInt v) v"
  unfolding readInt_def by (rule reads_map, rule reads_sub) (simp_all add: writeInt_def int32_def)

lemma unat_from_sint: "nat (if sint (w :: u32) < 0 then sint w + 4294967296 else sint w) = unat w"
proof -
  have b: "- 2147483648 \<le> sint w" "sint w < 2147483648" using sint_ge [of w] sint_lt [of w] by simp_all
  have m: "uint w = sint w mod 4294967296"
    using uint_sint [of w] take_bit_eq_mod [of 32 "sint w"] by simp
  have "x mod 4294967296 = (if x < 0 then x + 4294967296 else x)" if "- 2147483648 \<le> x" "x < 2147483648" for x :: int
    using that mod_pos_pos_trivial [of "x + 4294967296" 4294967296] by auto
  from this [OF b] m show ?thesis by (simp only: unat_eq_nat_uint)
qed

lemma reads_readUInt [reads_intros]: "reads readUInt (le_bytes w) (unat w)"
proof -
  have "reads readInt (le_bytes w) (sint w)"
    unfolding readInt_def by (rule reads_map, rule reads_sub) simp_all
  then show ?thesis unfolding readUInt_def by (rule reads_map) (simp only: unat_from_sint)
qed

lemma reads_readBytes [reads_intros]: "n = int (length bs) \<Longrightarrow> reads (readBytes n) bs bs"
  by (simp add: readBytes_def reads_sub)

lemma reads_readString [reads_intros]: "n = int (length bs) \<Longrightarrow> reads (readString n) bs (text_of bs)"
  unfolding readString_def by (rule reads_map, rule reads_readBytes) simp_all

text \<open>A field that is written once for each index, and read once for each.\<close>

locale wire_field =
  fixes emit :: "'i \<Rightarrow> writer \<Rightarrow> writer option"
    and enc :: "'i \<Rightarrow> bytes"
    and rd :: "'a reader"
    and val :: "'i \<Rightarrow> 'a"
    and ok :: "'i \<Rightarrow> bool"
  assumes written: "ok i \<Longrightarrow> emits (emit i) (enc i)"
    and read_back: "ok i \<Longrightarrow> reads rd (enc i) (val i)"
begin

lemma all_written: "list_all ok js \<Longrightarrow> emits (put_all emit js) (concat (map enc js))"
proof (induction js)
  case Nil
  then show ?case by (simp add: emits_def)
next
  case (Cons i js)
  then show ?case using emits_bind [OF written [of i], of "put_all emit js"] by simp
qed

lemma all_read: "list_all ok js \<Longrightarrow> reads (read_times (length js) rd) (concat (map enc js)) (map val js)"
proof (induction js)
  case Nil
  then show ?case by (simp add: reads_yield)
next
  case (Cons i js)
  have "reads (and_then (read_times (length js) rd) (\<lambda>xs. yield (val i # xs))) (concat (map enc js)) (val i # map val js)"
    using Cons by (auto intro: reads_map)
  from reads_and_then [OF read_back [of i], of "\<lambda>x. and_then (read_times (length js) rd) (\<lambda>xs. yield (x # xs))", OF _ this]
  show ?case using Cons.prems by simp
qed

end

section \<open>Reading any block\<close>

text \<open>A reader that never leaves the block, whatever the block holds, and takes at least \<open>k\<close> bytes.\<close>

named_theorems safe_intros \<open>readers that stay in the block\<close>

definition safe_reader :: "nat \<Rightarrow> 'a reader \<Rightarrow> bool" where
  "safe_reader k rd \<longleftrightarrow>
     (\<forall>data p. p \<le> length data \<longrightarrow>
        (case rd data p of Value x q \<Rightarrow> p + k \<le> q \<and> q \<le> length data | Thrown e \<Rightarrow> True | Outside \<Rightarrow> False))"

lemma safe_yield [safe_intros]: "safe_reader 0 (yield x)"
  by (simp add: safe_reader_def yield_def)

lemma safe_throw [safe_intros]: "safe_reader k (throw e)"
  by (simp add: safe_reader_def throw_def)

lemma safe_sub [safe_intros]: "safe_reader (nat n) (sub_required n)"
  by (auto simp: safe_reader_def sub_required_def read_at_def)

lemma safe_if [safe_intros]: "\<lbrakk>c \<Longrightarrow> safe_reader k f; \<not> c \<Longrightarrow> safe_reader k g\<rbrakk> \<Longrightarrow> safe_reader k (if c then f else g)"
  by simp

lemma safe_and_then:
  assumes "safe_reader k rd" and "\<And>x. safe_reader m (f x)"
  shows "safe_reader (k + m) (and_then rd f)"
  unfolding safe_reader_def
proof (intro allI impI)
  fix data :: bytes and p
  assume p: "p \<le> length data"
  show "case and_then rd f data p of Value x q \<Rightarrow> p + (k + m) \<le> q \<and> q \<le> length data | Thrown e \<Rightarrow> True | Outside \<Rightarrow> False"
  proof (cases "rd data p")
    case (Value x q)
    with assms(1) p have "p + k \<le> q" "q \<le> length data" by (auto simp: safe_reader_def split: read.splits)
    moreover have "case f x data q of Value y r \<Rightarrow> q + m \<le> r \<and> r \<le> length data | Thrown e \<Rightarrow> True | Outside \<Rightarrow> False"
      using assms(2) [of x] \<open>q \<le> length data\<close> by (simp add: safe_reader_def)
    ultimately show ?thesis using Value by (auto simp: and_then.simps split: read.splits)
  qed (use assms(1) p in \<open>auto simp: and_then.simps safe_reader_def split: read.splits\<close>)
qed

lemma safe_weaken: "\<lbrakk>safe_reader k rd; m \<le> k\<rbrakk> \<Longrightarrow> safe_reader m rd"
  by (fastforce simp: safe_reader_def split: read.splits)

text \<open>The bytes taken counted at the first read only.\<close>

lemma safe_then [safe_intros]:
  "\<lbrakk>safe_reader k rd; \<And>x. safe_reader 0 (f x)\<rbrakk> \<Longrightarrow> safe_reader k (and_then rd f)"
  using safe_and_then [of k rd 0 f] by simp

lemma safe_readInt [safe_intros]: "safe_reader 4 readInt"
  using safe_then [OF safe_sub [of 4] safe_yield] by (simp add: readInt_def)

lemma safe_readUInt [safe_intros]: "safe_reader 4 readUInt"
  unfolding readUInt_def by (intro safe_intros)

lemma safe_readBytes [safe_intros]: "safe_reader 0 (readBytes n)"
  unfolding readBytes_def by (intro safe_if safe_throw safe_weaken [OF safe_sub]) simp

lemma safe_readString [safe_intros]: "safe_reader 0 (readString n)"
  unfolding readString_def by (intro safe_intros)

lemma safe_times:
  assumes "safe_reader k rd"
  shows "safe_reader (n * k) (read_times n rd)"
proof (induction n)
  case 0
  then show ?case by (simp add: safe_yield)
next
  case (Suc n)
  from safe_and_then [OF assms safe_then [OF Suc safe_yield]] show ?case by simp
qed

lemma read_timesD:
  "read_times n rd data p = Value xs q \<Longrightarrow> length xs = n"
  by (induction n arbitrary: p xs q) (auto simp: yield_def and_then.simps split: read.splits)

lemma read_times_each:
  assumes "read_times n rd data p = Value xs q" and "x \<in> set xs"
  shows "\<exists>p' q'. rd data p' = Value x q'"
  using assms by (induction n arbitrary: p xs q) (fastforce simp: yield_def and_then.simps split: read.splits)+

end
