(* ===== verification/Pg_Parameters.thy ===== *)
theory Pg_Parameters
  imports Pg_Wire
begin

text \<open>
  Parameter blocks: written by \<open>PostgresWire.encodeParameters\<close>, read by \<open>parseParameters\<close> of
  \<^verbatim>\<open>NativePostgres.cpp\<close>.
\<close>

section \<open>Parameter blocks, written\<close>

text \<open>
  A Haxe string is the list of the bytes of its UTF-8 form, as C strings are; null is \<open>None\<close>.
\<close>

datatype PostgresParameter = Null | Text "string option" | Binary "bytes option"

definition FORMAT_TEXT :: int where "FORMAT_TEXT = 0"
definition FORMAT_BINARY :: int where "FORMAT_BINARY = 1"

fun encode_parameter :: "PostgresParameter \<Rightarrow> bytes" where
  "encode_parameter Null = writeInt FORMAT_TEXT @ writeInt (- 1)"
| "encode_parameter (Text value) =
     (let bs = (case value of None \<Rightarrow> [] | Some s \<Rightarrow> to_bytes s)
      in writeInt FORMAT_TEXT @ writeInt (int (length bs)) @ bs)"
| "encode_parameter (Binary value) =
     (let bs = (case value of None \<Rightarrow> [] | Some s \<Rightarrow> s)
      in writeInt FORMAT_BINARY @ writeInt (int (length bs)) @ bs)"

definition encodeParameters :: "PostgresParameter list option \<Rightarrow> bytes" where
  "encodeParameters params =
     (let ps = (case params of None \<Rightarrow> [] | Some ps \<Rightarrow> ps)
      in writeInt (int (length ps)) @ concat (map encode_parameter ps))"

section \<open>Parameter blocks, read\<close>

text \<open>
  \<open>Parameters\<close>. A pointer into the arena is an offset, null is \<open>None\<close>. \<open>reserve\<close> only sets room
  aside and is left out. A read outside the caller's block is \<open>None\<close>, a refusal \<open>Some (Inl error)\<close>.
\<close>

record parameters =
  arena :: bytes
  offsets :: "nat list"
  lengths :: "int list"
  formats :: "int list"
  vals :: "nat option list"

type_synonym parsing = "(string + parameters) option"

definition truncated_block :: parsing where
  "truncated_block = Some (Inl ''Truncated parameter block.'')"

definition malformed_block :: parsing where
  "malformed_block = Some (Inl ''Malformed parameter block.'')"

text \<open>\<^verbatim>\<open>Pointers last\<close>: the second loop.\<close>

definition set_values :: "nat \<Rightarrow> bool list \<Rightarrow> parameters \<Rightarrow> parameters" where
  "set_values count isNull out =
     fold (\<lambda>i out. if isNull ! i then out else out\<lparr>vals := (vals out)[i := Some (offsets out ! i)]\<rparr>) [0..<count] out"

function param_loop :: "bytes \<Rightarrow> int \<Rightarrow> nat \<Rightarrow> nat \<Rightarrow> int \<Rightarrow> bool list \<Rightarrow> parameters \<Rightarrow> parsing" where
  "param_loop block len count i cursor isNull out =
     (if i < count
      then (case takeInt block len cursor of
              None \<Rightarrow> None
            | Some None \<Rightarrow> truncated_block
            | Some (Some (format, cursor)) \<Rightarrow>
                (case takeInt block len cursor of
                   None \<Rightarrow> None
                 | Some None \<Rightarrow> truncated_block
                 | Some (Some (valueLength, cursor)) \<Rightarrow>
                     let out = out\<lparr>formats := (formats out)[i := (if format = 1 then 1 else 0)]\<rparr>
                     in if valueLength < 0
                        then param_loop block len count (Suc i) cursor (isNull[i := True]) out
                        else if valueLength > len - cursor then truncated_block
                        else (case read_at block (nat cursor) (nat valueLength) of
                                None \<Rightarrow> None
                              | Some bs \<Rightarrow>
                                  param_loop block len count (Suc i) (cursor + valueLength) isNull
                                    (out\<lparr>offsets := (offsets out)[i := length (arena out)],
                                         arena := arena out @ bs @ [0],
                                         lengths := (lengths out)[i := valueLength]\<rparr>))))
      else Some (Inr (set_values count isNull out)))"
  by pat_completeness auto
termination by (relation "measure (\<lambda>(_, _, count, i, _). count - i)") auto

declare param_loop.simps [simp del]

definition parseParameters :: "bytes option \<Rightarrow> int \<Rightarrow> parsing" where
  "parseParameters blk len =
     (case blk of
        None \<Rightarrow> malformed_block
      | Some block \<Rightarrow>
          (case takeInt block len 0 of
             None \<Rightarrow> None
           | Some None \<Rightarrow> malformed_block
           | Some (Some (count, cursor)) \<Rightarrow>
               if count < 0 then malformed_block
               else if count > (len - cursor) div 8 then truncated_block
               else let n = nat count
                    in param_loop block len n 0 cursor (replicate n False)
                         \<lparr>arena = [], offsets = replicate n 0, lengths = replicate n 0,
                          formats = replicate n 0, vals = replicate n None\<rparr>))"

section \<open>What the vectors hold\<close>

text \<open>
  A format and a value, null as \<open>None\<close>, as the loop left them at an index: the value's bytes are in the
  arena with a NUL after them.
\<close>

fun held :: "parameters \<Rightarrow> bool list \<Rightarrow> nat \<Rightarrow> int \<times> bytes option \<Rightarrow> bool" where
  "held out isNull j (f, None) \<longleftrightarrow> formats out ! j = f \<and> isNull ! j"
| "held out isNull j (f, Some bs) \<longleftrightarrow>
     formats out ! j = f \<and> \<not> isNull ! j \<and> lengths out ! j = int (length bs)
     \<and> slice (offsets out ! j) (Suc (length bs)) (arena out) = bs @ [0]"

definition loop_inv :: "nat \<Rightarrow> (int \<times> bytes option) list \<Rightarrow> bool list \<Rightarrow> parameters \<Rightarrow> bool" where
  "loop_inv count vs isNull out \<longleftrightarrow>
     length isNull = count \<and> length (offsets out) = count \<and> length (lengths out) = count
     \<and> length (formats out) = count \<and> vals out = replicate count None
     \<and> (\<forall>j<count. length vs \<le> j \<longrightarrow> \<not> isNull ! j)
     \<and> (\<forall>j<length vs. held out isNull j (vs ! j))"

lemma slice_append: "length (slice o' n xs) = n \<Longrightarrow> slice o' n (xs @ ys) = slice o' n xs"
  by (auto simp: slice_def)

lemma held_cong:
  assumes "held out isNull j fv"
    and "formats out' ! j = formats out ! j" "isNull' ! j = isNull ! j" "lengths out' ! j = lengths out ! j"
      "offsets out' ! j = offsets out ! j" "arena out' = arena out @ tail"
  shows "held out' isNull' j fv"
proof (cases "(out, isNull, j, fv)" rule: held.cases)
  case (1 o1 n1 j1 f)
  with assms show ?thesis by simp
next
  case (2 o1 n1 j1 f bs)
  with assms have "slice (offsets out ! j) (Suc (length bs)) (arena out) = bs @ [0]" by simp
  then have "slice (offsets out ! j) (Suc (length bs)) (arena out @ tail) = bs @ [0]"
    by (subst slice_append) simp_all
  with 2 assms show ?thesis by simp
qed

lemma loop_inv_null:
  assumes "loop_inv count vs isNull out" and "length vs < count"
  shows "loop_inv count (vs @ [(f, None)]) (isNull[length vs := True])
           (out\<lparr>formats := (formats out)[length vs := f]\<rparr>)"
proof -
  have "held (out\<lparr>formats := (formats out)[length vs := f]\<rparr>) (isNull[length vs := True]) j (vs ! j)"
    if "j < length vs" for j
    by (rule held_cong [where out = out and isNull = isNull and tail = "[]"]) (use that assms in \<open>simp_all add: loop_inv_def\<close>)
  then show ?thesis using assms by (auto simp: loop_inv_def nth_append less_Suc_eq)
qed

lemma loop_inv_value:
  assumes "loop_inv count vs isNull out" and "length vs < count"
  shows "loop_inv count (vs @ [(f, Some bs)]) isNull
           (out\<lparr>formats := (formats out)[length vs := f], offsets := (offsets out)[length vs := length (arena out)],
                arena := arena out @ bs @ [0], lengths := (lengths out)[length vs := int (length bs)]\<rparr>)"
    (is "loop_inv _ _ _ ?out")
proof -
  have "held ?out isNull j (vs ! j)" if "j < length vs" for j
    by (rule held_cong [where out = out and isNull = isNull and tail = "bs @ [0]"]) (use that assms in \<open>simp_all add: loop_inv_def\<close>)
  moreover have "held ?out isNull (length vs) (f, Some bs)"
    using assms by (simp add: loop_inv_def slice_def)
  ultimately show ?thesis using assms by (auto simp: loop_inv_def nth_append less_Suc_eq)
qed

lemma set_values_eq:
  assumes "n \<le> length (vals out)" and "n \<le> length isNull"
  shows "fold (\<lambda>i out. if isNull ! i then out else out\<lparr>vals := (vals out)[i := Some (offsets out ! i)]\<rparr>) [0..<n] out
    = out\<lparr>vals := map (\<lambda>i. if isNull ! i then vals out ! i else Some (offsets out ! i)) [0..<n] @ drop n (vals out)\<rparr>"
  using assms
proof (induction n)
  case 0
  then show ?case by simp
next
  case (Suc n)
  define rest where "rest = drop (Suc n) (vals out)"
  have d: "drop n (vals out) = vals out ! n # rest"
    unfolding rest_def using Suc.prems by (intro Cons_nth_drop_Suc [symmetric]) simp
  show ?case using Suc unfolding rest_def [symmetric] d
    by (cases "isNull ! n") (simp_all add: list_update_append)
qed

lemma set_values_fields:
  assumes "loop_inv count vs isNull out"
  shows "set_values count isNull out =
    out\<lparr>vals := map (\<lambda>i. if isNull ! i then None else Some (offsets out ! i)) [0..<count]\<rparr>"
proof -
  have "map (\<lambda>i. if isNull ! i then vals out ! i else Some (offsets out ! i)) [0..<count] =
        map (\<lambda>i. if isNull ! i then None else Some (offsets out ! i)) [0..<count]"
    using assms by (simp add: loop_inv_def)
  moreover have "set_values count isNull out =
      out\<lparr>vals := map (\<lambda>i. if isNull ! i then vals out ! i else Some (offsets out ! i)) [0..<count] @ drop count (vals out)\<rparr>"
    unfolding set_values_def by (rule set_values_eq) (use assms in \<open>simp_all add: loop_inv_def\<close>)
  moreover have "drop count (vals out) = []" using assms by (simp add: loop_inv_def)
  ultimately show ?thesis by (simp only: append_Nil2)
qed

section \<open>The loop on any block\<close>

lemma takeInt_advances: "takeInt block len cursor = Some (Some (v, cursor')) \<Longrightarrow> cursor' = cursor + 4 \<and> cursor' \<le> len"
  by (auto simp: takeInt_def split: if_splits)

lemma param_loop_null:
  assumes "i < count" and "takeInt block len cursor = Some (Some (format, c1))"
    and "takeInt block len c1 = Some (Some (v, c2))" and "v < 0" and "f = (if format = 1 then 1 else 0)"
  shows "param_loop block len count i cursor isNull out =
    param_loop block len count (Suc i) c2 (isNull[i := True]) (out\<lparr>formats := (formats out)[i := f]\<rparr>)"
  using assms by (simp add: param_loop.simps [of block len count i cursor] Let_def)

lemma param_loop_value:
  assumes "i < count" and "takeInt block len cursor = Some (Some (format, c1))"
    and "takeInt block len c1 = Some (Some (int (length bs), c2))" and "int (length bs) \<le> len - c2"
    and "read_at block (nat c2) (length bs) = Some bs" and "f = (if format = 1 then 1 else 0)"
  shows "param_loop block len count i cursor isNull out =
    param_loop block len count (Suc i) (c2 + int (length bs)) isNull
      (out\<lparr>formats := (formats out)[i := f], offsets := (offsets out)[i := length (arena out)],
           arena := arena out @ bs @ [0], lengths := (lengths out)[i := int (length bs)]\<rparr>)"
  using assms by (simp add: param_loop.simps [of block len count i cursor] Let_def)

lemma param_loop_step:
  assumes len: "len \<le> int (length block)" and c: "0 \<le> cursor"
    and inv: "loop_inv count vs isNull out" and i: "length vs < count"
  shows "param_loop block len count (length vs) cursor isNull out = truncated_block
    \<or> (\<exists>f v isNull' out' cursor'. 0 \<le> cursor' \<and> (f = 0 \<or> f = 1) \<and> loop_inv count (vs @ [(f, v)]) isNull' out'
        \<and> param_loop block len count (length vs) cursor isNull out
          = param_loop block len count (length (vs @ [(f, v)])) cursor' isNull' out')"
proof -
  obtain t1 where t1: "takeInt block len cursor = Some t1" using takeInt_safe [OF len] by blast
  show ?thesis
  proof (cases t1)
    case None
    then show ?thesis using t1 i by (simp add: param_loop.simps [of _ _ _ "length vs"])
  next
    case (Some fc)
    obtain format c1 where fc: "fc = (format, c1)" by (cases fc)
    with t1 Some have c1: "c1 = cursor + 4" using takeInt_advances by blast
    obtain t2 where t2: "takeInt block len c1 = Some t2" using takeInt_safe [OF len] by blast
    show ?thesis
    proof (cases t2)
      case None
      then show ?thesis using t1 t2 Some fc i by (simp add: param_loop.simps [of _ _ _ "length vs"])
    next
      case (Some vc)
      obtain vl c2 where vc: "vc = (vl, c2)" by (cases vc)
      with t2 Some have c2: "c2 = c1 + 4" using takeInt_advances by blast
      define f :: int where "f = (if format = 1 then 1 else 0)"
      then have f: "f = (if format = 1 then 1 else 0)" "f = 0 \<or> f = 1" by simp_all
      note read = t1 \<open>t1 = Some fc\<close> fc t2 Some vc
      consider "vl < 0" | "\<not> vl < 0" "vl > len - c2" | "\<not> vl < 0" "\<not> vl > len - c2" by blast
      then show ?thesis
      proof cases
        case 1
        with read f(1) have "param_loop block len count (length vs) cursor isNull out =
            param_loop block len count (Suc (length vs)) c2 (isNull[length vs := True])
              (out\<lparr>formats := (formats out)[length vs := f]\<rparr>)"
          by (intro param_loop_null [OF i]) simp_all
        then show ?thesis using loop_inv_null [OF inv i, of f] c c1 c2 f(2)
          by (intro disjI2 exI [of _ f] exI [of _ None] exI [of _ "isNull[length vs := True]"]
              exI [of _ "out\<lparr>formats := (formats out)[length vs := f]\<rparr>"] exI [of _ c2]) simp
      next
        case 2
        then show ?thesis using i read by (simp add: param_loop.simps [of _ _ _ "length vs"] Let_def)
      next
        case 3
        define bs where "bs = slice (nat c2) (nat vl) block"
        have bs: "read_at block (nat c2) (nat vl) = Some bs" and lbs: "int (length bs) = vl"
          using 3 len c c1 c2 by (simp_all add: read_at_def bs_def)
        let ?out = "out\<lparr>formats := (formats out)[length vs := f], offsets := (offsets out)[length vs := length (arena out)],
                arena := arena out @ bs @ [0], lengths := (lengths out)[length vs := int (length bs)]\<rparr>"
        have "param_loop block len count (length vs) cursor isNull out =
            param_loop block len count (Suc (length vs)) (c2 + int (length bs)) isNull ?out"
          by (rule param_loop_value [OF i, where format = format and ?c1.0 = c1])
             (use read f(1) 3 lbs bs in auto)
        then show ?thesis using loop_inv_value [OF inv i, of f bs] c c1 c2 3 f(2) lbs
          by (intro disjI2 exI [of _ f] exI [of _ "Some bs"] exI [of _ isNull] exI [of _ ?out] exI [of _ "c2 + int (length bs)"]) simp
      qed
    qed
  qed
qed

lemma param_loop_any:
  assumes len: "len \<le> int (length block)" and "0 \<le> cursor"
    and "loop_inv count vs isNull out" and "length vs \<le> count" and "\<forall>fv\<in>set vs. fst fv = 0 \<or> fst fv = 1"
  shows "param_loop block len count (length vs) cursor isNull out = truncated_block
    \<or> (\<exists>vs' isNull' out'. length vs' = count \<and> (\<forall>fv\<in>set vs'. fst fv = 0 \<or> fst fv = 1) \<and> loop_inv count vs' isNull' out'
        \<and> param_loop block len count (length vs) cursor isNull out = Some (Inr (set_values count isNull' out')))"
  using assms(2-)
proof (induction "count - length vs" arbitrary: vs cursor isNull out)
  case 0
  then have "param_loop block len count (length vs) cursor isNull out = Some (Inr (set_values count isNull out))"
    by (simp add: param_loop.simps)
  with 0 show ?case by (intro disjI2 exI [of _ vs] exI [of _ isNull] exI [of _ out]) simp
next
  case (Suc n)
  have i: "length vs < count" using Suc.hyps(2) by simp
  show ?case
  proof (cases "param_loop block len count (length vs) cursor isNull out = truncated_block")
    case False
    with param_loop_step [OF len Suc.prems(1,2) i] obtain f v isNull' out' cursor' where
      s: "0 \<le> cursor'" "f = 0 \<or> f = 1" "loop_inv count (vs @ [(f, v)]) isNull' out'"
      and eq: "param_loop block len count (length vs) cursor isNull out
          = param_loop block len count (length (vs @ [(f, v)])) cursor' isNull' out'"
      by blast
    have "n = count - length (vs @ [(f, v)])" using Suc.hyps(2) by simp
    then show ?thesis unfolding eq
      by (rule Suc.hyps(1)) (use s i Suc.prems in \<open>auto simp: Suc_le_eq\<close>)
  qed simp
qed

section \<open>The loop on what Haxe wrote\<close>

definition parameter_bytes :: "PostgresParameter \<Rightarrow> bytes option" where
  "parameter_bytes p =
     (case p of
        Null \<Rightarrow> None
      | Text value \<Rightarrow> Some (case value of None \<Rightarrow> [] | Some s \<Rightarrow> to_bytes s)
      | Binary value \<Rightarrow> Some (case value of None \<Rightarrow> [] | Some bs \<Rightarrow> bs))"

definition parameter_format :: "PostgresParameter \<Rightarrow> int" where
  "parameter_format p = (case p of Binary value \<Rightarrow> 1 | _ \<Rightarrow> 0)"

lemma encode_parameter_alt:
  "encode_parameter p = writeInt (parameter_format p) @
     (case parameter_bytes p of None \<Rightarrow> writeInt (- 1) | Some bs \<Rightarrow> writeInt (int (length bs)) @ bs)"
  by (cases p) (simp_all add: parameter_format_def parameter_bytes_def FORMAT_TEXT_def FORMAT_BINARY_def Let_def)

lemma param_loop_encoded:
  assumes "loop_inv count vs isNull out" and "count = length vs + length ps"
    and "int (length (pre @ concat (map encode_parameter ps))) \<le> INT_MAX"
  shows "\<exists>isNull' out'. loop_inv count (vs @ map (\<lambda>p. (parameter_format p, parameter_bytes p)) ps) isNull' out'
    \<and> param_loop (pre @ concat (map encode_parameter ps)) (int (length (pre @ concat (map encode_parameter ps))))
        count (length vs) (int (length pre)) isNull out
      = Some (Inr (set_values count isNull' out'))"
  using assms
proof (induction ps arbitrary: vs pre isNull out)
  case Nil
  then show ?case by (auto simp: param_loop.simps)
next
  case (Cons p ps)
  let ?rest = "concat (map encode_parameter ps)"
  let ?block = "pre @ encode_parameter p @ ?rest"
  let ?f = "parameter_format p"
  have f: "int32 ?f" "(if ?f = 1 then 1 else 0) = ?f" by (auto simp: int32_def parameter_format_def split: PostgresParameter.splits)
  have i: "length vs < count" using Cons.prems by simp
  show ?case
  proof (cases "parameter_bytes p")
    case None
    then have blk: "?block = pre @ writeInt ?f @ writeInt (- 1) @ ?rest"
      by (simp add: encode_parameter_alt)
    have t1: "takeInt ?block (int (length ?block)) (int (length pre)) = Some (Some (?f, int (length pre) + 4))"
      unfolding blk by (rule takeInt_mid) (use f in simp_all)
    have t2: "takeInt ?block (int (length ?block)) (int (length pre) + 4) = Some (Some (- 1, int (length pre) + 8))"
      using takeInt_mid [of "- 1" "pre @ writeInt ?f" "int (length ?block)" ?rest] blk by (simp add: int32_def)
    have "param_loop ?block (int (length ?block)) count (length vs) (int (length pre)) isNull out =
        param_loop ?block (int (length ?block)) count (Suc (length vs)) (int (length pre) + 8) (isNull[length vs := True])
          (out\<lparr>formats := (formats out)[length vs := ?f]\<rparr>)"
      by (rule param_loop_null [OF i t1 t2]) (use f in simp_all)
    then show ?thesis
      using Cons.IH [OF loop_inv_null [OF Cons.prems(1) i, of ?f], of "pre @ encode_parameter p"] Cons.prems(2-) None
      by (simp add: encode_parameter_alt [of p])
  next
    case (Some bs)
    then have blk: "?block = pre @ writeInt ?f @ writeInt (int (length bs)) @ bs @ ?rest"
      by (simp add: encode_parameter_alt)
    have lb: "int32 (int (length bs))" using Cons.prems(3) Some by (simp add: encode_parameter_alt int32_def)
    have t1: "takeInt ?block (int (length ?block)) (int (length pre)) = Some (Some (?f, int (length pre) + 4))"
      unfolding blk by (rule takeInt_mid) (use f in simp_all)
    have t2: "takeInt ?block (int (length ?block)) (int (length pre) + 4) = Some (Some (int (length bs), int (length pre) + 8))"
      using takeInt_mid [OF lb, of "pre @ writeInt ?f" "int (length ?block)" "bs @ ?rest"] blk by simp
    have r: "read_at ?block (nat (int (length pre) + 8)) (length bs) = Some bs"
      using read_at_mid [of "length bs" bs "pre @ writeInt ?f @ writeInt (int (length bs))" ?rest] blk by (simp add: nat_add_distrib)
    have "length ?block = length pre + (8 + length bs + length ?rest)" unfolding blk by simp
    then have le: "int (length bs) \<le> int (length ?block) - (int (length pre) + 8)" by linarith
    have "param_loop ?block (int (length ?block)) count (length vs) (int (length pre)) isNull out =
        param_loop ?block (int (length ?block)) count (Suc (length vs)) (int (length pre) + 8 + int (length bs)) isNull
          (out\<lparr>formats := (formats out)[length vs := ?f], offsets := (offsets out)[length vs := length (arena out)],
               arena := arena out @ bs @ [0], lengths := (lengths out)[length vs := int (length bs)]\<rparr>)"
      by (rule param_loop_value [OF i t1 t2 le r]) (use f in simp)
    then show ?thesis
      using Cons.IH [OF loop_inv_value [OF Cons.prems(1) i, of ?f bs], of "pre @ encode_parameter p"] Cons.prems(2-) Some
      by (simp add: encode_parameter_alt [of p] add.assoc)
  qed
qed

section \<open>Properties\<close>

text \<open>
  What libpq sends for a bound value: a null pointer is NULL, a binary value has its length, and a text value is
  read as a C string, up to its first NUL.
\<close>

definition param_sent :: "parameters \<Rightarrow> nat \<Rightarrow> bytes option" where
  "param_sent out i =
     map_option (\<lambda>off. if formats out ! i = 1 then slice off (nat (lengths out ! i)) (arena out)
                       else takeWhile (\<lambda>b. b \<noteq> 0) (drop off (arena out))) (vals out ! i)"

definition parameter_sent :: "PostgresParameter \<Rightarrow> bytes option" where
  "parameter_sent p =
     map_option (\<lambda>bs. if parameter_format p = 1 then bs else takeWhile (\<lambda>b. b \<noteq> 0) bs) (parameter_bytes p)"

text \<open>A pointer libpq can follow: its length and the NUL after it are in the arena.\<close>

definition param_valid :: "parameters \<Rightarrow> nat \<Rightarrow> bool" where
  "param_valid out i \<longleftrightarrow> (formats out ! i = 0 \<or> formats out ! i = 1) \<and>
     (case vals out ! i of
        None \<Rightarrow> True
      | Some off \<Rightarrow> 0 \<le> lengths out ! i \<and> off + nat (lengths out ! i) < length (arena out)
          \<and> arena out ! (off + nat (lengths out ! i)) = 0)"

lemma takeWhile_stops: "\<not> P x \<Longrightarrow> takeWhile P (xs @ x # ys) = takeWhile P xs"
  by (induction xs) auto

lemma terminated_slice:
  assumes "slice off (Suc (length bs)) a = bs @ [0]"
  shows "off + length bs < length a" "a ! (off + length bs) = 0" "slice off (length bs) a = bs"
    "takeWhile (\<lambda>b. b \<noteq> 0) (drop off a) = takeWhile (\<lambda>b. b \<noteq> 0) (bs :: bytes)"
proof -
  from assms have t: "take (Suc (length bs)) (drop off a) = bs @ [0]" by (simp add: slice_def)
  then have "length (take (Suc (length bs)) (drop off a)) = Suc (length bs)" by simp
  then show lt: "off + length bs < length a" by auto
  from t have "take (Suc (length bs)) (drop off a) ! length bs = 0" by simp
  with lt show "a ! (off + length bs) = 0" by simp
  have "take (length bs) (take (Suc (length bs)) (drop off a)) = bs" unfolding t by simp
  then show "slice off (length bs) a = bs" by (simp add: slice_def)
  have "drop off a = (bs @ [0]) @ drop (Suc (length bs)) (drop off a)"
    unfolding t [symmetric] by (rule append_take_drop_id [symmetric])
  then have "takeWhile (\<lambda>b. b \<noteq> 0) (drop off a) = takeWhile (\<lambda>b. b \<noteq> 0) (bs @ [0] @ drop (Suc (length bs)) (drop off a))"
    by simp
  also have "\<dots> = takeWhile (\<lambda>b. b \<noteq> 0) bs" by (simp add: takeWhile_stops)
  finally show "takeWhile (\<lambda>b. b \<noteq> 0) (drop off a) = takeWhile (\<lambda>b. b \<noteq> 0) bs" .
qed

lemma loop_inv_done:
  assumes "loop_inv count vs isNull out" and "j < count" and "length vs = count" and "vs ! j = (f, v)"
  shows "formats (set_values count isNull out) ! j = f"
    and "f = 0 \<or> f = 1 \<Longrightarrow> param_valid (set_values count isNull out) j"
    and "param_sent (set_values count isNull out) j =
      map_option (\<lambda>bs. if f = 1 then bs else takeWhile (\<lambda>b. b \<noteq> 0) bs) v"
proof -
  note out = set_values_fields [OF assms(1)]
  have h: "held out isNull j (f, v)" using assms by (auto simp: loop_inv_def)
  then show fm: "formats (set_values count isNull out) ! j = f" unfolding out by (cases v) auto
  show "param_valid (set_values count isNull out) j" if "f = 0 \<or> f = 1"
    using h that terminated_slice [of "offsets out ! j"] assms(2) unfolding out
    by (cases v) (auto simp: param_valid_def)
  show "param_sent (set_values count isNull out) j =
      map_option (\<lambda>bs. if f = 1 then bs else takeWhile (\<lambda>b. b \<noteq> 0) bs) v"
    using h terminated_slice [of "offsets out ! j"] assms(2) unfolding out
    by (cases v) (auto simp: param_sent_def)
qed

lemma loop_inv_lengths:
  assumes "loop_inv count vs isNull out"
  shows "length (vals (set_values count isNull out)) = count" "length (lengths (set_values count isNull out)) = count"
    "length (formats (set_values count isNull out)) = count"
  using assms unfolding set_values_fields [OF assms] by (simp_all add: loop_inv_def)

lemma loop_inv_start:
  "loop_inv n [] (replicate n False)
     \<lparr>arena = [], offsets = replicate n 0, lengths = replicate n 0, formats = replicate n 0, vals = replicate n None\<rparr>"
  by (simp add: loop_inv_def)

lemma parameters_bound:
  assumes "int (length (encodeParameters params)) \<le> INT_MAX"
  shows "\<exists>out. parseParameters (Some (encodeParameters params)) (int (length (encodeParameters params))) = Some (Inr out)
    \<and> length (vals out) = length (case params of None \<Rightarrow> [] | Some ps \<Rightarrow> ps)
    \<and> formats out = map parameter_format (case params of None \<Rightarrow> [] | Some ps \<Rightarrow> ps)
    \<and> map (param_sent out) [0..<length (vals out)] = map parameter_sent (case params of None \<Rightarrow> [] | Some ps \<Rightarrow> ps)"
proof -
  define ps where "ps = (case params of None \<Rightarrow> [] | Some ps \<Rightarrow> ps)"
  let ?n = "length ps"
  let ?block = "writeInt (int ?n) @ concat (map encode_parameter ps)"
  have enc: "encodeParameters params = ?block" by (simp add: encodeParameters_def ps_def Let_def)
  have "length (encode_parameter p) \<ge> 8" for p by (simp add: encode_parameter_alt split: option.split)
  then have "8 * ?n \<le> length (concat (map encode_parameter ps))"
    by (induction ps) (auto intro: add_mono)
  then have n: "int ?n \<le> (int (length ?block) - 4) div 8" by simp
  have i32: "int32 (int ?n)" using n assms unfolding enc int32_def by linarith
  have take: "takeInt ?block (int (length ?block)) 0 = Some (Some (int ?n, 4))"
    using takeInt_mid [OF i32, of "[]" "int (length ?block)" "concat (map encode_parameter ps)"] by simp
  obtain isNull out where inv: "loop_inv ?n (map (\<lambda>p. (parameter_format p, parameter_bytes p)) ps) isNull out"
    and loop: "param_loop ?block (int (length ?block)) ?n 0 4 (replicate ?n False)
         \<lparr>arena = [], offsets = replicate ?n 0, lengths = replicate ?n 0, formats = replicate ?n 0, vals = replicate ?n None\<rparr>
      = Some (Inr (set_values ?n isNull out))"
    using param_loop_encoded [OF loop_inv_start, of ?n ps "writeInt (int ?n)"] assms unfolding enc by auto
  have "parseParameters (Some ?block) (int (length ?block)) = Some (Inr (set_values ?n isNull out))"
    unfolding parseParameters_def option.case take prod.case Let_def using n loop by simp
  moreover have "formats (set_values ?n isNull out) = map parameter_format ps"
    by (rule nth_equalityI) (use inv loop_inv_lengths [OF inv] loop_inv_done(1) [OF inv] in auto)
  moreover have "map (param_sent (set_values ?n isNull out)) [0..<?n] = map parameter_sent ps"
    by (rule nth_equalityI) (use loop_inv_done(3) [OF inv] in \<open>auto simp: parameter_sent_def\<close>)
  ultimately show ?thesis using loop_inv_lengths(1) [OF inv] unfolding enc ps_def [symmetric] by auto
qed

text \<open>
  C17. A list of parameters written by \<open>encodeParameters\<close> is read back by \<open>parseParameters\<close> as it was bound:
  as many values, in order, each in its format, NULL apart from an empty value, and libpq is handed each
  binary value whole and each text value up to its first NUL.
\<close>

theorem parameters_roundtrip:
  assumes "int (length (encodeParameters params)) \<le> INT_MAX"
  shows "\<exists>out. parseParameters (Some (encodeParameters params)) (int (length (encodeParameters params))) = Some (Inr out)
    \<and> length (vals out) = length (case params of None \<Rightarrow> [] | Some ps \<Rightarrow> ps)
    \<and> formats out = map parameter_format (case params of None \<Rightarrow> [] | Some ps \<Rightarrow> ps)
    \<and> map (param_sent out) [0..<length (vals out)] = map parameter_sent (case params of None \<Rightarrow> [] | Some ps \<Rightarrow> ps)"
  by (rule parameters_bound) (rule assms)

theorem parameters_roundtrip_witness:
  "\<exists>out. parseParameters (Some (encodeParameters (Some [Null, Text (Some ''a''), Binary (Some [0, 7])])))
       (int (length (encodeParameters (Some [Null, Text (Some ''a''), Binary (Some [0, 7])])))) = Some (Inr out)
    \<and> map (param_sent out) [0..<length (vals out)] = [None, Some [97], Some [0, 7]]"
proof -
  let ?ps = "Some [Null, Text (Some ''a''), Binary (Some [0, 7])]"
  have l: "int (length (encodeParameters ?ps)) \<le> INT_MAX"
    by (simp add: encodeParameters_def Let_def to_bytes_def)
  show ?thesis using parameters_roundtrip [OF l]
    by (auto simp: parameter_sent_def parameter_bytes_def parameter_format_def to_bytes_def of_char_def)
qed

lemma parse_returns:
  assumes "len \<le> int (length block)"
  shows "parseParameters (Some block) len \<noteq> None"
proof -
  obtain t where t: "takeInt block len 0 = Some t" using takeInt_safe [OF assms] by blast
  show ?thesis
  proof (cases t)
    case None
    then show ?thesis using t by (simp add: parseParameters_def malformed_block_def)
  next
    case (Some cc)
    obtain count cursor where cc: "cc = (count, cursor)" by (cases cc)
    with t Some have c: "0 \<le> cursor" using takeInt_advances by fastforce
    let ?n = "nat count"
    have "param_loop block len ?n 0 cursor (replicate ?n False)
      \<lparr>arena = [], offsets = replicate ?n 0, lengths = replicate ?n 0, formats = replicate ?n 0, vals = replicate ?n None\<rparr> \<noteq> None"
      using param_loop_any [OF assms c loop_inv_start [of ?n]] by (auto simp: truncated_block_def)
    then show ?thesis using t Some cc by (simp add: parseParameters_def malformed_block_def truncated_block_def Let_def)
  qed
qed

text \<open>
  C18. Whatever a parameter block holds, \<open>parseParameters\<close> reads only the bytes it was given, refuses a block
  that promises more than it holds before it sizes anything by it, and leaves libpq with as many values, lengths
  and formats, each pointer with its whole length and a NUL after it in the arena.
\<close>

theorem parameters_any_block:
  assumes "len \<le> int (length block)"
  shows "parseParameters (Some block) len \<noteq> None
    \<and> (\<forall>out. parseParameters (Some block) len = Some (Inr out) \<longrightarrow>
        length (lengths out) = length (vals out) \<and> length (formats out) = length (vals out)
        \<and> 8 * int (length (vals out)) + 4 \<le> len \<and> (\<forall>i<length (vals out). param_valid out i))"
proof -
  obtain t where t: "takeInt block len 0 = Some t" using takeInt_safe [OF assms] by blast
  show ?thesis
  proof (cases t)
    case None
    then show ?thesis using t by (simp add: parseParameters_def malformed_block_def)
  next
    case (Some cc)
    obtain count cursor where cc: "cc = (count, cursor)" by (cases cc)
    with t Some have c: "cursor = 4" "4 \<le> len" using takeInt_advances by fastforce+
    show ?thesis
    proof (cases "count < 0 \<or> count > (len - cursor) div 8")
      case True
      then show ?thesis using t Some cc
        by (simp add: parseParameters_def malformed_block_def truncated_block_def) linarith
    next
      case False
      let ?n = "nat count"
      let ?start = "\<lparr>arena = [], offsets = replicate ?n 0, lengths = replicate ?n 0, formats = replicate ?n 0, vals = replicate ?n None\<rparr>"
      have parse: "parseParameters (Some block) len = param_loop block len ?n (length ([] :: (int \<times> bytes option) list)) 4 (replicate ?n False) ?start"
        using False t Some cc c by (simp add: parseParameters_def Let_def)
      from param_loop_any [OF assms _ loop_inv_start [of ?n], of 4] parse
      have "parseParameters (Some block) len = truncated_block
        \<or> (\<exists>vs' isNull' out'. length vs' = ?n \<and> (\<forall>fv\<in>set vs'. fst fv = 0 \<or> fst fv = 1) \<and> loop_inv ?n vs' isNull' out'
            \<and> parseParameters (Some block) len = Some (Inr (set_values ?n isNull' out')))" by simp
      moreover have "8 * int ?n + 4 \<le> len" using False c by simp linarith
      moreover have "param_valid (set_values ?n isNull' out') i"
        if "loop_inv ?n vs' isNull' out'" "length vs' = ?n" "\<forall>fv\<in>set vs'. fst fv = 0 \<or> fst fv = 1" "i < ?n"
        for vs' isNull' out' i
        using loop_inv_done(2) [OF that(1,4,2)] that by (metis nth_mem prod.collapse)
      ultimately show ?thesis using loop_inv_lengths by (auto simp: truncated_block_def)
    qed
  qed
qed

theorem parameters_any_block_witness:
  "\<exists>out. parseParameters (Some [1, 0, 0, 0, 1, 0, 0, 0, 1, 0, 0, 0, 65]) 13 = Some (Inr out) \<and> param_valid out 0"
proof -
  let ?b = "[1, 0, 0, 0, 1, 0, 0, 0, 1, 0, 0, 0, 65] :: bytes"
  have p: "parseParameters (Some ?b) 13 =
      Some (Inr \<lparr>arena = [65, 0], offsets = [0], lengths = [1], formats = [1], vals = [Some 0]\<rparr>)"
    by code_simp
  show ?thesis using parameters_any_block [of 13 ?b] p by simp
qed

end
