(* ===== verification/Pg_Results.thy ===== *)
theory Pg_Results
  imports Pg_Wire
begin

text \<open>
  Result blocks: written by \<open>encodeResult\<close> of \<^verbatim>\<open>NativePostgres.cpp\<close> from what libpq says of a result, the
  record \<open>pg_result\<close>, and read by \<open>PostgresWire.decodeResult\<close>; and the text form of \<open>bytea\<close> values in them.
\<close>

section \<open>Counts\<close>

definition is_digit :: "char \<Rightarrow> bool" where
  "is_digit c = (48 \<le> (of_char c :: nat) \<and> (of_char c :: nat) \<le> 57)"

fun affected_loop :: "u64 \<Rightarrow> string \<Rightarrow> u64" where
  "affected_loop v [] = v"
| "affected_loop v (c # cs) =
     (if is_digit c
      then let digit = of_char c - 48
           in if v > (- 1 - digit) div 10 then - 1 else affected_loop (v * 10 + digit) cs
      else v)"

definition parseAffectedRows :: "string option \<Rightarrow> u64" where
  "parseAffectedRows raw = (case raw of None \<Rightarrow> 0 | Some cs \<Rightarrow> affected_loop 0 cs)"

section \<open>Result blocks, written\<close>

record pg_result =
  PQntuples :: int
  PQnfields :: int
  PQfname :: "int \<Rightarrow> bytes option"
  PQgetisnull :: "int \<Rightarrow> int \<Rightarrow> int"
  PQgetlength :: "int \<Rightarrow> int \<Rightarrow> int"
  PQgetvalue :: "int \<Rightarrow> int \<Rightarrow> bytes option"
  PQcmdTuples :: "string option"
  PQcmdStatus :: "bytes option"
  PQoidValue :: u32

definition errorBlock :: "string \<Rightarrow> bytes option" where
  "errorBlock message =
     (let size = 8 + length message
      in map_option fst (do {
           out \<leftarrow> putInt 1 (replicate size 0, 0);
           out \<leftarrow> putInt (int (length message)) out;
           putBytes (Some (to_bytes message)) (int (length message)) out
         }))"

definition strlen :: "bytes option \<Rightarrow> int" where
  "strlen s = (case s of None \<Rightarrow> 0 | Some bs \<Rightarrow> int (length bs))"

definition value_size :: "pg_result \<Rightarrow> int \<Rightarrow> int \<Rightarrow> int" where
  "value_size r row field = 4 + (if PQgetisnull r row field \<noteq> 1 then PQgetlength r row field else 0)"

definition result_size :: "pg_result \<Rightarrow> int" where
  "result_size r =
     24 + sum_list (map (\<lambda>field. 4 + strlen (PQfname r field)) [0..PQnfields r - 1])
     + sum_list (map (\<lambda>row. sum_list (map (value_size r row) [0..PQnfields r - 1])) [0..PQntuples r - 1])
     + 4 + strlen (PQcmdStatus r)"

definition put_name :: "pg_result \<Rightarrow> int \<Rightarrow> writer \<Rightarrow> writer option" where
  "put_name r field out =
     (let name = PQfname r field
      in do { out \<leftarrow> putInt (strlen name) out; putBytes name (strlen name) out })"

definition put_value :: "pg_result \<Rightarrow> int \<Rightarrow> int \<Rightarrow> writer \<Rightarrow> writer option" where
  "put_value r row field out =
     (if PQgetisnull r row field = 1 then putInt (- 1) out
      else let len = PQgetlength r row field
           in do { out \<leftarrow> putInt len out; putBytes (PQgetvalue r row field) len out })"

definition put_result :: "pg_result \<Rightarrow> writer \<Rightarrow> writer option" where
  "put_result r out =
     (let affected = parseAffectedRows (PQcmdTuples r)
      in do {
        out \<leftarrow> putInt 0 out;
        out \<leftarrow> putUInt (ucast (affected AND 0xFFFFFFFF)) out;
        out \<leftarrow> putUInt (ucast (drop_bit 32 affected)) out;
        out \<leftarrow> putUInt (PQoidValue r) out;
        out \<leftarrow> putInt (PQnfields r) out;
        out \<leftarrow> put_all (put_name r) [0..PQnfields r - 1] out;
        out \<leftarrow> putInt (PQntuples r) out;
        out \<leftarrow> put_all (\<lambda>row. put_all (put_value r row) [0..PQnfields r - 1]) [0..PQntuples r - 1] out;
        out \<leftarrow> putInt (strlen (PQcmdStatus r)) out;
        putBytes (PQcmdStatus r) (strlen (PQcmdStatus r)) out
      })"

definition encodeResult :: "pg_result \<Rightarrow> bytes option" where
  "encodeResult r =
     (let size = result_size r
      in if size > INT_MAX
         then errorBlock (''The result is '' @ decimal (nat size) @
                '' bytes, more than one call can return; fetch it in parts.'')
         else map_option fst (put_result r (replicate (nat size) 0, 0)))"

section \<open>Result blocks, read\<close>

text \<open>
  The double nearest to a whole number, the even one of two as near: what the sum of the two halves of a
  count is rounded to. A product with \<^verbatim>\<open>4294967296.0\<close> is exact.
\<close>

fun ulp :: "nat \<Rightarrow> nat" where
  "ulp n = (if n < 2 ^ 53 then 1 else 2 * ulp (n div 2))"

declare ulp.simps [simp del]

definition to_float :: "nat \<Rightarrow> nat" where
  "to_float n =
     (let u = ulp n; q = n div u; r = n mod u
      in if 2 * r < u \<or> 2 * r = u \<and> even q then q * u else (q + 1) * u)"

definition readCount :: "nat reader" where
  "readCount = and_then readUInt (\<lambda>low. and_then readUInt (\<lambda>high. yield (to_float (high * 4294967296 + low))))"

record head =
  field_names :: "string list"
  rowCount :: int
  affectedRows :: nat
  lastInsertRowId :: nat

definition read_text :: "string reader" where
  "read_text = and_then readInt (\<lambda>len. and_then (readBytes len) (\<lambda>bs. yield (text_of bs)))"

definition read_status :: "unit reader" where
  "read_status =
     and_then readInt (\<lambda>status.
       if status = 1 then and_then read_text (\<lambda>message. throw (SQLError ''request'' message message))
       else if status \<noteq> 0
       then throw (bridge_error (''status='' @ int_text status)
                     (''Postgres bridge returned an unknown status: '' @ int_text status @ ''.''))
       else yield ())"

definition read_head :: "head reader" where
  "read_head =
     and_then read_status (\<lambda>_.
     and_then readCount (\<lambda>affected.
     and_then readUInt (\<lambda>rowId.
     and_then readInt (\<lambda>fieldCount.
       if fieldCount < 0
       then throw (bridge_error (''fieldCount='' @ int_text fieldCount) ''Postgres bridge sent a negative field count.'')
       else
     and_then (read_times (nat fieldCount) read_text) (\<lambda>names.
     and_then readInt (\<lambda>n.
       if n < 0
       then throw (bridge_error (''rowCount='' @ int_text n) ''Postgres bridge sent a negative row count.'')
       else if fieldCount = 0 \<and> n > 0
       then throw (bridge_error (''rowCount='' @ int_text n @ '' fieldCount=0'')
                     ''Postgres bridge claimed rows in a result with no columns.'')
       else yield \<lparr>field_names = names, rowCount = n, affectedRows = affected, lastInsertRowId = rowId\<rparr>))))))"

definition read_command :: "string option reader" where
  "read_command data p =
     (if int (length data) - int p \<ge> 4
      then and_then readInt (\<lambda>len. and_then (readString len) (\<lambda>s. yield (Some s))) data p
      else Value None p)"

definition read_value :: "bytes option reader" where
  "read_value =
     and_then readInt (\<lambda>len. if len < 0 then yield None else and_then (readBytes len) (\<lambda>bs. yield (Some bs)))"

record raw_result = head +
  result_rows :: "bytes option list list"
  command :: "string option"

definition decodeResult :: "bytes option \<Rightarrow> raw_result read" where
  "decodeResult block =
     (case block of
        None \<Rightarrow> Thrown (bridge_error ''null'' ''Postgres bridge returned no result block.'')
      | Some data \<Rightarrow>
          and_then read_head (\<lambda>h.
          and_then (read_times (nat (rowCount h)) (read_times (length (field_names h)) read_value)) (\<lambda>rows.
          and_then read_command (\<lambda>tag.
          yield (head.extend h \<lparr>result_rows = rows, command = tag\<rparr>)))) data 0)"

section \<open>\<open>bytea\<close>\<close>

definition hx_hex :: "byte \<Rightarrow> int" where
  "hx_hex code =
     (let c = uint code
      in if 48 \<le> c \<and> c \<le> 57 then c - 48
         else if 97 \<le> c \<and> c \<le> 102 then 10 + c - 97
         else if 65 \<le> c \<and> c \<le> 70 then 10 + c - 65
         else - 1)"

fun hex_pairs :: "bytes \<Rightarrow> bytes option" where
  "hex_pairs (h # l # rest) =
     (let high = hx_hex h; low = hx_hex l
      in if high < 0 \<or> low < 0 then None
         else map_option (\<lambda>bs. of_int (push_bit 4 high OR low) # bs) (hex_pairs rest))"
| "hex_pairs _ = Some []"

definition decodeByteaHex :: "bytes option \<Rightarrow> bytes option" where
  "decodeByteaHex value =
     (case value of
        None \<Rightarrow> None
      | Some v \<Rightarrow>
          if length v < 2 \<or> v ! 0 \<noteq> 92 \<or> v ! 1 \<noteq> 120 then Some v
          else if odd (length v - 2) then Some v
          else case hex_pairs (drop 2 v) of None \<Rightarrow> Some v | Some bs \<Rightarrow> Some bs)"

definition hex_byte :: "byte \<Rightarrow> string" where
  "hex_byte b = [''0123456789abcdef'' ! (unat b div 16), ''0123456789abcdef'' ! (unat b mod 16)]"

definition encodeByteaHex :: "bytes option \<Rightarrow> string" where
  "encodeByteaHex value =
     (case value of None \<Rightarrow> [CHR 0x5C, CHR ''x''] | Some v \<Rightarrow> [CHR 0x5C, CHR ''x''] @ concat (map hex_byte v))"

section \<open>Counts are whole\<close>

text \<open>The number that digits read as, with no width.\<close>

definition digits_value :: "nat \<Rightarrow> string \<Rightarrow> nat" where
  "digits_value start s = foldl (\<lambda>n c. 10 * n + (of_char c - 48)) start s"

lemma digits_value_mono: "start \<le> digits_value start s"
proof (induction s arbitrary: start)
  case (Cons c s)
  have "start \<le> 10 * start + (of_char c - 48)" by simp
  also have "\<dots> \<le> digits_value (10 * start + (of_char c - 48)) s" by (rule Cons)
  finally show ?case by (simp add: digits_value_def)
qed (simp add: digits_value_def)

lemma unat_max64: "unat (- 1 :: u64) = 18446744073709551615"
  by (simp add: unsigned_minus_1_eq_mask mask_eq_exp_minus_1)

lemma unat_digit:
  assumes "is_digit c"
  shows "unat (of_char c - 48 :: u64) = of_char c - 48"
proof -
  have "(of_char c :: u64) = of_nat (of_char c)" by (cases c) (simp add: of_char_def)
  moreover have "unat (of_nat (of_char c) :: u64) = of_char c"
    using assms by (simp add: is_digit_def unsigned_of_nat take_bit_nat_eq_self)
  ultimately have "unat (of_char c :: u64) = of_char c" by simp
  moreover have "(48 :: u64) \<le> of_char c"
    using assms \<open>unat (of_char c :: u64) = of_char c\<close> by (simp add: word_le_nat_alt is_digit_def)
  ultimately show ?thesis by (simp add: unat_sub)
qed

lemma affected_loop_value:
  "unat (affected_loop v s) = min 18446744073709551615 (digits_value (unat v) (takeWhile is_digit s))"
proof (induction s arbitrary: v)
  case Nil
  show ?case using unat_u64 [of v] by (simp add: digits_value_def)
next
  case (Cons c s)
  show ?case
  proof (cases "is_digit c")
    case False
    then show ?thesis using unat_u64 [of v] by (simp add: digits_value_def)
  next
    case True
    define d where "d = (of_char c - 48 :: nat)"
    have d: "unat (of_char c - 48 :: u64) = d" "d < 10" using unat_digit [OF True] True by (auto simp: d_def is_digit_def)
    have lim0: "unat (- 1 - w :: u64) = 18446744073709551615 - unat w" for w
      using unat_u64 [of w] by (subst unat_sub) (simp_all add: word_le_nat_alt unat_max64)
    have lim: "unat ((- 1 - (of_char c - 48)) div 10 :: u64) = (18446744073709551615 - d) div 10"
      by (simp only: unat_div lim0 d) simp
    show ?thesis
    proof (cases "v > (- 1 - (of_char c - 48)) div 10")
      case True
      then have "unat v > (18446744073709551615 - d) div 10" using lim by (simp add: word_less_nat_alt)
      then have "10 * unat v + d > 18446744073709551615" using d(2) by linarith
      then have "digits_value (10 * unat v + d) (takeWhile is_digit s) > 18446744073709551615"
        using digits_value_mono [of "10 * unat v + d"] by (rule less_le_trans)
      then show ?thesis using True \<open>is_digit c\<close>
        by (simp add: digits_value_def d_def [symmetric] unat_max64)
    next
      case False
      then have "unat v \<le> (18446744073709551615 - d) div 10" using lim by (simp add: word_le_nat_alt not_less)
      then have "10 * unat v + d < 18446744073709551616" using d(2) by linarith
      then have "unat (v * 10 + (of_char c - 48)) = 10 * unat v + d"
        using d by (simp add: unat_word_ariths)
      then show ?thesis using False \<open>is_digit c\<close> Cons [of "v * 10 + (of_char c - 48)"]
        by (simp add: digits_value_def d_def [symmetric] Let_def)
    qed
  qed
qed

lemma parseAffectedRows_value:
  "unat (parseAffectedRows raw) =
     (case raw of None \<Rightarrow> 0 | Some s \<Rightarrow> min 18446744073709551615 (digits_value 0 (takeWhile is_digit s)))"
  using affected_loop_value [of 0] by (simp add: parseAffectedRows_def split: option.split)

lemma to_float_exact: "n < 9007199254740992 \<Longrightarrow> to_float n = n"
  by (simp add: to_float_def ulp.simps)

lemma halves: "unat (ucast (drop_bit 32 (v :: u64)) :: u32) * 4294967296 + unat (ucast (v AND 0xFFFFFFFF) :: u32) = unat v"
proof -
  have "unat (ucast (drop_bit 32 v) :: u32) = unat v div 4294967296"
    using unat_u64 [of v] by (simp add: unsigned_ucast_eq unsigned_drop_bit_eq take_bit_nat_eq_self drop_bit_nat_def)
  moreover have "v AND 0xFFFFFFFF = take_bit 32 v" by (simp add: take_bit_eq_mask mask_eq_exp_minus_1)
  moreover have "unat (ucast (take_bit 32 v) :: u32) = unat v mod 4294967296"
    by (simp add: unsigned_ucast_eq unsigned_take_bit_eq take_bit_nat_def)
  ultimately show ?thesis by simp
qed

section \<open>A result block field by field\<close>

definition name_of :: "pg_result \<Rightarrow> int \<Rightarrow> bytes" where
  "name_of r field = (case PQfname r field of None \<Rightarrow> [] | Some bs \<Rightarrow> bs)"

definition value_of :: "pg_result \<Rightarrow> int \<Rightarrow> int \<Rightarrow> bytes option" where
  "value_of r row field =
     (if PQgetisnull r row field = 1 then None
      else Some (take (nat (PQgetlength r row field)) (case PQgetvalue r row field of None \<Rightarrow> [] | Some bs \<Rightarrow> bs)))"

definition tag_of :: "pg_result \<Rightarrow> bytes" where
  "tag_of r = (case PQcmdStatus r of None \<Rightarrow> [] | Some bs \<Rightarrow> bs)"

definition text_field :: "bytes \<Rightarrow> bytes" where
  "text_field bs = writeInt (int (length bs)) @ bs"

definition value_field :: "bytes option \<Rightarrow> bytes" where
  "value_field v = (case v of None \<Rightarrow> writeInt (- 1) | Some bs \<Rightarrow> text_field bs)"

text \<open>What libpq promises of a value that is not NULL: a length, and a pointer to as many bytes.\<close>

definition value_ok :: "pg_result \<Rightarrow> int \<Rightarrow> int \<Rightarrow> bool" where
  "value_ok r row field \<longleftrightarrow>
     PQgetisnull r row field = 1
     \<or> 0 \<le> PQgetlength r row field \<and> PQgetlength r row field \<le> INT_MAX
       \<and> (case PQgetvalue r row field of None \<Rightarrow> False | Some bs \<Rightarrow> PQgetlength r row field \<le> int (length bs))"

lemma reads_read_text: "int (length bs) \<le> INT_MAX \<Longrightarrow> reads read_text (text_field bs) (text_of bs)"
  unfolding read_text_def text_field_def
  by (rule reads_and_then, rule reads_readInt) (auto simp: int32_def intro: reads_map reads_readBytes)

lemma reads_read_value: "(case v of None \<Rightarrow> True | Some bs \<Rightarrow> int (length bs) \<le> INT_MAX) \<Longrightarrow> reads read_value (value_field v) v"
proof (cases v)
  case None
  then show ?thesis unfolding read_value_def value_field_def
    by (simp, intro reads_map [OF reads_readInt]) (simp_all add: int32_def)
next
  case (Some bs)
  moreover assume "case v of None \<Rightarrow> True | Some bs \<Rightarrow> int (length bs) \<le> INT_MAX"
  ultimately show ?thesis unfolding read_value_def value_field_def text_field_def option.case
    by (simp, intro reads_and_then [OF reads_readInt]) (auto simp: int32_def intro: reads_map reads_readBytes)
qed

lemma take_strlen: "take (nat (strlen s)) (case s of None \<Rightarrow> [] | Some bs \<Rightarrow> bs) = (case s of None \<Rightarrow> [] | Some bs \<Rightarrow> bs)"
  by (simp add: strlen_def split: option.split)

lemma emits_text:
  "emits (\<lambda>out. do { out \<leftarrow> putInt (strlen s) out; putBytes s (strlen s) out })
     (text_field (case s of None \<Rightarrow> [] | Some bs \<Rightarrow> bs))"
proof -
  have "emits (putBytes s (strlen s)) (take (nat (strlen s)) (case s of None \<Rightarrow> [] | Some bs \<Rightarrow> bs))"
    by (rule emits_putBytes) (auto simp: strlen_def split: option.splits)
  from emits_bind [OF emits_putInt this, of "strlen s"] show ?thesis
    unfolding take_strlen text_field_def by (simp add: strlen_def [of s] split: option.splits)
qed

lemma emits_put_value:
  assumes "value_ok r row field"
  shows "emits (put_value r row field) (value_field (value_of r row field))"
proof (cases "PQgetisnull r row field = 1")
  case True
  then have "put_value r row field = putInt (- 1)" by (auto simp: put_value_def)
  with True show ?thesis by (simp add: value_of_def value_field_def emits_putInt)
next
  case False
  let ?len = "PQgetlength r row field"
  from False assms obtain bs where bs: "PQgetvalue r row field = Some bs" "0 \<le> ?len" "?len \<le> int (length bs)"
    by (auto simp: value_ok_def split: option.splits)
  have "emits (putBytes (PQgetvalue r row field) ?len) (take (nat ?len) bs)"
    by (rule emits_putBytes) (use bs in auto)
  from emits_bind [OF emits_putInt this, of ?len] show ?thesis using False bs
    by (simp add: put_value_def [abs_def] value_of_def value_field_def text_field_def Let_def)
qed

interpretation name_field: wire_field "put_name r" "\<lambda>f. text_field (name_of r f)" read_text "\<lambda>f. text_of (name_of r f)"
    "\<lambda>f. int (length (name_of r f)) \<le> INT_MAX" for r
  by unfold_locales (use emits_text in \<open>simp_all add: put_name_def [abs_def] name_of_def Let_def reads_read_text\<close>)

interpretation cell_field: wire_field "put_value r row" "\<lambda>f. value_field (value_of r row f)" read_value "value_of r row"
    "value_ok r row" for r row
  by unfold_locales (simp add: emits_put_value, rule reads_read_value, auto simp: value_ok_def value_of_def split: option.splits)

interpretation row_field: wire_field "\<lambda>row. put_all (put_value r row) [0..PQnfields r - 1]"
    "\<lambda>row. concat (map (\<lambda>f. value_field (value_of r row f)) [0..PQnfields r - 1])"
    "read_times (nat (PQnfields r)) read_value" "\<lambda>row. map (value_of r row) [0..PQnfields r - 1]"
    "\<lambda>row. list_all (value_ok r row) [0..PQnfields r - 1]" for r
  using cell_field.all_written cell_field.all_read [where js = "[0..PQnfields r - 1]"] by unfold_locales auto

section \<open>A whole result block\<close>

definition result_bytes :: "pg_result \<Rightarrow> bytes" where
  "result_bytes r =
     writeInt 0
     @ le_bytes (ucast (parseAffectedRows (PQcmdTuples r) AND 0xFFFFFFFF))
     @ le_bytes (ucast (drop_bit 32 (parseAffectedRows (PQcmdTuples r))))
     @ le_bytes (PQoidValue r)
     @ writeInt (PQnfields r)
     @ concat (map (\<lambda>f. text_field (name_of r f)) [0..PQnfields r - 1])
     @ writeInt (PQntuples r)
     @ concat (map (\<lambda>row. concat (map (\<lambda>f. value_field (value_of r row f)) [0..PQnfields r - 1])) [0..PQntuples r - 1])
     @ text_field (tag_of r)"

definition libpq_result :: "pg_result \<Rightarrow> bool" where
  "libpq_result r \<longleftrightarrow>
     0 \<le> PQnfields r \<and> PQnfields r \<le> INT_MAX \<and> 0 \<le> PQntuples r \<and> PQntuples r \<le> INT_MAX
     \<and> list_all (\<lambda>row. list_all (value_ok r row) [0..PQnfields r - 1]) [0..PQntuples r - 1]"

lemma length_concat_int: "int (length (concat xss)) = sum_list (map (\<lambda>xs. int (length xs)) xss)"
  by (induction xss) auto

lemma length_text_field [simp]: "int (length (text_field bs)) = 4 + int (length bs)"
  by (simp add: text_field_def)

lemma strlen_name: "strlen (PQfname r f) = int (length (name_of r f))"
  by (simp add: strlen_def name_of_def split: option.split)

lemma strlen_tag: "strlen (PQcmdStatus r) = int (length (tag_of r))"
  by (simp add: strlen_def tag_of_def split: option.split)

lemma length_value_field: "value_ok r row f \<Longrightarrow> int (length (value_field (value_of r row f))) = value_size r row f"
  by (auto simp: value_ok_def value_size_def value_field_def value_of_def split: option.splits)

lemma length_result_bytes:
  assumes "libpq_result r"
  shows "int (length (result_bytes r)) = result_size r"
proof -
  have "int (length (concat (map (\<lambda>row. concat (map (\<lambda>f. value_field (value_of r row f)) [0..PQnfields r - 1])) [0..PQntuples r - 1])))
      = sum_list (map (\<lambda>row. sum_list (map (value_size r row) [0..PQnfields r - 1])) [0..PQntuples r - 1])"
    unfolding length_concat_int map_map comp_def using assms
    by (intro arg_cong [where f = sum_list] map_cong refl)
       (auto simp: libpq_result_def list_all_iff length_concat_int comp_def
             intro!: arg_cong [where f = sum_list] map_cong length_value_field)
  then show ?thesis
    by (simp add: result_bytes_def result_size_def strlen_name strlen_tag length_concat_int comp_def)
qed

lemma result_size_parts:
  assumes "libpq_result r"
  shows "f \<in> set [0..PQnfields r - 1] \<Longrightarrow> int (length (name_of r f)) \<le> result_size r" and "int (length (tag_of r)) \<le> result_size r"
proof -
  have rows: "0 \<le> sum_list (map (\<lambda>row. sum_list (map (value_size r row) [0..PQnfields r - 1])) [0..PQntuples r - 1])"
  proof (intro sum_list_nonneg, clarsimp simp del: set_upto, intro sum_list_nonneg, clarsimp simp del: set_upto)
    fix row f
    assume "row \<in> set [0..PQntuples r - 1]" "f \<in> set [0..PQnfields r - 1]"
    then have "value_ok r row f" using assms by (simp add: libpq_result_def list_all_iff)
    then show "0 \<le> value_size r row f" by (auto simp: value_ok_def value_size_def)
  qed
  have names: "0 \<le> sum_list (map (\<lambda>f. 4 + strlen (PQfname r f)) [0..PQnfields r - 1])"
    by (intro sum_list_nonneg) (auto simp: strlen_name)
  show "int (length (tag_of r)) \<le> result_size r" using rows names by (simp add: result_size_def strlen_tag)
  show "int (length (name_of r f)) \<le> result_size r" if "f \<in> set [0..PQnfields r - 1]"
  proof -
    have "4 + strlen (PQfname r f) \<le> sum_list (map (\<lambda>f. 4 + strlen (PQfname r f)) [0..PQnfields r - 1])"
      using that by (intro member_le_sum_list) (auto simp: strlen_name)
    then show ?thesis using rows by (simp add: result_size_def strlen_tag strlen_name)
  qed
qed

lemma emits_put_result:
  assumes "libpq_result r" and "result_size r \<le> INT_MAX"
  shows "emits (put_result r) (result_bytes r)"
proof -
  have names: "list_all (\<lambda>f. int (length (name_of r f)) \<le> INT_MAX) [0..PQnfields r - 1]"
    unfolding list_all_iff using result_size_parts(1) [OF assms(1)] assms(2) by fastforce
  have rows: "list_all (\<lambda>row. list_all (value_ok r row) [0..PQnfields r - 1]) [0..PQntuples r - 1]"
    using assms(1) by (simp add: libpq_result_def)
  have tag: "emits (\<lambda>out. do { out \<leftarrow> putInt (strlen (PQcmdStatus r)) out; putBytes (PQcmdStatus r) (strlen (PQcmdStatus r)) out })
      (text_field (tag_of r))"
    using emits_text [of "PQcmdStatus r"] by (simp add: tag_of_def)
  show ?thesis unfolding put_result_def [abs_def] Let_def result_bytes_def
    by (intro emits_bind emits_putInt emits_putUInt tag name_field.all_written [OF names] row_field.all_written [OF rows])
qed

lemma encodeResult_bytes:
  assumes "libpq_result r" and "result_size r \<le> INT_MAX"
  shows "encodeResult r = Some (result_bytes r)"
proof -
  have "nat (result_size r) = length (result_bytes r)" using length_result_bytes [OF assms(1)] by simp
  with emits_all [OF emits_put_result [OF assms]] assms(2) show ?thesis by (simp add: encodeResult_def Let_def)
qed

definition head_bytes :: "u64 \<Rightarrow> u32 \<Rightarrow> int \<Rightarrow> bytes \<Rightarrow> int \<Rightarrow> bytes" where
  "head_bytes affected oid nf names nt =
     writeInt 0 @ (le_bytes (ucast (affected AND 0xFFFFFFFF)) @ le_bytes (ucast (drop_bit 32 affected)))
     @ le_bytes oid @ writeInt nf @ names @ writeInt nt"

lemma reads_status: "reads read_status (writeInt 0) ()"
  unfolding read_status_def by (rule reads_map, rule reads_readInt) (simp_all add: int32_def)

lemma reads_count:
  "reads readCount (le_bytes (ucast ((v :: u64) AND 0xFFFFFFFF)) @ le_bytes (ucast (drop_bit 32 v))) (to_float (unat v))"
  unfolding readCount_def
  by (rule reads_and_then, rule reads_readUInt, rule reads_map, rule reads_readUInt) (simp only: halves)

lemma reads_head:
  assumes "reads (read_times (nat nf) read_text) names fs" and "int32 nf" "0 \<le> nf" and "int32 nt" "0 \<le> nt"
    and "nf = 0 \<longrightarrow> nt = 0"
  shows "reads read_head (head_bytes affected oid nf names nt)
    \<lparr>field_names = fs, rowCount = nt, affectedRows = to_float (unat affected), lastInsertRowId = unat oid\<rparr>"
  unfolding read_head_def head_bytes_def
  apply (rule reads_and_then, rule reads_status)
  apply (rule reads_and_then, rule reads_count)
  apply (rule reads_and_then, rule reads_readUInt)
  apply (rule reads_and_then, rule reads_readInt, rule assms)
  using assms(3) apply (simp add: not_less)
  apply (rule reads_and_then, rule assms)
  apply (rule reads_map, rule reads_readInt, rule assms)
  using assms by auto

lemma reads_command: "int (length bs) \<le> INT_MAX \<Longrightarrow> reads read_command (text_field bs) (Some (text_of bs))"
proof -
  assume a: "int (length bs) \<le> INT_MAX"
  have "reads (and_then readInt (\<lambda>len. and_then (readString len) (\<lambda>s. yield (Some s)))) (text_field bs) (Some (text_of bs))"
    unfolding text_field_def
    by (rule reads_and_then, rule reads_readInt) (use a in \<open>auto simp: int32_def intro: reads_map reads_readString\<close>)
  then show ?thesis by (simp add: reads_def read_command_def text_field_def)
qed

definition decoded :: "pg_result \<Rightarrow> raw_result" where
  "decoded r =
     \<lparr>field_names = map (\<lambda>f. text_of (name_of r f)) [0..PQnfields r - 1], rowCount = PQntuples r,
      affectedRows = to_float (unat (parseAffectedRows (PQcmdTuples r))), lastInsertRowId = unat (PQoidValue r),
      result_rows = map (\<lambda>row. map (value_of r row) [0..PQnfields r - 1]) [0..PQntuples r - 1],
      command = Some (text_of (tag_of r))\<rparr>"

lemma reads_at_start: "reads rd bs x \<Longrightarrow> rd bs 0 = Value x (length bs)"
  unfolding reads_def by (drule spec [of _ "[]"], drule spec [of _ "[]"]) simp

lemma decode_result_bytes:
  assumes "libpq_result r" and "result_size r \<le> INT_MAX" and "PQnfields r = 0 \<longrightarrow> PQntuples r = 0"
  shows "decodeResult (Some (result_bytes r)) = Value (decoded r) (length (result_bytes r))"
proof -
  have names: "list_all (\<lambda>f. int (length (name_of r f)) \<le> INT_MAX) [0..PQnfields r - 1]"
    unfolding list_all_iff using result_size_parts(1) [OF assms(1)] assms(2) by fastforce
  have rows: "list_all (\<lambda>row. list_all (value_ok r row) [0..PQnfields r - 1]) [0..PQntuples r - 1]"
    using assms(1) by (simp add: libpq_result_def)
  have tag: "int (length (tag_of r)) \<le> INT_MAX" using result_size_parts(2) [OF assms(1)] assms(2) by linarith
  let ?names = "concat (map (\<lambda>f. text_field (name_of r f)) [0..PQnfields r - 1])"
  let ?h = "\<lparr>field_names = map (\<lambda>f. text_of (name_of r f)) [0..PQnfields r - 1], rowCount = PQntuples r,
      affectedRows = to_float (unat (parseAffectedRows (PQcmdTuples r))), lastInsertRowId = unat (PQoidValue r)\<rparr>"
  have h: "reads read_head (head_bytes (parseAffectedRows (PQcmdTuples r)) (PQoidValue r) (PQnfields r) ?names (PQntuples r)) ?h"
    by (rule reads_head)
       (use name_field.all_read [OF names] assms in \<open>auto simp: libpq_result_def int32_def\<close>)
  have rs: "reads (read_times (nat (rowCount ?h)) (read_times (length (field_names ?h)) read_value))
      (concat (map (\<lambda>row. concat (map (\<lambda>f. value_field (value_of r row f)) [0..PQnfields r - 1])) [0..PQntuples r - 1]))
      (map (\<lambda>row. map (value_of r row) [0..PQnfields r - 1]) [0..PQntuples r - 1])"
    using row_field.all_read [OF rows] by simp
  have split: "result_bytes r = head_bytes (parseAffectedRows (PQcmdTuples r)) (PQoidValue r) (PQnfields r) ?names (PQntuples r)
      @ concat (map (\<lambda>row. concat (map (\<lambda>f. value_field (value_of r row f)) [0..PQnfields r - 1])) [0..PQntuples r - 1])
      @ text_field (tag_of r)"
    by (simp add: result_bytes_def head_bytes_def)
  have "reads (and_then read_head (\<lambda>h. and_then (read_times (nat (rowCount h)) (read_times (length (field_names h)) read_value))
      (\<lambda>rows. and_then read_command (\<lambda>tag. yield (head.extend h \<lparr>result_rows = rows, command = tag\<rparr>)))))
      (result_bytes r) (decoded r)"
    unfolding split
    by (rule reads_and_then, rule h, rule reads_and_then, rule rs, rule reads_map, rule reads_command [OF tag])
       (simp add: decoded_def head.defs)
  then show ?thesis using reads_at_start by (simp add: decodeResult_def)
qed

section \<open>Error blocks\<close>

lemma text_of_to_bytes [simp]: "text_of (to_bytes s) = s"
proof -
  have "char_of (unat (of_char c :: byte)) = c" for c
  proof -
    have "(of_char c :: byte) = of_nat (of_char c)" by (cases c) (simp add: of_char_def)
    moreover have "unat (of_nat (of_char c) :: byte) = of_char c"
      using of_char_mod_256 [of c, where ?'a = nat] by (simp add: unsigned_of_nat take_bit_nat_def)
    ultimately show ?thesis by simp
  qed
  then show ?thesis by (simp add: text_of_def to_bytes_def comp_def)
qed

lemma length_to_bytes [simp]: "length (to_bytes s) = length s"
  by (simp add: to_bytes_def)

lemma errorBlock_bytes: "errorBlock message = Some (writeInt 1 @ text_field (to_bytes message))"
proof -
  let ?n = "int (length message)"
  have "emits (putBytes (Some (to_bytes message)) ?n) (take (nat ?n) (to_bytes message))"
    by (rule emits_putBytes) simp
  then have "emits (\<lambda>out. do { out \<leftarrow> putInt 1 out; out \<leftarrow> putInt ?n out; putBytes (Some (to_bytes message)) ?n out })
      (writeInt 1 @ writeInt ?n @ to_bytes message)"
    by (intro emits_bind emits_putInt) simp
  from emits_all [OF this] show ?thesis
    by (simp add: errorBlock_def Let_def text_field_def)
qed

lemma decode_error:
  assumes "int (length message) \<le> INT_MAX"
  shows "decodeResult (Some (writeInt 1 @ text_field (to_bytes message))) = Thrown (SQLError ''request'' message message)"
proof -
  let ?b = "writeInt 1 @ text_field (to_bytes message)"
  have "readInt ?b 0 = Value 1 4"
    using reads_readInt [of 1, unfolded reads_def, rule_format, of "[]"] by (simp add: int32_def)
  moreover have "read_text ?b 4 = Value message (length ?b)"
    using reads_read_text [of "to_bytes message", unfolded reads_def, rule_format, of "writeInt 1" "[]"] assms by simp
  ultimately show ?thesis
    by (simp add: decodeResult_def read_head_def read_status_def and_then.simps throw_def)
qed

lemma encodeResult_too_large:
  "result_size r > INT_MAX \<Longrightarrow> encodeResult r = errorBlock (''The result is '' @ decimal (nat (result_size r)) @
     '' bytes, more than one call can return; fetch it in parts.'')"
  by (simp add: encodeResult_def Let_def)

section \<open>Any block\<close>

lemma safe_read_text [safe_intros]: "safe_reader 4 read_text"
  unfolding read_text_def by (intro safe_intros)

lemma safe_read_value [safe_intros]: "safe_reader 4 read_value"
  unfolding read_value_def by (intro safe_intros)

lemma safe_status [safe_intros]: "safe_reader 4 read_status"
  unfolding read_status_def by (intro safe_intros safe_weaken [of 4 read_text 0]) simp_all

lemma safe_command [safe_intros]: "safe_reader 0 read_command"
proof -
  have "safe_reader 4 (and_then readInt (\<lambda>len. and_then (readString len) (\<lambda>s. yield (Some s))))"
    by (intro safe_intros)
  from safe_weaken [OF this, of 0] show ?thesis by (simp add: safe_reader_def read_command_def)
qed

lemma safe_times0: "safe_reader k rd \<Longrightarrow> safe_reader 0 (read_times n rd)"
  by (rule safe_weaken [OF safe_times]) simp_all

lemma safe_head: "safe_reader 4 read_head"
  unfolding read_head_def readCount_def
  by (intro safe_intros safe_times0 [OF safe_read_text] safe_weaken [of 4 readUInt 0] safe_weaken [of 4 readInt 0]) simp_all

section \<open>Properties\<close>

text \<open>
  C16. What libpq says of a result crosses to Haxe whole: \<open>encodeResult\<close> sizes its block exactly, writes nowhere
  outside it, and \<open>decodeResult\<close> reads from it every column name, every value with its bytes or its NULL, the
  command tag, the row id, and the number of rows, the decimal libpq gave up to \<^verbatim>\<open>ULLONG_MAX\<close>, exact up to
  two to the 53.
\<close>

theorem results_roundtrip:
  assumes "libpq_result r" and "result_size r \<le> INT_MAX" and "PQnfields r = 0 \<longrightarrow> PQntuples r = 0"
  shows "\<exists>block n. encodeResult r = Some block \<and> int (length block) = result_size r
    \<and> n = (case PQcmdTuples r of None \<Rightarrow> 0 | Some s \<Rightarrow> min 18446744073709551615 (digits_value 0 (takeWhile is_digit s)))
    \<and> decodeResult (Some block) = Value
        \<lparr>field_names = map (\<lambda>f. text_of (name_of r f)) [0..PQnfields r - 1], rowCount = PQntuples r,
         affectedRows = to_float n, lastInsertRowId = unat (PQoidValue r),
         result_rows = map (\<lambda>row. map (value_of r row) [0..PQnfields r - 1]) [0..PQntuples r - 1],
         command = Some (text_of (tag_of r))\<rparr> (length block)
    \<and> (n < 9007199254740992 \<longrightarrow> to_float n = n)"
  using encodeResult_bytes [OF assms(1,2)] length_result_bytes [OF assms(1)] decode_result_bytes [OF assms]
    to_float_exact parseAffectedRows_value [of "PQcmdTuples r"]
  by (intro exI [of _ "result_bytes r"] exI [of _ "unat (parseAffectedRows (PQcmdTuples r))"]) (simp add: decoded_def)

definition sample_result :: pg_result where
  "sample_result =
     \<lparr>PQntuples = 1, PQnfields = 2, PQfname = (\<lambda>f. Some (if f = 0 then [105, 100] else [118])),
      PQgetisnull = (\<lambda>row f. if f = 1 then 1 else 0), PQgetlength = (\<lambda>row f. 2),
      PQgetvalue = (\<lambda>row f. Some [0, 9, 0]), PQcmdTuples = Some ''12'', PQcmdStatus = Some [79, 75], PQoidValue = 5\<rparr>"

theorem results_roundtrip_witness:
  "\<exists>block. encodeResult sample_result = Some block \<and> int (length block) = 51
    \<and> decodeResult (Some block) = Value
        \<lparr>field_names = [''id'', ''v''], rowCount = 1, affectedRows = 12, lastInsertRowId = 5,
         result_rows = [[Some [0, 9], None]], command = Some ''OK''\<rparr> 51"
proof -
  have a: "libpq_result sample_result" by (simp add: libpq_result_def sample_result_def value_ok_def upto.simps)
  have b: "result_size sample_result = 51"
    by (simp add: result_size_def sample_result_def value_size_def strlen_def upto.simps)
  have c: "PQnfields sample_result = 0 \<longrightarrow> PQntuples sample_result = 0" by (simp add: sample_result_def)
  have d: "PQnfields sample_result = 2" "PQntuples sample_result = 1" "PQcmdTuples sample_result = Some ''12''"
    "PQoidValue sample_result = 5" "name_of sample_result 0 = [105, 100]" "name_of sample_result 1 = [118]"
    "value_of sample_result 0 0 = Some [0, 9]" "value_of sample_result 0 1 = None" "tag_of sample_result = [79, 75]"
    by (simp_all add: sample_result_def name_of_def value_of_def tag_of_def)
  have e: "is_digit CHR ''1''" "is_digit CHR ''2''" "digits_value 0 ''12'' = 12"
    by (simp_all add: digits_value_def is_digit_def of_char_def)
  have t: "text_of [105, 100] = ''id''" "text_of [118] = ''v''" "text_of [79, 75] = ''OK''" by code_simp+
  show ?thesis using results_roundtrip [OF a _ c] unfolding b d
    by (auto simp: e d t upto.simps to_float_exact)
qed

text \<open>A reader that throws on what it is given.\<close>

definition fails :: "'a reader \<Rightarrow> bytes \<Rightarrow> sql_error \<Rightarrow> bool" where
  "fails rd bs e \<longleftrightarrow> (\<forall>pre post. rd (pre @ bs @ post) (length pre) = Thrown e)"

lemma reads_then_fails:
  assumes "reads rd xs x" and "fails (k x) ys e"
  shows "fails (and_then rd k) (xs @ ys) e"
  unfolding fails_def
proof (intro allI)
  fix pre post
  have "rd (pre @ (xs @ ys) @ post) (length pre) = Value x (length (pre @ xs))"
    using assms(1) [unfolded reads_def, rule_format, of pre "ys @ post"] by simp
  then show "and_then rd k (pre @ (xs @ ys) @ post) (length pre) = Thrown e"
    using assms(2) [unfolded fails_def, rule_format, of "pre @ xs" post] by (simp add: and_then.simps)
qed

lemma rows_without_columns:
  assumes "int32 nt" and "0 < nt"
  shows "fails read_head (head_bytes affected oid 0 [] nt)
    (bridge_error (''rowCount='' @ int_text nt @ '' fieldCount=0'') ''Postgres bridge claimed rows in a result with no columns.'')"
proof -
  have z: "reads readInt (writeInt 0) 0" by (rule reads_readInt) (simp add: int32_def)
  have y: "reads (read_times (nat 0) read_text) [] []" by (simp add: reads_yield)
  have f: "fails (throw e) [] e" for e :: sql_error by (simp add: fails_def throw_def)
  have "head_bytes affected oid 0 [] nt = writeInt 0 @ (le_bytes (ucast (affected AND 0xFFFFFFFF)) @ le_bytes (ucast (drop_bit 32 affected)))
     @ le_bytes oid @ writeInt 0 @ [] @ writeInt nt @ []" by (simp add: head_bytes_def)
  then show ?thesis unfolding read_head_def
    apply (simp only:)
    apply (rule reads_then_fails, rule reads_status, rule reads_then_fails, rule reads_count)
    apply (rule reads_then_fails, rule reads_readUInt, rule reads_then_fails, rule z)
    apply (simp only: less_irrefl if_False)
    apply (rule reads_then_fails, rule y, rule reads_then_fails, rule reads_readInt, rule assms)
    using assms f by (simp add: not_less)
qed

lemma fails_at_start: "fails rd bs e \<Longrightarrow> rd (bs @ post) 0 = Thrown e"
  unfolding fails_def by (drule spec [of _ "[]"]) simp

lemma decode_rows_without_columns:
  assumes "libpq_result r" and "PQnfields r = 0" and "0 < PQntuples r"
  shows "decodeResult (Some (result_bytes r)) =
    Thrown (bridge_error (''rowCount='' @ int_text (PQntuples r) @ '' fieldCount=0'')
              ''Postgres bridge claimed rows in a result with no columns.'')"
proof -
  have "fails read_head (head_bytes (parseAffectedRows (PQcmdTuples r)) (PQoidValue r) 0 [] (PQntuples r))
      (bridge_error (''rowCount='' @ int_text (PQntuples r) @ '' fieldCount=0'')
         ''Postgres bridge claimed rows in a result with no columns.'')"
    by (rule rows_without_columns) (use assms in \<open>auto simp: libpq_result_def int32_def\<close>)
  note fails_at_start [OF this]
  moreover obtain tail where "result_bytes r = head_bytes (parseAffectedRows (PQcmdTuples r)) (PQoidValue r) 0 [] (PQntuples r) @ tail"
    using assms(2) by (simp add: result_bytes_def head_bytes_def)
  ultimately show ?thesis by (simp add: decodeResult_def and_then.simps)
qed



lemma and_then_Value:
  "and_then rd k data p = Value y q \<longleftrightarrow> (\<exists>x p'. rd data p = Value x p' \<and> k x data p' = Value y q)"
  by (auto simp: and_then.simps split: read.splits)

lemma read_head_rows:
  "read_head data p = Value h q \<Longrightarrow> 0 \<le> rowCount h \<and> (field_names h = [] \<longrightarrow> rowCount h = 0)"
  unfolding read_head_def
  by (auto simp: and_then_Value yield_def throw_def split: if_splits dest: read_timesD)

text \<open>
  C19. Whatever bytes \<open>decodeResult\<close> is given, it reads none outside them, and what it makes is bounded by them:
  every row has a value for each column and each value costs four bytes of the block.
\<close>

theorem results_any_block:
  "decodeResult (Some data) \<noteq> Outside
   \<and> (\<forall>r p. decodeResult (Some data) = Value r p \<longrightarrow>
        p \<le> length data \<and> (\<forall>row\<in>set (result_rows r). length row = length (field_names r))
        \<and> int (length (result_rows r)) = rowCount r
        \<and> 4 * (length (result_rows r) * length (field_names r)) \<le> length data
        \<and> (field_names r = [] \<longrightarrow> result_rows r = []))"
proof -
  let ?k = "\<lambda>h. and_then (read_times (nat (rowCount h)) (read_times (length (field_names h)) read_value)) (\<lambda>rows.
          and_then read_command (\<lambda>tag. yield (head.extend h \<lparr>result_rows = rows, command = tag\<rparr>)))"
  have cells: "safe_reader (n * (m * 4)) (read_times n (read_times m read_value))" for n m
    by (intro safe_times safe_read_value)
  have "safe_reader 0 (?k h)" for h
    by (intro safe_intros safe_weaken [OF cells]) simp
  with safe_and_then [OF safe_head, of 0 ?k] have safe: "safe_reader 4 (and_then read_head ?k)" by simp
  have dec: "decodeResult (Some data) = and_then read_head ?k data 0" by (simp add: decodeResult_def)
  show ?thesis
  proof (intro conjI allI impI ballI)
    show "decodeResult (Some data) \<noteq> Outside"
      using safe [unfolded safe_reader_def, rule_format, of 0 data] by (auto simp: dec)
  next
    fix r p
    assume "decodeResult (Some data) = Value r p"
    then obtain h q rows q' tag where h: "read_head data 0 = Value h q"
      and rows: "read_times (nat (rowCount h)) (read_times (length (field_names h)) read_value) data q = Value rows q'"
      and tag: "read_command data q' = Value tag p" and r: "r = head.extend h \<lparr>result_rows = rows, command = tag\<rparr>"
      by (auto simp: dec and_then_Value yield_def)
    have q: "q \<le> length data" using safe_head [unfolded safe_reader_def, rule_format, of 0 data] h by simp
    have q': "q + nat (rowCount h) * (length (field_names h) * 4) \<le> q'" "q' \<le> length data"
      using cells [unfolded safe_reader_def, rule_format, of q data "nat (rowCount h)" "length (field_names h)"] q rows by simp_all
    show "p \<le> length data" using safe_command [unfolded safe_reader_def, rule_format, of q' data] q' tag by simp
    have n: "length rows = nat (rowCount h)" using read_timesD [OF rows] .
    show "length row = length (field_names r)" if "row \<in> set (result_rows r)" for row
      using read_times_each [OF rows] that read_timesD by (fastforce simp: r head.defs)
    show "int (length (result_rows r)) = rowCount r" using n read_head_rows [OF h] by (simp add: r head.defs)
    show "4 * (length (result_rows r) * length (field_names r)) \<le> length data"
      using n q' by (simp add: r head.defs mult.commute mult.left_commute)
    show "result_rows r = []" if "field_names r = []" using that n read_head_rows [OF h] by (simp add: r head.defs)
  qed
qed

theorem results_any_block_witness:
  "\<exists>data r p. decodeResult (Some data) = Value r p \<and> result_rows r = [[Some [0, 9], None]]
     \<and> 4 * (length (result_rows r) * length (field_names r)) \<le> length data"
proof -
  have "decodeResult (Some (result_bytes sample_result)) = Value (decoded sample_result) (length (result_bytes sample_result))"
    by (rule decode_result_bytes)
       (simp_all add: libpq_result_def result_size_def sample_result_def value_ok_def value_size_def strlen_def upto.simps)
  moreover have "result_rows (decoded sample_result) = [[Some [0, 9], None]]"
    by (simp add: decoded_def sample_result_def value_of_def upto.simps)
  ultimately show ?thesis using results_any_block [of "result_bytes sample_result"] by blast
qed

section \<open>Text forms of binary values\<close>

lemma hex_digit_values: "list_all (\<lambda>n. hx_hex (of_char (''0123456789abcdef'' ! n)) = int n) [0..<16]"
  by code_simp

lemma nibbles_join: "list_all (\<lambda>n. push_bit 4 (int (n div 16)) OR int (n mod 16) = int n) [0..<256]"
  by code_simp

lemma hex_pairs_encoded: "hex_pairs (to_bytes (concat (map hex_byte v))) = Some v"
proof (induction v)
  case (Cons b v)
  have b: "unat b < 256" by (rule unat_byte)
  then have "unat b div 16 < 16" "unat b mod 16 < 16" by simp_all
  then have h: "hx_hex (of_char (''0123456789abcdef'' ! (unat b div 16))) = int (unat b div 16)"
    "hx_hex (of_char (''0123456789abcdef'' ! (unat b mod 16))) = int (unat b mod 16)"
    using hex_digit_values unfolding list_all_iff by auto
  have "push_bit 4 (int (unat b div 16)) OR int (unat b mod 16) = int (unat b)"
    using nibbles_join b unfolding list_all_iff by auto
  then show ?case using Cons h by (simp add: hex_byte_def to_bytes_def Let_def)
qed (simp add: to_bytes_def)

text \<open>
  The \<open>bytea\<close> text of any bytes decodes to those bytes.
\<close>

theorem bytea_roundtrip: "decodeByteaHex (Some (to_bytes (encodeByteaHex (Some v)))) = Some v"
proof -
  have e: "to_bytes (encodeByteaHex (Some v)) = 92 # 120 # to_bytes (concat (map hex_byte v))"
    by (simp add: encodeByteaHex_def to_bytes_def of_char_def)
  have "even (length (concat (map hex_byte v)))" by (induction v) (simp_all add: hex_byte_def)
  then show ?thesis unfolding e by (simp add: decodeByteaHex_def hex_pairs_encoded)
qed

end
