(* ===== verification/Pg_Bridge.thy ===== *)
theory Pg_Bridge
  imports Pg_Parameters Pg_Results
begin

text \<open>
  The connection side of \<^verbatim>\<open>db/postgres/_internal/NativePostgres.cpp\<close>: finding and loading libpq, the handle of a
  connection, and its entry points. The dynamic loader and libpq itself are arguments, records of functions on a
  world; a module's symbols are resolved by name, and the functions a loaded library's pointers call are those of
  its module. A call through a null pointer, or a write past the end of a buffer, is \<open>None\<close>. \<open>live\<close> observers
  of the world say which connections, cancel objects and results are allocated.
\<close>

section \<open>libpq\<close>

datatype ExecStatusType =
    PGRES_EMPTY_QUERY | PGRES_COMMAND_OK | PGRES_TUPLES_OK | PGRES_COPY_OUT | PGRES_COPY_IN | PGRES_BAD_RESPONSE
  | PGRES_NONFATAL_ERROR | PGRES_FATAL_ERROR | PGRES_COPY_BOTH | PGRES_SINGLE_TUPLE | PGRES_PIPELINE_SYNC
  | PGRES_PIPELINE_ABORTED

abbreviation (input) CONNECTION_OK :: int where
  "CONNECTION_OK \<equiv> 0"

record ('c, 'k, 'r, 'w) libpq =
  PQconnectdb :: "string \<Rightarrow> 'w \<Rightarrow> 'c option \<times> 'w"
  PQstatus :: "'c \<Rightarrow> 'w \<Rightarrow> int"
  PQerrorMessage :: "'c \<Rightarrow> 'w \<Rightarrow> string option"
  PQfinish :: "'c \<Rightarrow> 'w \<Rightarrow> 'w"
  PQexec :: "'c \<Rightarrow> string \<Rightarrow> 'w \<Rightarrow> 'r option \<times> 'w"
  PQexecParams :: "'c \<Rightarrow> string \<Rightarrow> int \<Rightarrow> parameters option \<Rightarrow> 'w \<Rightarrow> 'r option \<times> 'w"
  PQresultStatus :: "'r \<Rightarrow> 'w \<Rightarrow> ExecStatusType"
  PQresult :: "'r \<Rightarrow> 'w \<Rightarrow> pg_result"
  PQclear :: "'r \<Rightarrow> 'w \<Rightarrow> 'w"
  PQescapeStringConn :: "'c \<Rightarrow> string \<Rightarrow> 'w \<Rightarrow> string"
  PQgetCancel :: "'c \<Rightarrow> 'w \<Rightarrow> 'k option \<times> 'w"
  PQcancel :: "'k \<Rightarrow> 'w \<Rightarrow> int \<times> 'w"
  PQfreeCancel :: "'k \<Rightarrow> 'w \<Rightarrow> 'w"
  PQtransactionStatus :: "'c \<Rightarrow> 'w \<Rightarrow> int"

text \<open>The loader: a module for a path, whether a module has a symbol, giving a module back, and what its functions do.\<close>

record ('m, 'c, 'k, 'r, 'w) loader =
  load_module :: "string \<Rightarrow> 'w \<Rightarrow> 'm option \<times> 'w"
  resolveSymbol :: "'m \<Rightarrow> string \<Rightarrow> bool"
  free_module :: "'m \<Rightarrow> 'w \<Rightarrow> 'w"
  calls_of :: "'m \<Rightarrow> ('c, 'k, 'r, 'w) libpq"

record 'm LibPQApi =
  lib_path :: string
  lib_module :: 'm
  has_transactionStatus :: bool

record ('m, 'c, 'k) Handle =
  h_api :: "'m LibPQApi option"
  h_conn :: "'c option"
  h_cancel :: "'k option"
  h_error :: string

text \<open>What a C function reads of a string it is handed: up to the first NUL.\<close>

definition c_str :: "string \<Rightarrow> string" where
  "c_str s = takeWhile (\<lambda>c. c \<noteq> CHR 0x00) s"

definition is_ws :: "char \<Rightarrow> bool" where
  "is_ws c \<longleftrightarrow> c = CHR '' '' \<or> c = CHR 0x09 \<or> c = CHR 0x0D \<or> c = CHR 0x0A"

definition trimMessage :: "string option \<Rightarrow> string \<Rightarrow> string" where
  "trimMessage message fallback =
     (let out = (case message of None \<Rightarrow> fallback | Some [] \<Rightarrow> fallback | Some m \<Rightarrow> m);
          out = rev (dropWhile (\<lambda>c. c = CHR 0x0A \<or> c = CHR 0x0D \<or> c = CHR '' '') (rev out))
      in if out = [] then fallback else out)"

section \<open>Loading\<close>

definition required_symbols :: "string list" where
  "required_symbols =
     [''PQconnectdb'', ''PQstatus'', ''PQerrorMessage'', ''PQfinish'', ''PQexec'', ''PQresultStatus'', ''PQntuples'',
      ''PQnfields'', ''PQfname'', ''PQgetvalue'', ''PQgetisnull'', ''PQcmdTuples'', ''PQcmdStatus'', ''PQoidValue'',
      ''PQclear'', ''PQescapeStringConn'', ''PQexecParams'', ''PQgetlength'', ''PQgetCancel'', ''PQcancel'', ''PQfreeCancel'']"

definition tryLoad :: "('m, 'c, 'k, 'r, 'w) loader \<Rightarrow> string \<Rightarrow> 'w \<Rightarrow> 'm LibPQApi option \<times> 'w" where
  "tryLoad L p w =
     (case load_module L (c_str p) w of
        (None, w) \<Rightarrow> (None, w)
      | (Some m, w) \<Rightarrow>
          if list_all (resolveSymbol L m) required_symbols
          then (Some \<lparr>lib_path = p, lib_module = m, has_transactionStatus = resolveSymbol L m ''PQtransactionStatus''\<rparr>, w)
          else (None, free_module L m w))"

datatype platform = OnWindows | OnMac | OnLinux

definition backslash :: char where "backslash = CHR 0x5C"

definition defaultCandidates :: "platform \<Rightarrow> string list" where
  "defaultCandidates pl =
     (case pl of
        OnWindows \<Rightarrow> [''libpq.dll'', ''.'' @ [backslash] @ ''php'' @ [backslash] @ ''libpq.dll'',
          ''..'' @ [backslash] @ ''php'' @ [backslash] @ ''libpq.dll'',
          ''..'' @ [backslash] @ ''..'' @ [backslash] @ ''php'' @ [backslash] @ ''libpq.dll'']
      | OnMac \<Rightarrow> [''libpq.5.dylib'', ''libpq.dylib'', ''/opt/homebrew/opt/libpq/lib/libpq.5.dylib'',
          ''/opt/homebrew/lib/libpq.5.dylib'', ''/usr/local/opt/libpq/lib/libpq.5.dylib'',
          ''/usr/local/lib/libpq.5.dylib'', ''/Applications/Postgres.app/Contents/Versions/latest/lib/libpq.5.dylib'']
      | OnLinux \<Rightarrow> [''libpq.so.5'', ''libpq.so''])"

fun tried_list :: "string list \<Rightarrow> string" where
  "tried_list [] = ''''"
| "tried_list [c] = c"
| "tried_list (c # cs) = c @ '', '' @ tried_list cs"

text \<open>The libraries loaded so far are threaded through: \<open>g_libraries\<close>.\<close>

fun load_first :: "('m, 'c, 'k, 'r, 'w) loader \<Rightarrow> string list \<Rightarrow> 'm LibPQApi list \<Rightarrow> 'w \<Rightarrow> 'm LibPQApi option \<times> 'm LibPQApi list \<times> 'w" where
  "load_first L [] libs w = (None, libs, w)"
| "load_first L (c # cs) libs w =
     (case find (\<lambda>a. lib_path a = c) libs of
        Some a \<Rightarrow> (Some a, libs, w)
      | None \<Rightarrow>
          (case tryLoad L c w of
             (Some a, w) \<Rightarrow> (Some a, libs @ [a], w)
           | (None, w) \<Rightarrow> load_first L cs libs w))"

definition loadLibrary ::
  "('m, 'c, 'k, 'r, 'w) loader \<Rightarrow> string list \<Rightarrow> 'm LibPQApi list \<Rightarrow> 'w \<Rightarrow> (string + 'm LibPQApi) \<times> 'm LibPQApi list \<times> 'w" where
  "loadLibrary L candidates libs w =
     (case load_first L candidates libs w of
        (Some a, libs, w) \<Rightarrow> (Inr a, libs, w)
      | (None, libs, w) \<Rightarrow>
          (Inl (''Could not load libpq or its required symbols (tried '' @ tried_list candidates @ '').''), libs, w))"

section \<open>Opening and closing\<close>

definition trim_entry :: "string \<Rightarrow> string" where
  "trim_entry s = rev (dropWhile is_ws (rev (dropWhile is_ws s)))"

definition open_candidates :: "platform \<Rightarrow> string option list option \<Rightarrow> string list" where
  "open_candidates pl libraryPaths =
     (let given = (case libraryPaths of
                     None \<Rightarrow> []
                   | Some es \<Rightarrow> filter (\<lambda>s. s \<noteq> []) (map (\<lambda>e. trim_entry (case e of None \<Rightarrow> [] | Some s \<Rightarrow> s)) es))
      in fold (\<lambda>d cs. if d \<in> set cs then cs else cs @ [d]) (defaultCandidates pl) given)"

definition crossbyte_postgres_open ::
  "('m, 'c, 'k, 'r, 'w) loader \<Rightarrow> platform \<Rightarrow> string \<Rightarrow> string option list option \<Rightarrow> 'm LibPQApi list \<Rightarrow> 'w
    \<Rightarrow> ('m, 'c, 'k) Handle \<times> 'm LibPQApi list \<times> 'w" where
  "crossbyte_postgres_open L pl info libraryPaths libs w =
     (case loadLibrary L (open_candidates pl libraryPaths) libs w of
        (Inl e, libs, w) \<Rightarrow> (\<lparr>h_api = None, h_conn = None, h_cancel = None, h_error = e\<rparr>, libs, w)
      | (Inr a, libs, w) \<Rightarrow>
          let f = calls_of L (lib_module a); h = \<lparr>h_api = Some a, h_conn = None, h_cancel = None, h_error = ''''\<rparr>
          in (case PQconnectdb f (c_str info) w of
                (None, w) \<Rightarrow> (h\<lparr>h_error := ''PQconnectdb returned null.''\<rparr>, libs, w)
              | (Some c, w) \<Rightarrow>
                  if PQstatus f c w \<noteq> CONNECTION_OK
                  then (h\<lparr>h_error := trimMessage (PQerrorMessage f c w) ''Connection failed.''\<rparr>, libs, PQfinish f c w)
                  else (case PQgetCancel f c w of (k, w) \<Rightarrow> (h\<lparr>h_conn := Some c, h_cancel := k\<rparr>, libs, w))))"

definition crossbyte_postgres_error :: "('m, 'c, 'k) Handle option \<Rightarrow> string" where
  "crossbyte_postgres_error handle =
     (case handle of None \<Rightarrow> ''Postgres connection could not be allocated.'' | Some h \<Rightarrow> h_error h)"

definition crossbyte_postgres_close :: "('m, 'c, 'k, 'r, 'w) loader \<Rightarrow> ('m, 'c, 'k) Handle option \<Rightarrow> 'w \<Rightarrow> 'w option" where
  "crossbyte_postgres_close L handle w =
     (case handle of
        None \<Rightarrow> Some w
      | Some h \<Rightarrow>
          do {
            w \<leftarrow> (case h_cancel h of
                    None \<Rightarrow> Some w
                  | Some k \<Rightarrow> map_option (\<lambda>a. PQfreeCancel (calls_of L (lib_module a)) k w) (h_api h));
            (case h_conn h of
               None \<Rightarrow> Some w
             | Some c \<Rightarrow> map_option (\<lambda>a. PQfinish (calls_of L (lib_module a)) c w) (h_api h))
          })"

definition crossbyte_postgres_is_open :: "('m, 'c, 'k, 'r, 'w) loader \<Rightarrow> ('m, 'c, 'k) Handle option \<Rightarrow> 'w \<Rightarrow> bool option" where
  "crossbyte_postgres_is_open L handle w =
     (case handle of
        None \<Rightarrow> Some False
      | Some h \<Rightarrow>
          (case h_conn h of
             None \<Rightarrow> Some False
           | Some c \<Rightarrow> map_option (\<lambda>a. PQstatus (calls_of L (lib_module a)) c w = CONNECTION_OK) (h_api h)))"

section \<open>Requests\<close>

definition succeeded :: "ExecStatusType \<Rightarrow> bool" where
  "succeeded status \<longleftrightarrow>
     status = PGRES_COMMAND_OK \<or> status = PGRES_TUPLES_OK \<or> status = PGRES_SINGLE_TUPLE \<or> status = PGRES_EMPTY_QUERY"

text \<open>
  What both requests do with the result of their call: the failures, and the block of a result, which
  \<open>ResultGuard\<close> clears.
\<close>

definition finish_request ::
  "('c, 'k, 'r, 'w) libpq \<Rightarrow> 'c \<Rightarrow> string \<Rightarrow> 'r option \<times> 'w \<Rightarrow> (bytes \<times> 'w) option" where
  "finish_request f c null_message answer =
     (case answer of
        (None, w) \<Rightarrow> map_option (\<lambda>b. (b, w)) (errorBlock (trimMessage (PQerrorMessage f c w) null_message))
      | (Some r, w) \<Rightarrow>
          if \<not> succeeded (PQresultStatus f r w)
          then let failure = trimMessage (PQerrorMessage f c w) ''Postgres query failed.''
               in map_option (\<lambda>b. (b, PQclear f r w)) (errorBlock failure)
          else map_option (\<lambda>b. (b, PQclear f r w)) (encodeResult (PQresult f r w)))"

definition not_open :: "'w \<Rightarrow> (bytes \<times> 'w) option" where
  "not_open w = map_option (\<lambda>b. (b, w)) (errorBlock ''Postgres connection is not open.'')"

definition crossbyte_postgres_request_block ::
  "('m, 'c, 'k, 'r, 'w) loader \<Rightarrow> ('m, 'c, 'k) Handle option \<Rightarrow> string \<Rightarrow> 'w \<Rightarrow> (bytes \<times> 'w) option" where
  "crossbyte_postgres_request_block L handle sql w =
     (case handle of
        None \<Rightarrow> not_open w
      | Some h \<Rightarrow>
          (case h_conn h of
             None \<Rightarrow> not_open w
           | Some c \<Rightarrow>
               (case h_api h of
                  None \<Rightarrow> None
                | Some a \<Rightarrow>
                    let f = calls_of L (lib_module a)
                    in finish_request f c ''PQexec returned null.'' (PQexec f c (c_str sql) w))))"

definition crossbyte_postgres_request_params ::
  "('m, 'c, 'k, 'r, 'w) loader \<Rightarrow> ('m, 'c, 'k) Handle option \<Rightarrow> string \<Rightarrow> bytes option \<Rightarrow> int \<Rightarrow> 'w \<Rightarrow> (bytes \<times> 'w) option" where
  "crossbyte_postgres_request_params L handle sql params paramsLength w =
     (case handle of
        None \<Rightarrow> not_open w
      | Some h \<Rightarrow>
          (case h_conn h of
             None \<Rightarrow> not_open w
           | Some c \<Rightarrow>
               let available = (case params of None \<Rightarrow> 0 | Some bs \<Rightarrow> int (length bs))
               in if paramsLength < 0 \<or> paramsLength > available
                  then map_option (\<lambda>b. (b, w)) (errorBlock ''Malformed parameter block.'')
                  else case parseParameters (if paramsLength = 0 then None else params) paramsLength of
                         None \<Rightarrow> None
                       | Some (Inl failure) \<Rightarrow> map_option (\<lambda>b. (b, w)) (errorBlock failure)
                       | Some (Inr bound) \<Rightarrow>
                           (case h_api h of
                              None \<Rightarrow> None
                            | Some a \<Rightarrow>
                                let f = calls_of L (lib_module a); count = int (length (vals bound))
                                in finish_request f c ''PQexecParams returned null.''
                                     (PQexecParams f c (c_str sql) count (if count = 0 then None else Some bound) w))))"

text \<open>The buffer given to \<open>PQescapeStringConn\<close> holds \<open>raw.size() * 2 + 1\<close> characters; it writes a NUL after its text.\<close>

definition crossbyte_postgres_escape ::
  "('m, 'c, 'k, 'r, 'w) loader \<Rightarrow> ('m, 'c, 'k) Handle option \<Rightarrow> string \<Rightarrow> 'w \<Rightarrow> string option" where
  "crossbyte_postgres_escape L handle value w =
     (case handle of
        None \<Rightarrow> Some value
      | Some h \<Rightarrow>
          (case h_conn h of
             None \<Rightarrow> Some value
           | Some c \<Rightarrow>
               (case h_api h of
                  None \<Rightarrow> None
                | Some a \<Rightarrow>
                    let written = PQescapeStringConn (calls_of L (lib_module a)) c value w
                    in if length written + 1 > length value * 2 + 1 then None else Some written)))"

definition crossbyte_postgres_cancel ::
  "('m, 'c, 'k, 'r, 'w) loader \<Rightarrow> ('m, 'c, 'k) Handle option \<Rightarrow> 'w \<Rightarrow> (bool \<times> 'w) option" where
  "crossbyte_postgres_cancel L handle w =
     (case handle of
        None \<Rightarrow> Some (False, w)
      | Some h \<Rightarrow>
          (case h_cancel h of
             None \<Rightarrow> Some (False, w)
           | Some k \<Rightarrow>
               map_option (\<lambda>a. case PQcancel (calls_of L (lib_module a)) k w of (sent, w) \<Rightarrow> (sent = 1, w)) (h_api h)))"

definition crossbyte_postgres_transaction_status ::
  "('m, 'c, 'k, 'r, 'w) loader \<Rightarrow> ('m, 'c, 'k) Handle option \<Rightarrow> 'w \<Rightarrow> int option" where
  "crossbyte_postgres_transaction_status L handle w =
     (case handle of
        None \<Rightarrow> Some (- 1)
      | Some h \<Rightarrow>
          (case h_conn h of
             None \<Rightarrow> Some (- 1)
           | Some c \<Rightarrow>
               map_option (\<lambda>a. if has_transactionStatus a then PQtransactionStatus (calls_of L (lib_module a)) c w else - 1) (h_api h)))"

section \<open>Loading, proved\<close>

lemma trimMessage_nonempty: "fallback \<noteq> [] \<Longrightarrow> trimMessage message fallback \<noteq> []"
  by (simp add: trimMessage_def Let_def)

text \<open>The libraries loaded: no path twice, and every required symbol of each.\<close>

definition libraries_ok :: "('m, 'c, 'k, 'r, 'w) loader \<Rightarrow> 'm LibPQApi list \<Rightarrow> bool" where
  "libraries_ok L libs \<longleftrightarrow>
     distinct (map lib_path libs)
     \<and> list_all (\<lambda>a. list_all (resolveSymbol L (lib_module a)) required_symbols
                  \<and> has_transactionStatus a = resolveSymbol L (lib_module a) ''PQtransactionStatus'') libs"

lemma tryLoad_ok:
  "tryLoad L p w = (Some a, w') \<Longrightarrow> lib_path a = p \<and> list_all (resolveSymbol L (lib_module a)) required_symbols
     \<and> has_transactionStatus a = resolveSymbol L (lib_module a) ''PQtransactionStatus''"
  by (auto simp: tryLoad_def split: prod.splits option.splits if_splits)

lemma find_None_path: "find (\<lambda>a. lib_path a = c) libs = None \<longleftrightarrow> c \<notin> lib_path ` set libs"
  by (auto simp: find_None_iff)

lemma load_first_ok:
  assumes "libraries_ok L libs" and "load_first L cs libs w = (ret, libs', w')"
  shows "libraries_ok L libs' \<and> (case ret of None \<Rightarrow> libs' = libs | Some a \<Rightarrow> a \<in> set libs' \<and> lib_path a \<in> set cs)
    \<and> (\<exists>more. libs' = libs @ more)"
  using assms
proof (induction cs arbitrary: w)
  case (Cons c cs)
  show ?case
  proof (cases "find (\<lambda>a. lib_path a = c) libs")
    case (Some a)
    then have "a \<in> set libs" "lib_path a = c" by (auto simp: find_Some_iff)
    moreover from Some Cons.prems(2) have "ret = Some a" "libs' = libs" by simp_all
    ultimately show ?thesis using Cons.prems(1) by simp
  next
    case None
    obtain a v where t: "tryLoad L c w = (a, v)" by (cases "tryLoad L c w")
    show ?thesis
    proof (cases a)
      case None': None
      with None t Cons.prems have "load_first L cs libs v = (ret, libs', w')" by simp
      from Cons.IH [OF Cons.prems(1) this] show ?thesis by (auto split: option.splits)
    next
      case (Some b)
      with None t Cons.prems have e: "ret = Some b" "libs' = libs @ [b]" by simp_all
      moreover have "libraries_ok L (libs @ [b])"
        using Cons.prems(1) tryLoad_ok [of L c w b v] t Some None by (auto simp: libraries_ok_def find_None_path)
      ultimately show ?thesis using tryLoad_ok [of L c w b v] t Some by auto
    qed
  qed
qed auto

section \<open>What is allocated\<close>

text \<open>
  The documented behaviour of libpq's allocations: what each call makes or frees of connections, cancel
  objects and results, as observers of the world see it.
\<close>

record ('c, 'k, 'r) live =
  conns :: "'c set"
  cancels :: "'k set"
  results :: "'r set"

definition made :: "('w \<Rightarrow> ('c, 'k, 'r) live) \<Rightarrow> (('c, 'k, 'r) live \<Rightarrow> 'x set) \<Rightarrow> ('x \<Rightarrow> ('c, 'k, 'r) live \<Rightarrow> ('c, 'k, 'r) live)
    \<Rightarrow> 'w \<Rightarrow> 'x option \<times> 'w \<Rightarrow> bool" where
  "made obs get add w ans \<longleftrightarrow>
     (case ans of (None, w') \<Rightarrow> obs w' = obs w | (Some x, w') \<Rightarrow> x \<notin> get (obs w) \<and> obs w' = add x (obs w))"

definition tracks_libpq :: "('c, 'k, 'r, 'w) libpq \<Rightarrow> ('w \<Rightarrow> ('c, 'k, 'r) live) \<Rightarrow> bool" where
  "tracks_libpq f obs \<longleftrightarrow>
     (\<forall>info w. made obs conns (\<lambda>c l. l\<lparr>conns := insert c (conns l)\<rparr>) w (PQconnectdb f info w))
     \<and> (\<forall>c w. obs (PQfinish f c w) = (obs w)\<lparr>conns := conns (obs w) - {c}\<rparr>)
     \<and> (\<forall>c w. made obs cancels (\<lambda>k l. l\<lparr>cancels := insert k (cancels l)\<rparr>) w (PQgetCancel f c w))
     \<and> (\<forall>k w. obs (PQfreeCancel f k w) = (obs w)\<lparr>cancels := cancels (obs w) - {k}\<rparr>)
     \<and> (\<forall>k w. obs (snd (PQcancel f k w)) = obs w)
     \<and> (\<forall>c q w. made obs results (\<lambda>r l. l\<lparr>results := insert r (results l)\<rparr>) w (PQexec f c q w))
     \<and> (\<forall>c q n ps w. made obs results (\<lambda>r l. l\<lparr>results := insert r (results l)\<rparr>) w (PQexecParams f c q n ps w))
     \<and> (\<forall>r w. obs (PQclear f r w) = (obs w)\<lparr>results := results (obs w) - {r}\<rparr>)"

definition tracks_loader :: "('m, 'c, 'k, 'r, 'w) loader \<Rightarrow> ('w \<Rightarrow> ('c, 'k, 'r) live) \<Rightarrow> bool" where
  "tracks_loader L obs \<longleftrightarrow>
     (\<forall>p w. obs (snd (load_module L p w)) = obs w) \<and> (\<forall>m w. obs (free_module L m w) = obs w)
     \<and> (\<forall>m. tracks_libpq (calls_of L m) obs)"

text \<open>A handle whose pointers can be followed.\<close>

definition handle_ok :: "('m, 'c, 'k) Handle \<Rightarrow> bool" where
  "handle_ok h \<longleftrightarrow> h_conn h = None \<and> h_cancel h = None \<or> h_api h \<noteq> None"

lemma tryLoad_obs: "tracks_loader L obs \<Longrightarrow> obs (snd (tryLoad L p w)) = obs w"
  by (auto simp: tracks_loader_def tryLoad_def split: prod.splits option.splits) (metis snd_conv)+

lemma load_first_obs: "tracks_loader L obs \<Longrightarrow> load_first L cs libs w = (ret, libs', w') \<Longrightarrow> obs w' = obs w"
proof (induction cs arbitrary: w)
  case (Cons c cs)
  then show ?case using tryLoad_obs [OF Cons.prems(1), of c w]
    by (auto split: option.splits prod.splits)
qed auto

lemma loadLibrary_obs:
  "tracks_loader L obs \<Longrightarrow> loadLibrary L cs libs w = (ret, libs', w') \<Longrightarrow> obs w' = obs w"
  using load_first_obs by (fastforce simp: loadLibrary_def split: prod.splits option.splits)

lemma loadLibrary_error: "loadLibrary L cs libs w = (Inl e, libs', w') \<Longrightarrow> e \<noteq> []"
  by (auto simp: loadLibrary_def split: prod.splits option.splits)

lemma pg_tracks_calls: "tracks_loader L obs \<Longrightarrow> tracks_libpq (calls_of L m) obs"
  by (simp add: tracks_loader_def)

section \<open>Properties\<close>

lemma live_insert_delete [simp]:
  "c \<notin> conns l \<Longrightarrow> l\<lparr>conns := insert c (conns l)\<rparr>\<lparr>conns := insert c (conns l) - {c}\<rparr> = l"
  "k \<notin> cancels l \<Longrightarrow> l\<lparr>cancels := insert k (cancels l)\<rparr>\<lparr>cancels := insert k (cancels l) - {k}\<rparr> = l"
  "r \<notin> results l \<Longrightarrow> l\<lparr>results := insert r (results l)\<rparr>\<lparr>results := insert r (results l) - {r}\<rparr> = l"
  by simp_all

lemma tracks_libpqD:
  assumes "tracks_libpq f obs"
  shows "made obs conns (\<lambda>c l. l\<lparr>conns := insert c (conns l)\<rparr>) w (PQconnectdb f info w)"
    and "obs (PQfinish f c w) = (obs w)\<lparr>conns := conns (obs w) - {c}\<rparr>"
    and "made obs cancels (\<lambda>k l. l\<lparr>cancels := insert k (cancels l)\<rparr>) w (PQgetCancel f c w)"
    and "obs (PQfreeCancel f k w) = (obs w)\<lparr>cancels := cancels (obs w) - {k}\<rparr>"
    and "made obs results (\<lambda>r l. l\<lparr>results := insert r (results l)\<rparr>) w (PQexec f c q w)"
    and "made obs results (\<lambda>r l. l\<lparr>results := insert r (results l)\<rparr>) w (PQexecParams f c q n ps w)"
    and "obs (PQclear f r w) = (obs w)\<lparr>results := results (obs w) - {r}\<rparr>"
  using assms unfolding tracks_libpq_def by blast+

lemma open_connected:
  assumes L: "tracks_loader L obs" and lib: "loadLibrary L (open_candidates pl paths) libs w = (Inr a, libs', w1)"
    and con: "PQconnectdb (calls_of L (lib_module a)) (c_str info) w1 = (Some c, w2)"
    and ok: "PQstatus (calls_of L (lib_module a)) c w2 = CONNECTION_OK"
    and get: "PQgetCancel (calls_of L (lib_module a)) c w2 = (k, w3)"
  shows "crossbyte_postgres_open L pl info paths libs w = (\<lparr>h_api = Some a, h_conn = Some c, h_cancel = k, h_error = ''''\<rparr>, libs', w3)"
    and "conns (obs w3) = insert c (conns (obs w))"
    and "\<exists>w4. crossbyte_postgres_close L (Some \<lparr>h_api = Some a, h_conn = Some c, h_cancel = k, h_error = ''''\<rparr>) w3 = Some w4
      \<and> obs w4 = obs w"
proof -
  let ?f = "calls_of L (lib_module a)"
  note t = tracks_libpqD [OF pg_tracks_calls [OF L, of "lib_module a"]]
  have w1: "obs w1 = obs w" using loadLibrary_obs [OF L lib] .
  have c: "c \<notin> conns (obs w)" "obs w2 = (obs w)\<lparr>conns := insert c (conns (obs w))\<rparr>"
    using t(1) [of w1 "c_str info"] con w1 by (simp_all add: made_def)
  show "crossbyte_postgres_open L pl info paths libs w = (\<lparr>h_api = Some a, h_conn = Some c, h_cancel = k, h_error = ''''\<rparr>, libs', w3)"
    using lib con ok get by (simp add: crossbyte_postgres_open_def Let_def)
  have k: "made obs cancels (\<lambda>k l. l\<lparr>cancels := insert k (cancels l)\<rparr>) w2 (k, w3)"
    using t(3) [of w2 c] get by simp
  then show "conns (obs w3) = insert c (conns (obs w))" using c by (cases k) (auto simp: made_def)
  show "\<exists>w4. crossbyte_postgres_close L (Some \<lparr>h_api = Some a, h_conn = Some c, h_cancel = k, h_error = ''''\<rparr>) w3 = Some w4
      \<and> obs w4 = obs w"
    using k c by (cases k) (simp_all add: crossbyte_postgres_close_def made_def t(2,4))
qed

lemma open_not_connected:
  assumes L: "tracks_loader L obs" and lib: "loadLibrary L (open_candidates pl paths) libs w = (Inr a, libs1, v)"
    and con: "PQconnectdb (calls_of L (lib_module a)) (c_str info) v = (c, v2)"
    and no: "\<nexists>x. c = Some x \<and> PQstatus (calls_of L (lib_module a)) x v2 = CONNECTION_OK"
    and opened: "crossbyte_postgres_open L pl info paths libs w = (h, libs', w1)"
  shows "h_api h = Some a \<and> h_conn h = None \<and> h_cancel h = None \<and> h_error h \<noteq> [] \<and> libs' = libs1 \<and> obs w1 = obs w"
proof -
  note t = tracks_libpqD [OF pg_tracks_calls [OF L, of "lib_module a"]]
  have v: "obs v = obs w" using loadLibrary_obs [OF L lib] .
  show ?thesis
  proof (cases c)
    case None
    then show ?thesis using t(1) [of v "c_str info"] opened lib con v
      by (auto simp: crossbyte_postgres_open_def Let_def made_def)
  next
    case (Some x)
    then have "obs (PQfinish (calls_of L (lib_module a)) x v2) = obs w"
      using t(1) [of v "c_str info"] t(2) [of x v2] con v by (simp add: made_def)
    then show ?thesis using Some no opened lib con trimMessage_nonempty [of "''Connection failed.''"]
      by (auto simp: crossbyte_postgres_open_def Let_def)
  qed
qed

text \<open>
  C20. Opening a connection: the handle has an error or a connection, never both and never neither; a failed
  open leaves nothing allocated, a connection and its cancel object are freed by the close; no library is loaded
  twice from one path, and the one used has every required symbol and is one that was asked for or a default.
\<close>

theorem pg_open_close:
  assumes L: "tracks_loader L obs" and libs: "libraries_ok L libs"
    and opened: "crossbyte_postgres_open L pl info paths libs w = (h, libs', w1)"
  shows "handle_ok h \<and> libraries_ok L libs' \<and> (h_conn h = None \<longleftrightarrow> h_error h \<noteq> [])
    \<and> (h_conn h = None \<longrightarrow> obs w1 = obs w) \<and> (\<forall>c. h_conn h = Some c \<longrightarrow> conns (obs w1) = insert c (conns (obs w)))
    \<and> (\<forall>a. h_api h = Some a \<longrightarrow> a \<in> set libs' \<and> lib_path a \<in> set (open_candidates pl paths))
    \<and> (\<exists>w2. crossbyte_postgres_close L (Some h) w1 = Some w2 \<and> obs w2 = obs w)"
proof -
  obtain r0 libs1 v where lf: "load_first L (open_candidates pl paths) libs w = (r0, libs1, v)"
    by (metis prod_cases3)
  obtain ret where lib: "loadLibrary L (open_candidates pl paths) libs w = (ret, libs1, v)"
    and ret: "\<And>a. ret = Inr a \<Longrightarrow> r0 = Some a"
    using lf by (cases r0) (simp_all add: loadLibrary_def)
  have v: "obs v = obs w" using loadLibrary_obs [OF L lib] .
  have ok: "libraries_ok L libs1 \<and> (\<forall>a. ret = Inr a \<longrightarrow> a \<in> set libs1 \<and> lib_path a \<in> set (open_candidates pl paths))"
    using load_first_ok [OF libs lf] ret by (cases r0) auto
  show ?thesis
  proof (cases ret)
    case (Inl e)
    with lib opened have "h = \<lparr>h_api = None, h_conn = None, h_cancel = None, h_error = e\<rparr>" "libs' = libs1" "w1 = v"
      by (simp_all add: crossbyte_postgres_open_def)
    then show ?thesis using ok v loadLibrary_error [of L "open_candidates pl paths" libs w e] lib Inl
      by (simp add: handle_ok_def crossbyte_postgres_close_def)
  next
    case (Inr a)
    let ?f = "calls_of L (lib_module a)"
    note t = tracks_libpqD [OF pg_tracks_calls [OF L, of "lib_module a"]]
    obtain c v2 where con: "PQconnectdb ?f (c_str info) v = (c, v2)" by fastforce
    show ?thesis
    proof (cases "\<exists>x. c = Some x \<and> PQstatus ?f x v2 = CONNECTION_OK")
      case True
      then obtain x where x: "c = Some x" "PQstatus ?f x v2 = CONNECTION_OK" by blast
      obtain k v3 where k: "PQgetCancel ?f x v2 = (k, v3)" by fastforce
      note oc = open_connected [OF L lib [unfolded Inr] con [unfolded x(1)] x(2) k]
      have "h = \<lparr>h_api = Some a, h_conn = Some x, h_cancel = k, h_error = ''''\<rparr>" "libs' = libs1" "w1 = v3"
        using oc(1) opened by simp_all
      then show ?thesis using oc(2,3) ok Inr by (auto simp: handle_ok_def)
    next
      case False
      have "h_api h = Some a \<and> h_conn h = None \<and> h_cancel h = None \<and> h_error h \<noteq> [] \<and> libs' = libs1 \<and> obs w1 = obs w"
        by (rule open_not_connected [OF L lib [unfolded Inr] con _ opened]) (use False in blast)
      then show ?thesis using ok Inr by (auto simp: handle_ok_def crossbyte_postgres_close_def)
    qed
  qed
qed

text \<open>What libpq promises of the answers it gives: results and messages of a size that can be.\<close>

definition answers_fit :: "('c, 'k, 'r, 'w) libpq \<Rightarrow> bool" where
  "answers_fit f \<longleftrightarrow>
     (\<forall>r w. libpq_result (PQresult f r w) \<and> result_size (PQresult f r w) < 10 ^ 19)
     \<and> (\<forall>c w m. PQerrorMessage f c w = Some m \<longrightarrow> int (length m) \<le> INT_MAX)"

lemma encodeResult_returns: "libpq_result r \<Longrightarrow> \<exists>block. encodeResult r = Some block"
  using encodeResult_bytes [of r] encodeResult_too_large [of r] errorBlock_bytes
  by (cases "result_size r \<le> INT_MAX") simp_all

lemma finish_request_keeps:
  assumes "tracks_libpq f obs" and "answers_fit f"
    and "made obs results (\<lambda>r l. l\<lparr>results := insert r (results l)\<rparr>) w ans"
  shows "\<exists>block w'. finish_request f c m ans = Some (block, w') \<and> obs w' = obs w"
proof (cases ans)
  case (Pair r v)
  show ?thesis
  proof (cases r)
    case None
    then show ?thesis using Pair assms(3) by (simp add: finish_request_def made_def errorBlock_bytes)
  next
    case (Some x)
    then have "obs (PQclear f x v) = obs w" using assms(3) Pair tracks_libpqD(7) [OF assms(1), of x v] by (simp add: made_def)
    moreover obtain block where "encodeResult (PQresult f x v) = Some block"
      using encodeResult_returns [of "PQresult f x v"] assms(2) by (auto simp: answers_fit_def)
    ultimately show ?thesis using Some Pair by (auto simp: finish_request_def errorBlock_bytes Let_def)
  qed
qed

lemma request_params_keeps:
  assumes L: "tracks_loader L obs" and fit: "\<And>m. answers_fit (calls_of L m)" and Some: "h_conn h = Some c" and a: "h_api h = Some a"
  shows "\<exists>block w'. crossbyte_postgres_request_params L (Some h) sql params len w = Some (block, w') \<and> obs w' = obs w"
proof (cases "len < 0 \<or> len > (case params of None \<Rightarrow> 0 | Some bs \<Rightarrow> int (length bs))")
  case True
  then show ?thesis using Some by (simp add: crossbyte_postgres_request_params_def Let_def errorBlock_bytes)
next
  case False
  have "parseParameters (if len = 0 then None else params) len \<noteq> None"
  proof (cases "len = 0 \<or> params = None")
    case True
    then show ?thesis by (auto simp: parseParameters_def malformed_block_def)
  next
    case nonempty: False
    then obtain bs where "params = Some bs" by blast
    with nonempty False show ?thesis
      using parse_returns [of len bs] by simp
  qed
  then obtain out where out: "parseParameters (if len = 0 then None else params) len = Some out" by blast
  show ?thesis
  proof (cases out)
    case (Inl e)
    then show ?thesis using out False Some
      by (simp add: crossbyte_postgres_request_params_def Let_def errorBlock_bytes)
  next
    case (Inr bound)
    note t = pg_tracks_calls [OF L, of "lib_module a"]
    let ?n = "int (length (vals bound))"
    show ?thesis using out False Some a Inr
        finish_request_keeps [OF t fit tracks_libpqD(6) [OF t, of w c "c_str sql" ?n "if ?n = 0 then None else Some bound"], of c "''PQexecParams returned null.''"]
      by (simp add: crossbyte_postgres_request_params_def Let_def)
  qed
qed

text \<open>
  C21. Every request on a handle an open gave, whatever the query, the parameter block, its length and the
  server's answer, returns a block and clears the result it was given: nothing stays allocated and no null
  pointer is followed.
\<close>

theorem pg_requests_clear:
  assumes L: "tracks_loader L obs" and fit: "\<And>m. answers_fit (calls_of L m)" and h: "handle_ok h"
  shows "(\<exists>block w'. crossbyte_postgres_request_block L (Some h) sql w = Some (block, w') \<and> obs w' = obs w)
    \<and> (\<exists>block w'. crossbyte_postgres_request_params L (Some h) sql params len w = Some (block, w') \<and> obs w' = obs w)
    \<and> crossbyte_postgres_is_open L (Some h) w \<noteq> None \<and> crossbyte_postgres_cancel L (Some h) w \<noteq> None
    \<and> crossbyte_postgres_transaction_status L (Some h) w \<noteq> None"
proof (cases "h_conn h")
  case None
  have "crossbyte_postgres_cancel L (Some h) w \<noteq> None"
    using h by (auto simp: handle_ok_def crossbyte_postgres_cancel_def split: option.splits)
  with None show ?thesis
    by (simp add: crossbyte_postgres_request_block_def crossbyte_postgres_request_params_def not_open_def errorBlock_bytes
        crossbyte_postgres_is_open_def crossbyte_postgres_transaction_status_def)
next
  case (Some c)
  then obtain a where a: "h_api h = Some a" using h by (auto simp: handle_ok_def)
  let ?f = "calls_of L (lib_module a)"
  note t = pg_tracks_calls [OF L, of "lib_module a"]
  note keeps = finish_request_keeps [OF t fit]
  have block: "\<exists>block w'. crossbyte_postgres_request_block L (Some h) sql w = Some (block, w') \<and> obs w' = obs w"
    using keeps [OF tracks_libpqD(5) [OF t]] Some a by (simp add: crossbyte_postgres_request_block_def Let_def)
  have params: "\<exists>block w'. crossbyte_postgres_request_params L (Some h) sql params len w = Some (block, w') \<and> obs w' = obs w"
    by (rule request_params_keeps [OF L fit Some a])
  show ?thesis using block params Some a
    by (auto simp: crossbyte_postgres_is_open_def crossbyte_postgres_cancel_def crossbyte_postgres_transaction_status_def
        split: option.split prod.split)
qed

section \<open>A libpq that keeps the promises\<close>

definition demo_libpq :: "(nat, nat, nat, (nat, nat, nat) live) libpq" where
  "demo_libpq =
     \<lparr>PQconnectdb = (\<lambda>info w. if 0 \<in> conns w then (None, w) else (Some 0, w\<lparr>conns := insert 0 (conns w)\<rparr>)),
      PQstatus = (\<lambda>c w. CONNECTION_OK), PQerrorMessage = (\<lambda>c w. Some ''broken''),
      PQfinish = (\<lambda>c w. w\<lparr>conns := conns w - {c}\<rparr>),
      PQexec = (\<lambda>c q w. if 0 \<in> results w then (None, w) else (Some 0, w\<lparr>results := insert 0 (results w)\<rparr>)),
      PQexecParams = (\<lambda>c q n ps w. if 0 \<in> results w then (None, w) else (Some 0, w\<lparr>results := insert 0 (results w)\<rparr>)),
      PQresultStatus = (\<lambda>r w. PGRES_TUPLES_OK), PQresult = (\<lambda>r w. sample_result),
      PQclear = (\<lambda>r w. w\<lparr>results := results w - {r}\<rparr>), PQescapeStringConn = (\<lambda>c s w. s),
      PQgetCancel = (\<lambda>c w. if 0 \<in> cancels w then (None, w) else (Some 0, w\<lparr>cancels := insert 0 (cancels w)\<rparr>)),
      PQcancel = (\<lambda>k w. (1, w)), PQfreeCancel = (\<lambda>k w. w\<lparr>cancels := cancels w - {k}\<rparr>), PQtransactionStatus = (\<lambda>c w. 0)\<rparr>"

definition demo_loader :: "(unit, nat, nat, nat, (nat, nat, nat) live) loader" where
  "demo_loader = \<lparr>load_module = (\<lambda>p w. (Some (), w)), resolveSymbol = (\<lambda>m s. True), free_module = (\<lambda>m w. w),
     calls_of = (\<lambda>m. demo_libpq)\<rparr>"

definition demo_world :: "(nat, nat, nat) live" where
  "demo_world = \<lparr>conns = {}, cancels = {}, results = {}\<rparr>"

lemma demo_tracks: "tracks_loader demo_loader (\<lambda>w. w)"
  by (simp add: tracks_loader_def demo_loader_def tracks_libpq_def demo_libpq_def made_def)

lemma demo_fits: "answers_fit (calls_of demo_loader m)"
  by (simp add: answers_fit_def demo_loader_def demo_libpq_def libpq_result_def sample_result_def result_size_def
      value_ok_def value_size_def strlen_def upto.simps)

theorem pg_open_close_witness:
  "\<exists>h libs w1. crossbyte_postgres_open demo_loader OnLinux ''host=db'' None [] demo_world = (h, libs, w1)
     \<and> h_conn h = Some 0 \<and> conns w1 = {0} \<and> (\<exists>w2. crossbyte_postgres_close demo_loader (Some h) w1 = Some w2 \<and> w2 = demo_world)"
proof -
  obtain h libs w1 where o: "crossbyte_postgres_open demo_loader OnLinux ''host=db'' None [] demo_world = (h, libs, w1)"
    by (metis prod_cases3)
  have c: "h_conn h = Some 0" using o
    by (simp add: crossbyte_postgres_open_def loadLibrary_def open_candidates_def defaultCandidates_def demo_loader_def
        demo_libpq_def demo_world_def tryLoad_def required_symbols_def Let_def) auto
  have l: "libraries_ok demo_loader []" by (simp add: libraries_ok_def)
  show ?thesis using pg_open_close [OF demo_tracks l o] o c by (auto simp: demo_world_def)
qed

theorem pg_requests_clear_witness:
  "\<exists>block w'. crossbyte_postgres_request_params demo_loader
       (Some \<lparr>h_api = Some \<lparr>lib_path = ''libpq.so'', lib_module = (), has_transactionStatus = True\<rparr>, h_conn = Some 0,
              h_cancel = None, h_error = ''''\<rparr>) ''SELECT 1'' (Some [0, 0, 0, 0]) 4 demo_world = Some (block, w') \<and> w' = demo_world"
  using pg_requests_clear [OF demo_tracks demo_fits,
      of "\<lparr>h_api = Some \<lparr>lib_path = ''libpq.so'', lib_module = (), has_transactionStatus = True\<rparr>, h_conn = Some 0,
              h_cancel = None, h_error = ''''\<rparr>" "''SELECT 1''" demo_world "Some [0, 0, 0, 0]" 4]
  by (simp add: handle_ok_def)

end
