(* ===== verification/Dtls_Session.thy ===== *)
theory Dtls_Session
  imports Prelude Complex_Main
begin

text \<open>
  \<^verbatim>\<open>net/rtc/_internal/NativeDtlsSession.cpp\<close>: DTLS sessions with memory callbacks, named by handles. mbedTLS is an
  argument. A call into it is a program over the four callbacks the session installs, the datatype \<open>act\<close>: what
  the library sends, asks to receive and does with its timer, and its answer at the end; \<open>run\<close> plays such a program
  against the session. Sessions live in a heap of pointers, so that a call on one that was freed is \<open>None\<close>;
  the table of handles, the count of closes and a thread's remembered lookup are as in the code. Times are
  real numbers where the code has doubles.
\<close>

section \<open>Sessions\<close>

definition ERROR_NO_SESSION :: int where "ERROR_NO_SESSION = - 1000001"
definition ERROR_BAD_CERTIFICATE :: int where "ERROR_BAD_CERTIFICATE = - 1000002"
definition ERROR_BAD_KEY :: int where "ERROR_BAD_KEY = - 1000003"
definition ERROR_TOO_SMALL :: int where "ERROR_TOO_SMALL = - 1000004"

definition WANT_READ :: int where "WANT_READ = - 0x6900"
definition WANT_WRITE :: int where "WANT_WRITE = - 0x6880"
definition HELLO_VERIFY_REQUIRED :: int where "HELLO_VERIFY_REQUIRED = - 0x6A80"

datatype dtls_state = HANDSHAKING | ESTABLISHED | CLOSED

fun state_code :: "dtls_state \<Rightarrow> int" where
  "state_code HANDSHAKING = 0"
| "state_code ESTABLISHED = 1"
| "state_code CLOSED = 2"

record Timer =
  now :: real
  intermediate :: real
  finish :: real
  running :: bool

record 's Session =
  ssl :: 's
  inbound :: "bytes list"
  outbound :: "bytes list"
  plaintext :: "bytes list"
  timer :: Timer
  state :: dtls_state
  error :: int
  handshakeDone :: bool

section \<open>Callbacks\<close>

definition sendCallback :: "bytes \<Rightarrow> 's Session \<Rightarrow> int \<times> 's Session" where
  "sendCallback buf S = (int (length buf), S\<lparr>outbound := outbound S @ [buf]\<rparr>)"

text \<open>With the answer, what was copied to the buffer of \<open>len\<close> bytes.\<close>

definition recvCallback :: "nat \<Rightarrow> 's Session \<Rightarrow> int \<times> bytes \<times> 's Session" where
  "recvCallback len S =
     (case inbound S of
        [] \<Rightarrow> (WANT_READ, [], S)
      | front # rest \<Rightarrow>
          if length front > len then (WANT_READ, [], S\<lparr>inbound := rest\<rparr>)
          else (int (length front), front, S\<lparr>inbound := rest\<rparr>))"

definition setTimer :: "u32 \<Rightarrow> u32 \<Rightarrow> Timer \<Rightarrow> Timer" where
  "setTimer intermediateMs finishMs t =
     (if finishMs = 0 then t\<lparr>running := False\<rparr>
      else t\<lparr>running := True, intermediate := now t + real (unat intermediateMs) / 1000,
            finish := now t + real (unat finishMs) / 1000\<rparr>)"

definition getTimer :: "Timer \<Rightarrow> int" where
  "getTimer t =
     (if \<not> running t then - 1 else if now t \<ge> finish t then 2 else if now t \<ge> intermediate t then 1 else 0)"

section \<open>Calls into mbedTLS\<close>

datatype 's act =
    Return int bytes 's
  | Send bytes "int \<Rightarrow> 's act"
  | Recv nat "int \<Rightarrow> bytes \<Rightarrow> 's act"
  | SetTimer u32 u32 "'s act"
  | GetTimer "int \<Rightarrow> 's act"

primrec run :: "'s act \<Rightarrow> 's Session \<Rightarrow> int \<times> bytes \<times> 's Session" where
  "run (Return r data ctx) = (\<lambda>S. (r, data, S\<lparr>ssl := ctx\<rparr>))"
| "run (Send bs k) = (\<lambda>S. case sendCallback bs S of (r, S') \<Rightarrow> run (k r) S')"
| "run (Recv n k) = (\<lambda>S. case recvCallback n S of (r, bs, S') \<Rightarrow> run (k r bs) S')"
| "run (SetTimer i f k) = (\<lambda>S. run k (S\<lparr>timer := setTimer i f (timer S)\<rparr>))"
| "run (GetTimer k) = (\<lambda>S. run (k (getTimer (timer S))) S)"

record 's mbedtls =
  ctr_drbg_seed :: int
  x509_crt_parse :: "string \<Rightarrow> int"
  pk_parse_key :: "string \<Rightarrow> int"
  ssl_config_defaults :: "bool \<Rightarrow> int"
  ssl_conf_own_cert :: int
  ssl_setup :: "bool \<Rightarrow> int \<times> 's"
  ssl_handshake :: "'s \<Rightarrow> 's act"
  ssl_session_reset :: "'s \<Rightarrow> 's"
  ssl_read :: "'s \<Rightarrow> nat \<Rightarrow> 's act"
  ssl_write :: "'s \<Rightarrow> bytes \<Rightarrow> 's act"
  ssl_close_notify :: "'s \<Rightarrow> 's act"
  ssl_get_peer_cert :: "'s \<Rightarrow> bytes option"
  pem_write_buffer :: "bytes \<Rightarrow> nat \<Rightarrow> string option"
  IN_CONTENT_LEN :: nat

text \<open>The size of the buffer records are read into.\<close>

definition read_buffer :: "'s mbedtls \<Rightarrow> nat" where
  "read_buffer M = (if IN_CONTENT_LEN M > 16384 then 16384 else IN_CONTENT_LEN M)"

partial_function (option) drainPlaintext :: "'s mbedtls \<Rightarrow> 's Session \<Rightarrow> 's Session option" where
  "drainPlaintext M S =
     (case run (ssl_read M (ssl S) (read_buffer M)) S of
        (r, data, S) \<Rightarrow>
          if r > 0 then drainPlaintext M (S\<lparr>plaintext := plaintext S @ [take (nat r) data]\<rparr>)
          else if r = WANT_READ \<or> r = WANT_WRITE \<or> r = 0 then Some S
          else Some (S\<lparr>error := r, state := CLOSED\<rparr>))"

section \<open>The table of sessions\<close>

record 's Dtls =
  g_sessions :: "int \<rightharpoonup> nat"
  g_heap :: "nat \<rightharpoonup> 's Session"
  g_nextHandle :: int
  g_closes :: u32
  g_rngReady :: bool

record Lookup =
  t_lastHandle :: int
  t_lastSession :: "nat option"
  t_lastCloses :: u32

text \<open>\<open>find\<close>: the remembered answer, or the part made with the lock held.\<close>

definition find_locked :: "int \<Rightarrow> 's Dtls \<Rightarrow> nat option \<times> Lookup" where
  "find_locked handle D =
     (let session = g_sessions D handle
      in (session, \<lparr>t_lastHandle = handle, t_lastSession = session, t_lastCloses = g_closes D\<rparr>))"

definition find :: "int \<Rightarrow> 's Dtls \<Rightarrow> Lookup \<Rightarrow> nat option \<times> Lookup" where
  "find handle D t =
     (if handle \<noteq> 0 \<and> handle = t_lastHandle t \<and> g_closes D = t_lastCloses t then (t_lastSession t, t)
      else find_locked handle D)"

definition ensureRng :: "'s mbedtls \<Rightarrow> 's Dtls \<Rightarrow> bool \<times> 's Dtls" where
  "ensureRng M D =
     (if g_rngReady D then (True, D)
      else if ctr_drbg_seed M \<noteq> 0 then (False, D)
      else (True, D\<lparr>g_rngReady := True\<rparr>))"

definition new_session :: "'s \<Rightarrow> 's Session" where
  "new_session ctx =
     \<lparr>ssl = ctx, inbound = [], outbound = [], plaintext = [],
      timer = \<lparr>now = 0, intermediate = 0, finish = 0, running = False\<rparr>,
      state = HANDSHAKING, error = 0, handshakeDone = False\<rparr>"

text \<open>\<^verbatim>\<open>do { ... break; ... } while (false)\<close>: the first failure, or the context that was set up.\<close>

definition setup_session :: "'s mbedtls \<Rightarrow> bool \<Rightarrow> string \<Rightarrow> string \<Rightarrow> int + 's" where
  "setup_session M isServer certPem keyPem =
     (if x509_crt_parse M certPem \<noteq> 0 then Inl ERROR_BAD_CERTIFICATE
      else if pk_parse_key M keyPem \<noteq> 0 then Inl ERROR_BAD_KEY
      else let ret = ssl_config_defaults M isServer
           in if ret \<noteq> 0 then Inl ret
              else let ret = ssl_conf_own_cert M
                   in if ret \<noteq> 0 then Inl ret
                      else case ssl_setup M isServer of (ret, ctx) \<Rightarrow> if ret \<noteq> 0 then Inl ret else Inr ctx)"

text \<open>
  \<open>p\<close> is where the allocator puts the session. The counter is a signed \<^verbatim>\<open>int\<close>: past the largest, \<open>None\<close>.
\<close>

definition crossbyte_dtls_open ::
  "'s mbedtls \<Rightarrow> nat \<Rightarrow> bool \<Rightarrow> string option \<Rightarrow> string option \<Rightarrow> 's Dtls \<Rightarrow> (int \<times> 's Dtls) option" where
  "crossbyte_dtls_open M p isServer certificatePem privateKeyPem D =
     (case (certificatePem, privateKeyPem) of
        (Some certPem, Some keyPem) \<Rightarrow>
          (case ensureRng M D of
             (False, D) \<Rightarrow> Some (ERROR_BAD_CERTIFICATE, D)
           | (True, D) \<Rightarrow>
               (case setup_session M isServer certPem keyPem of
                  Inl ret \<Rightarrow> Some (ret, D)
                | Inr ctx \<Rightarrow>
                    let handle = g_nextHandle D
                    in if handle + 1 > INT_MAX then None
                       else Some (handle, D\<lparr>g_nextHandle := handle + 1, g_sessions := (g_sessions D)(handle \<mapsto> p),
                                            g_heap := (g_heap D)(p \<mapsto> new_session ctx)\<rparr>)))
      | _ \<Rightarrow> Some (ERROR_BAD_CERTIFICATE, D))"

text \<open>The first half of a close is made with the lock held, the second frees.\<close>

definition close_unlink :: "int \<Rightarrow> 's Dtls \<Rightarrow> nat option \<times> 's Dtls" where
  "close_unlink handle D =
     (case g_sessions D handle of
        None \<Rightarrow> (None, D)
      | Some p \<Rightarrow> (Some p, D\<lparr>g_sessions := (g_sessions D)(handle := None), g_closes := g_closes D + 1\<rparr>))"

definition close_free :: "nat \<Rightarrow> 's Dtls \<Rightarrow> 's Dtls" where
  "close_free p D = D\<lparr>g_heap := (g_heap D)(p := None)\<rparr>"

definition crossbyte_dtls_close :: "int \<Rightarrow> 's Dtls \<Rightarrow> 's Dtls" where
  "crossbyte_dtls_close handle D =
     (case close_unlink handle D of (None, D) \<Rightarrow> D | (Some p, D) \<Rightarrow> close_free p D)"

section \<open>Operations on a session\<close>

definition session_notify_close :: "'s mbedtls \<Rightarrow> 's Session \<Rightarrow> int \<times> 's Session" where
  "session_notify_close M S =
     (if state S \<noteq> ESTABLISHED then (0, S)
      else case run (ssl_close_notify M (ssl S)) S of (ret, _, S) \<Rightarrow> (ret, S\<lparr>state := CLOSED\<rparr>))"

text \<open>\<open>data\<close>, null as \<open>None\<close>, has at least \<open>len\<close> bytes.\<close>

definition session_feed :: "bytes option \<Rightarrow> int \<Rightarrow> 's Session \<Rightarrow> int \<times> 's Session" where
  "session_feed data len S =
     (case data of
        Some bs \<Rightarrow> if len > 0 then (0, S\<lparr>inbound := inbound S @ [take (nat len) bs]\<rparr>) else (0, S)
      | None \<Rightarrow> (0, S))"

definition session_step :: "'s mbedtls \<Rightarrow> real \<Rightarrow> 's Session \<Rightarrow> (int \<times> 's Session) option" where
  "session_step M t S =
     (let S = S\<lparr>timer := (timer S)\<lparr>now := t\<rparr>\<rparr>;
          drained = (\<lambda>S. if state S = ESTABLISHED
                         then map_option (\<lambda>S. (state_code (state S), S)) (drainPlaintext M S)
                         else Some (state_code (state S), S))
      in if state S = CLOSED then Some (state_code (state S), S)
         else if \<not> handshakeDone S
         then (case run (ssl_handshake M (ssl S)) S of
                 (ret, _, S) \<Rightarrow>
                   if ret = 0 then drained (S\<lparr>handshakeDone := True, state := ESTABLISHED\<rparr>)
                   else if ret = WANT_READ \<or> ret = WANT_WRITE then Some (state_code (state S), S)
                   else if ret = HELLO_VERIFY_REQUIRED
                   then Some (state_code (state S), S\<lparr>ssl := ssl_session_reset M (ssl S)\<rparr>)
                   else Some (ret, S\<lparr>error := ret, state := CLOSED\<rparr>))
         else drained S)"

definition front_size :: "bytes list \<Rightarrow> int" where
  "front_size q = (case q of [] \<Rightarrow> 0 | front # _ \<Rightarrow> int (length front))"

text \<open>\<open>crossbyte_dtls_take\<close> and \<open>crossbyte_dtls_read\<close> on their queue: the answer, the caller's buffer, the queue.\<close>

definition queue_take :: "bytes \<Rightarrow> int \<Rightarrow> bytes list \<Rightarrow> (int \<times> bytes \<times> bytes list) option" where
  "queue_take out cap q =
     (case q of
        [] \<Rightarrow> Some (0, out, q)
      | front # rest \<Rightarrow>
          if int (length front) > cap then Some (ERROR_TOO_SMALL, out, q)
          else map_option (\<lambda>out. (int (length front), out, rest)) (blit out 0 front))"

definition session_take :: "bytes \<Rightarrow> int \<Rightarrow> 's Session \<Rightarrow> ((int \<times> bytes) \<times> 's Session) option" where
  "session_take out cap S =
     map_option (\<lambda>(r, out, q). ((r, out), S\<lparr>outbound := q\<rparr>)) (queue_take out cap (outbound S))"

definition session_read :: "bytes \<Rightarrow> int \<Rightarrow> 's Session \<Rightarrow> ((int \<times> bytes) \<times> 's Session) option" where
  "session_read out cap S =
     map_option (\<lambda>(r, out, q). ((r, out), S\<lparr>plaintext := q\<rparr>)) (queue_take out cap (plaintext S))"

definition session_write :: "'s mbedtls \<Rightarrow> bytes \<Rightarrow> 's Session \<Rightarrow> int \<times> 's Session" where
  "session_write M data S =
     (if state S \<noteq> ESTABLISHED then (WANT_WRITE, S)
      else case run (ssl_write M (ssl S) data) S of
             (written, _, S) \<Rightarrow> (written, if written < 0 then S\<lparr>error := written\<rparr> else S))"

section \<open>Entry points\<close>

text \<open>
  The shape of every entry point: the session is looked up, a handle with none answers \<open>missing\<close>, and otherwise
  the pointer is followed. A pointer that was freed, and an operation that does not return, are \<open>None\<close>.
\<close>

definition on_session ::
  "int \<Rightarrow> 'a \<Rightarrow> ('s Session \<Rightarrow> ('a \<times> 's Session) option) \<Rightarrow> 's Dtls \<Rightarrow> Lookup \<Rightarrow> ('a \<times> 's Dtls \<times> Lookup) option" where
  "on_session handle missing f D t =
     (case find handle D t of
        (None, t) \<Rightarrow> Some (missing, D, t)
      | (Some p, t) \<Rightarrow>
          (case g_heap D p of
             None \<Rightarrow> None
           | Some S \<Rightarrow> map_option (\<lambda>(a, S). (a, D\<lparr>g_heap := (g_heap D)(p \<mapsto> S)\<rparr>, t)) (f S)))"

definition crossbyte_dtls_notify_close :: "'s mbedtls \<Rightarrow> int \<Rightarrow> 's Dtls \<Rightarrow> Lookup \<Rightarrow> (int \<times> 's Dtls \<times> Lookup) option" where
  "crossbyte_dtls_notify_close M handle = on_session handle ERROR_NO_SESSION (\<lambda>S. Some (session_notify_close M S))"

definition crossbyte_dtls_feed :: "int \<Rightarrow> bytes option \<Rightarrow> int \<Rightarrow> 's Dtls \<Rightarrow> Lookup \<Rightarrow> (int \<times> 's Dtls \<times> Lookup) option" where
  "crossbyte_dtls_feed handle data len = on_session handle ERROR_NO_SESSION (\<lambda>S. Some (session_feed data len S))"

definition crossbyte_dtls_step :: "'s mbedtls \<Rightarrow> int \<Rightarrow> real \<Rightarrow> 's Dtls \<Rightarrow> Lookup \<Rightarrow> (int \<times> 's Dtls \<times> Lookup) option" where
  "crossbyte_dtls_step M handle t = on_session handle ERROR_NO_SESSION (session_step M t)"

definition crossbyte_dtls_pending :: "int \<Rightarrow> 's Dtls \<Rightarrow> Lookup \<Rightarrow> (int \<times> 's Dtls \<times> Lookup) option" where
  "crossbyte_dtls_pending handle = on_session handle ERROR_NO_SESSION (\<lambda>S. Some (front_size (outbound S), S))"

definition crossbyte_dtls_take :: "int \<Rightarrow> bytes \<Rightarrow> int \<Rightarrow> 's Dtls \<Rightarrow> Lookup \<Rightarrow> ((int \<times> bytes) \<times> 's Dtls \<times> Lookup) option" where
  "crossbyte_dtls_take handle out cap = on_session handle (ERROR_NO_SESSION, out) (session_take out cap)"

definition crossbyte_dtls_write :: "'s mbedtls \<Rightarrow> int \<Rightarrow> bytes \<Rightarrow> 's Dtls \<Rightarrow> Lookup \<Rightarrow> (int \<times> 's Dtls \<times> Lookup) option" where
  "crossbyte_dtls_write M handle data = on_session handle ERROR_NO_SESSION (\<lambda>S. Some (session_write M data S))"

definition crossbyte_dtls_available :: "int \<Rightarrow> 's Dtls \<Rightarrow> Lookup \<Rightarrow> (int \<times> 's Dtls \<times> Lookup) option" where
  "crossbyte_dtls_available handle = on_session handle ERROR_NO_SESSION (\<lambda>S. Some (front_size (plaintext S), S))"

definition crossbyte_dtls_read :: "int \<Rightarrow> bytes \<Rightarrow> int \<Rightarrow> 's Dtls \<Rightarrow> Lookup \<Rightarrow> ((int \<times> bytes) \<times> 's Dtls \<times> Lookup) option" where
  "crossbyte_dtls_read handle out cap = on_session handle (ERROR_NO_SESSION, out) (session_read out cap)"

definition crossbyte_dtls_peer_certificate :: "'s mbedtls \<Rightarrow> int \<Rightarrow> 's Dtls \<Rightarrow> Lookup \<Rightarrow> (string option \<times> 's Dtls \<times> Lookup) option" where
  "crossbyte_dtls_peer_certificate M handle =
     on_session handle None
       (\<lambda>S. Some (case ssl_get_peer_cert M (ssl S) of
                    None \<Rightarrow> None
                  | Some raw \<Rightarrow> pem_write_buffer M raw (length raw * 2 + 128), S))"

definition crossbyte_dtls_error :: "int \<Rightarrow> 's Dtls \<Rightarrow> Lookup \<Rightarrow> (int \<times> 's Dtls \<times> Lookup) option" where
  "crossbyte_dtls_error handle = on_session handle ERROR_NO_SESSION (\<lambda>S. Some (error S, S))"

section \<open>A library for examples\<close>

text \<open>It establishes at once, sends every write as a datagram and gives every datagram received as plaintext.\<close>

definition demo_mbedtls :: "unit mbedtls" where
  "demo_mbedtls =
     \<lparr>ctr_drbg_seed = 0, x509_crt_parse = (\<lambda>_. 0), pk_parse_key = (\<lambda>_. 0), ssl_config_defaults = (\<lambda>_. 0),
      ssl_conf_own_cert = 0, ssl_setup = (\<lambda>_. (0, ())), ssl_handshake = (\<lambda>_. Return 0 [] ()),
      ssl_session_reset = (\<lambda>s. s),
      ssl_read = (\<lambda>_ n. Recv n (\<lambda>r bs. Return (if r > 0 then r else WANT_READ) bs ())),
      ssl_write = (\<lambda>_ bs. Send bs (\<lambda>r. Return r [] ())),
      ssl_close_notify = (\<lambda>_. Send [0] (\<lambda>r. Return 0 [] ())),
      ssl_get_peer_cert = (\<lambda>_. None), pem_write_buffer = (\<lambda>_ _. None), IN_CONTENT_LEN = 16384\<rparr>"

end
