(* ===== verification/Dtls_Lookup.thy ===== *)
theory Dtls_Lookup
  imports Dtls_Session
begin

text \<open>
  Threads on one table of DTLS sessions: any interleaving of opens, lookups and closes, where each session is used
  and closed by the thread that opened it. A close is two steps, out of the table and freed, and the allocator may put
  a new session where a freed one was. The remembered lookup of every thread is shown to answer what the table
  holds.
\<close>

record 's proc =
  dtls :: "'s Dtls"
  lookups :: "nat \<Rightarrow> Lookup"
  owners :: "int \<rightharpoonup> nat"
  freeing :: "nat \<rightharpoonup> nat"

definition proc_init :: "'s proc" where
  "proc_init =
     \<lparr>dtls = \<lparr>g_sessions = (\<lambda>_. None), g_heap = (\<lambda>_. None), g_nextHandle = 1, g_closes = 0, g_rngReady = False\<rparr>,
      lookups = (\<lambda>_. \<lparr>t_lastHandle = 0, t_lastSession = None, t_lastCloses = 0\<rparr>),
      owners = (\<lambda>_. None), freeing = (\<lambda>_. None)\<rparr>"

inductive proc_step :: "'s mbedtls \<Rightarrow> 's proc \<Rightarrow> 's proc \<Rightarrow> bool" for M where
  opens:
    "freeing s t = None \<Longrightarrow> g_heap (dtls s) p = None \<Longrightarrow>
       crossbyte_dtls_open M p srv cert key (dtls s) = Some (h, D) \<Longrightarrow>
       proc_step M s (s\<lparr>dtls := D, owners := (if h > 0 then (owners s)(h \<mapsto> t) else owners s)\<rparr>)"
| looks_up:
    "freeing s t = None \<Longrightarrow> owners s h = Some t \<Longrightarrow> find h (dtls s) (lookups s t) = (r, l) \<Longrightarrow>
       proc_step M s (s\<lparr>lookups := (lookups s)(t := l)\<rparr>)"
| looks_locked:
    "freeing s t = None \<Longrightarrow> owners s h = Some t \<Longrightarrow> find_locked h (dtls s) = (r, l) \<Longrightarrow>
       proc_step M s (s\<lparr>lookups := (lookups s)(t := l)\<rparr>)"
| uses:
    "freeing s t = None \<Longrightarrow> owners s h = Some t \<Longrightarrow> find h (dtls s) (lookups s t) = (Some p, l) \<Longrightarrow>
       g_heap (dtls s) p = Some S \<Longrightarrow>
       proc_step M s (s\<lparr>dtls := (dtls s)\<lparr>g_heap := (g_heap (dtls s))(p \<mapsto> S')\<rparr>, lookups := (lookups s)(t := l)\<rparr>)"
| unlinks:
    "freeing s t = None \<Longrightarrow> owners s h = Some t \<Longrightarrow> close_unlink h (dtls s) = (r, D) \<Longrightarrow>
       proc_step M s (s\<lparr>dtls := D, freeing := (freeing s)(t := r)\<rparr>)"
| frees:
    "freeing s t = Some p \<Longrightarrow>
       proc_step M s (s\<lparr>dtls := close_free p (dtls s), freeing := (freeing s)(t := None)\<rparr>)"

inductive_cases proc_stepE: "proc_step M s s'"

inductive proc_reachable :: "'s mbedtls \<Rightarrow> 's proc \<Rightarrow> bool" for M where
  start: "proc_reachable M proc_init"
| step: "proc_reachable M s \<Longrightarrow> proc_step M s s' \<Longrightarrow> proc_reachable M s'"

section \<open>The invariant\<close>

text \<open>Handles in use have been given out; every session in the table, or being freed, is allocated, once.\<close>

definition table_ok :: "'s proc \<Rightarrow> bool" where
  "table_ok s \<longleftrightarrow>
     1 \<le> g_nextHandle (dtls s) \<and> g_nextHandle (dtls s) \<le> INT_MAX
     \<and> dom (owners s) = {1..<g_nextHandle (dtls s)} \<and> dom (g_sessions (dtls s)) \<subseteq> {1..<g_nextHandle (dtls s)}
     \<and> int (unat (g_closes (dtls s))) + int (card (dom (g_sessions (dtls s)))) = g_nextHandle (dtls s) - 1"

definition heap_ok :: "'s proc \<Rightarrow> bool" where
  "heap_ok s \<longleftrightarrow>
     inj_on (g_sessions (dtls s)) (dom (g_sessions (dtls s)))
     \<and> (\<forall>h p. g_sessions (dtls s) h = Some p \<longrightarrow> g_heap (dtls s) p \<noteq> None)
     \<and> (\<forall>t p. freeing s t = Some p \<longrightarrow> g_heap (dtls s) p \<noteq> None \<and> (\<forall>h. g_sessions (dtls s) h \<noteq> Some p)
          \<and> (\<forall>t'. freeing s t' = Some p \<longrightarrow> t' = t))"

definition lookup_ok :: "'s proc \<Rightarrow> Lookup \<Rightarrow> bool" where
  "lookup_ok s l \<longleftrightarrow>
     t_lastCloses l \<le> g_closes (dtls s)
     \<and> (t_lastHandle l \<noteq> 0 \<longrightarrow> t_lastHandle l \<in> {1..<g_nextHandle (dtls s)})
     \<and> (t_lastHandle l \<noteq> 0 \<and> t_lastCloses l = g_closes (dtls s) \<longrightarrow> t_lastSession l = g_sessions (dtls s) (t_lastHandle l))"

definition proc_inv :: "'s proc \<Rightarrow> bool" where
  "proc_inv s \<longleftrightarrow> table_ok s \<and> heap_ok s \<and> (\<forall>t. lookup_ok s (lookups s t))"

lemma owned_range: "table_ok s \<Longrightarrow> owners s h = Some t \<Longrightarrow> h \<in> {1..<g_nextHandle (dtls s)}"
  unfolding table_ok_def by blast

lemma find_exact:
  assumes "lookup_ok s l" and "table_ok s" and "owners s h = Some t"
  shows "fst (find h (dtls s) l) = g_sessions (dtls s) h" and "lookup_ok s (snd (find h (dtls s) l))"
  using assms(1) owned_range [OF assms(2,3)] by (auto simp: find_def find_locked_def Let_def lookup_ok_def)

lemma lookup_locked: "table_ok s \<Longrightarrow> owners s h = Some t \<Longrightarrow> lookup_ok s (snd (find_locked h (dtls s)))"
  using owned_range [of s h t] by (auto simp: find_locked_def Let_def lookup_ok_def)

section \<open>Every step keeps it\<close>

text \<open>mbedTLS reports failure by a negative number.\<close>

definition errors_negative :: "'s mbedtls \<Rightarrow> bool" where
  "errors_negative M \<longleftrightarrow> (\<forall>b. ssl_config_defaults M b \<le> 0) \<and> ssl_conf_own_cert M \<le> 0 \<and> (\<forall>b. fst (ssl_setup M b) \<le> 0)"

lemma setup_negative: "errors_negative M \<Longrightarrow> setup_session M srv c k = Inl ret \<Longrightarrow> ret < 0"
  unfolding errors_negative_def setup_session_def Let_def
  by (auto simp: ERROR_BAD_CERTIFICATE_def ERROR_BAD_KEY_def split: if_splits prod.splits) (metis fst_conv order_le_less)+

lemma open_cases:
  assumes "errors_negative M" and "crossbyte_dtls_open M p srv cert key D = Some (h, D')"
  obtains (refused) rng where "h < 0" "D' = D\<lparr>g_rngReady := rng\<rparr>"
  | (opened) rng S where "h = g_nextHandle D" "h + 1 \<le> INT_MAX"
      "D' = D\<lparr>g_nextHandle := h + 1, g_sessions := (g_sessions D)(h \<mapsto> p), g_heap := (g_heap D)(p \<mapsto> S), g_rngReady := rng\<rparr>"
proof (cases "cert = None \<or> key = None")
  case True
  then show ?thesis using assms(2) that(1) [of "g_rngReady D"]
    by (auto simp: crossbyte_dtls_open_def ERROR_BAD_CERTIFICATE_def split: option.splits)
next
  case False
  then obtain c k where ck: "cert = Some c" "key = Some k" by auto
  obtain ok D1 where e: "ensureRng M D = (ok, D1)" by fastforce
  then have D1: "D1 = D\<lparr>g_rngReady := g_rngReady D1\<rparr>" by (auto simp: ensureRng_def split: if_splits)
  show ?thesis
  proof (cases "ok")
    case False
    then show ?thesis using assms(2) ck e D1 that(1) by (auto simp: crossbyte_dtls_open_def ERROR_BAD_CERTIFICATE_def)
  next
    case True
    show ?thesis
    proof (cases "setup_session M srv c k")
      case (Inl ret)
      then show ?thesis using assms(2) ck e D1 True that(1) setup_negative [OF assms(1) Inl]
        by (auto simp: crossbyte_dtls_open_def)
    next
      case (Inr ctx)
      have n: "g_nextHandle D1 = g_nextHandle D" "g_sessions D1 = g_sessions D" "g_heap D1 = g_heap D"
        by (subst D1, simp)+
      from Inr assms(2) ck e True n have "h = g_nextHandle D" "h + 1 \<le> INT_MAX"
        "D' = D1\<lparr>g_nextHandle := h + 1, g_sessions := (g_sessions D)(h \<mapsto> p), g_heap := (g_heap D)(p \<mapsto> new_session ctx)\<rparr>"
        by (auto simp: crossbyte_dtls_open_def Let_def split: if_splits)
      with that(2) [of "g_rngReady D1" "new_session ctx"] D1 show ?thesis by (metis Dtls.surjective Dtls.update_convs(1-5))
    qed
  qed
qed

lemma inv_refused:
  "proc_inv s \<Longrightarrow> proc_inv (s\<lparr>dtls := (dtls s)\<lparr>g_rngReady := rng\<rparr>\<rparr>)"
  by (simp add: proc_inv_def table_ok_def heap_ok_def lookup_ok_def)

lemma inv_opened:
  assumes "proc_inv s" and "g_heap (dtls s) p = None" and "h = g_nextHandle (dtls s)" and "h + 1 \<le> INT_MAX"
  shows "proc_inv (s\<lparr>dtls := (dtls s)\<lparr>g_nextHandle := h + 1, g_sessions := (g_sessions (dtls s))(h \<mapsto> p),
      g_heap := (g_heap (dtls s))(p \<mapsto> S), g_rngReady := rng\<rparr>, owners := (owners s)(h \<mapsto> t)\<rparr>)" (is "proc_inv ?s")
proof -
  let ?ses = "g_sessions (dtls s)"
  have T: "table_ok s" and H: "heap_ok s" and L: "lookup_ok s (lookups s u)" for u
    using assms(1) by (simp_all add: proc_inv_def)
  have own: "dom (owners s) = {1..<h}" and sub: "dom ?ses \<subseteq> {1..<h}" and h1: "1 \<le> h"
    using T assms(3) by (simp_all add: table_ok_def)
  have hn: "?ses h = None" using sub by (metis atLeastLessThan_iff domIff less_irrefl subsetD)
  have fin: "finite (dom ?ses)" using sub by (rule finite_subset) simp
  have pn: "?ses g \<noteq> Some p" for g using H assms(2) unfolding heap_ok_def by (metis option.distinct(1))
  have pf: "freeing s u \<noteq> Some p" for u using H assms(2) unfolding heap_ok_def by metis
  have "table_ok ?s"
    using T hn fin h1 own sub assms(3,4) by (auto simp: table_ok_def card_insert_if)
  moreover have "heap_ok ?s"
    using H hn pn pf by (auto simp: heap_ok_def inj_on_def)
  moreover have "lookup_ok ?s (lookups s u)" for u
    using L [of u] assms(3) by (auto simp: lookup_ok_def)
  ultimately show ?thesis by (simp add: proc_inv_def)
qed

lemma inv_lookup: "proc_inv s \<Longrightarrow> lookup_ok s l \<Longrightarrow> proc_inv (s\<lparr>lookups := (lookups s)(t := l)\<rparr>)"
  by (simp add: proc_inv_def table_ok_def heap_ok_def lookup_ok_def)

lemma inv_use: "proc_inv s \<Longrightarrow> g_heap (dtls s) p \<noteq> None \<Longrightarrow> proc_inv (s\<lparr>dtls := (dtls s)\<lparr>g_heap := (g_heap (dtls s))(p \<mapsto> S)\<rparr>\<rparr>)"
  by (auto simp: proc_inv_def table_ok_def heap_ok_def lookup_ok_def)

lemma inv_unlink:
  assumes "proc_inv s" and "close_unlink h (dtls s) = (r, D)" and "freeing s t = None"
  shows "proc_inv (s\<lparr>dtls := D, freeing := (freeing s)(t := r)\<rparr>)"
proof (cases "g_sessions (dtls s) h")
  case None
  then have "s\<lparr>dtls := D, freeing := (freeing s)(t := r)\<rparr> = s"
    using assms(2,3) by (cases s) (auto simp: close_unlink_def fun_upd_idem)
  then show ?thesis using assms(1) by simp
next
  case (Some p)
  let ?ses = "g_sessions (dtls s)"
  have T: "table_ok s" and H: "heap_ok s" and L: "lookup_ok s (lookups s u)" for u
    using assms(1) by (simp_all add: proc_inv_def)
  have e: "r = Some p" "D = (dtls s)\<lparr>g_sessions := ?ses(h := None), g_closes := g_closes (dtls s) + 1\<rparr>"
    using assms(2) Some by (simp_all add: close_unlink_def)
  have fin: "finite (dom ?ses)" using T unfolding table_ok_def by (metis finite_atLeastLessThan_int finite_subset)
  have card: "card (dom ?ses) = Suc (card (dom ?ses - {h}))" using Some fin by (intro card.remove) auto
  have small: "unat (g_closes (dtls s)) < 4294967295"
    using T unfolding table_ok_def by linarith
  have inc: "unat (g_closes (dtls s) + 1) = Suc (unat (g_closes (dtls s)))"
    using small by (simp add: unat_word_ariths)
  have "table_ok (s\<lparr>dtls := D, freeing := (freeing s)(t := r)\<rparr>)"
    using T card inc by (auto simp: table_ok_def e simp del: unat_eq_nat_uint)
  moreover have "heap_ok (s\<lparr>dtls := D, freeing := (freeing s)(t := r)\<rparr>)"
    unfolding heap_ok_def
  proof (intro conjI allI impI)
    show "inj_on (g_sessions (dtls (s\<lparr>dtls := D, freeing := (freeing s)(t := r)\<rparr>)))
        (dom (g_sessions (dtls (s\<lparr>dtls := D, freeing := (freeing s)(t := r)\<rparr>))))"
      using H by (auto simp: heap_ok_def inj_on_def e)
  next
    fix g q
    assume "g_sessions (dtls (s\<lparr>dtls := D, freeing := (freeing s)(t := r)\<rparr>)) g = Some q"
    then show "g_heap (dtls (s\<lparr>dtls := D, freeing := (freeing s)(t := r)\<rparr>)) q \<noteq> None"
      using H by (auto simp: heap_ok_def e split: if_splits)
  next
    fix u q
    assume f: "freeing (s\<lparr>dtls := D, freeing := (freeing s)(t := r)\<rparr>) u = Some q"
    then show "g_heap (dtls (s\<lparr>dtls := D, freeing := (freeing s)(t := r)\<rparr>)) q \<noteq> None"
      using H Some by (auto simp: heap_ok_def e split: if_splits)
    show "g_sessions (dtls (s\<lparr>dtls := D, freeing := (freeing s)(t := r)\<rparr>)) g \<noteq> Some q" for g
      using f H Some by (auto simp: heap_ok_def e inj_on_def dom_def split: if_splits)
    show "v = u" if "freeing (s\<lparr>dtls := D, freeing := (freeing s)(t := r)\<rparr>) v = Some q" for v
      using f that H Some by (auto simp: heap_ok_def e split: if_splits)
  qed
  moreover have "lookup_ok (s\<lparr>dtls := D, freeing := (freeing s)(t := r)\<rparr>) (lookups s u)" for u
    using L [of u] inc by (auto simp: lookup_ok_def e word_le_nat_alt simp del: unat_eq_nat_uint)
  ultimately show ?thesis by (simp add: proc_inv_def)
qed

lemma inv_free:
  assumes "proc_inv s" and "freeing s t = Some p"
  shows "proc_inv (s\<lparr>dtls := close_free p (dtls s), freeing := (freeing s)(t := None)\<rparr>)"
proof -
  have T: "table_ok s" and H: "heap_ok s" and L: "lookup_ok s (lookups s u)" for u
    using assms(1) by (simp_all add: proc_inv_def)
  have "heap_ok (s\<lparr>dtls := close_free p (dtls s), freeing := (freeing s)(t := None)\<rparr>)"
    using H assms(2) by (auto simp: heap_ok_def close_free_def split: if_splits)
  then show ?thesis using T L by (simp add: proc_inv_def table_ok_def lookup_ok_def close_free_def)
qed

lemma inv_step:
  assumes "errors_negative M" and "proc_inv s" and "proc_step M s s'"
  shows "proc_inv s'"
proof -
  have T: "table_ok s" and L: "lookup_ok s (lookups s u)" for u using assms(2) by (simp_all add: proc_inv_def)
  from assms(3) show ?thesis
  proof cases
    case (opens t p srv cert key h D)
    show ?thesis
    proof (rule open_cases [OF assms(1) opens(4)])
      fix rng
      assume "h < 0" "D = (dtls s)\<lparr>g_rngReady := rng\<rparr>"
      then show ?thesis using inv_refused [OF assms(2)] opens(1) by simp
    next
      fix rng S
      assume o: "h = g_nextHandle (dtls s)" "h + 1 \<le> INT_MAX"
        "D = (dtls s)\<lparr>g_nextHandle := h + 1, g_sessions := (g_sessions (dtls s))(h \<mapsto> p), g_heap := (g_heap (dtls s))(p \<mapsto> S), g_rngReady := rng\<rparr>"
      have "0 < h" using o(1) T by (simp add: table_ok_def)
      then show ?thesis using inv_opened [OF assms(2) opens(3) o(1,2), where S = S and rng = rng and t = t] o(3) opens(1) by simp
    qed
  next
    case (looks_up t h r l)
    then show ?thesis using inv_lookup [OF assms(2)] find_exact(2) [OF L T looks_up(3)] by (metis snd_conv)
  next
    case (looks_locked t h r l)
    then show ?thesis using inv_lookup [OF assms(2)] lookup_locked [OF T looks_locked(3)] by (metis snd_conv)
  next
    case (uses t h p l S S')
    have "proc_inv (s\<lparr>lookups := (lookups s)(t := l)\<rparr>)"
      using inv_lookup [OF assms(2)] find_exact(2) [OF L T uses(3), of t] uses(4) by (metis snd_conv)
    moreover have "s' = (s\<lparr>lookups := (lookups s)(t := l)\<rparr>)\<lparr>dtls := (dtls s)\<lparr>g_heap := (g_heap (dtls s))(p \<mapsto> S')\<rparr>\<rparr>"
      unfolding uses(1) by (cases s) simp
    ultimately show ?thesis using inv_use [of "s\<lparr>lookups := (lookups s)(t := l)\<rparr>" p S'] uses(5) by simp
  next
    case (unlinks t h r D)
    then show ?thesis using inv_unlink [OF assms(2)] by simp
  next
    case (frees t p)
    then show ?thesis using inv_free [OF assms(2)] by simp
  qed
qed

lemma inv_reachable:
  assumes "errors_negative M" and "proc_reachable M s"
  shows "proc_inv s"
  using assms(2)
proof induction
  case start
  show ?case by (auto simp: proc_inv_def table_ok_def heap_ok_def lookup_ok_def proc_init_def)
next
  case (step s s')
  then show ?case using inv_step [OF assms(1)] by blast
qed

section \<open>Properties\<close>

text \<open>
  C24. However threads interleave, and wherever the allocator puts sessions, a thread that looks up a session it
  opened is answered with what the table holds at that moment, remembered or not: an open handle gives its own live
  session, a closed one none. No call follows a pointer to a freed session, and no two handles share a session.
\<close>

theorem dtls_lookup_exact:
  assumes "errors_negative M" and "proc_reachable M s" and "owners s h = Some t"
  shows "fst (find h (dtls s) (lookups s t)) = g_sessions (dtls s) h
    \<and> (\<forall>p. g_sessions (dtls s) h = Some p \<longrightarrow> g_heap (dtls s) p \<noteq> None \<and> (\<forall>h'. g_sessions (dtls s) h' = Some p \<longrightarrow> h' = h))
    \<and> (\<forall>missing f. (\<forall>S. f S \<noteq> None) \<longrightarrow> on_session h missing f (dtls s) (lookups s t) \<noteq> None)"
proof -
  have inv: "proc_inv s" using inv_reachable [OF assms(1,2)] .
  then have L: "lookup_ok s (lookups s t)" and T: "table_ok s" and H: "heap_ok s" by (simp_all add: proc_inv_def)
  note f = find_exact(1) [OF L T assms(3)]
  have live: "g_heap (dtls s) p \<noteq> None" if "g_sessions (dtls s) h = Some p" for p using H that unfolding heap_ok_def by blast
  have one: "h' = h" if "g_sessions (dtls s) h = Some p" "g_sessions (dtls s) h' = Some p" for p h'
    using H that unfolding heap_ok_def inj_on_def by (metis domI)
  have on: "on_session h missing g (dtls s) (lookups s t) \<noteq> None" if g: "\<forall>S. g S \<noteq> None" for missing g
  proof -
    obtain l where l: "find h (dtls s) (lookups s t) = (g_sessions (dtls s) h, l)" using f by (metis prod.collapse)
    show ?thesis
    proof (cases "g_sessions (dtls s) h")
      case (Some p)
      then obtain S where "g_heap (dtls s) p = Some S" using live by blast
      moreover obtain y where "g S = Some y" using g by blast
      ultimately show ?thesis using l Some by (simp add: on_session_def case_prod_beta)
    qed (use l in \<open>simp add: on_session_def\<close>)
  qed
  show ?thesis by (intro conjI allI impI) (erule f live one on | rule f | assumption)+
qed

lemma demo_errors: "errors_negative demo_mbedtls"
  by (simp add: errors_negative_def demo_mbedtls_def)

theorem dtls_lookup_exact_witness:
  "\<exists>s. proc_reachable demo_mbedtls s \<and> owners s 1 = Some 7 \<and> fst (find 1 (dtls s) (lookups s 7)) = Some 0"
proof -
  let ?D = "dtls proc_init \<lparr>g_rngReady := True, g_nextHandle := 2, g_sessions := [1 \<mapsto> 0], g_heap := [0 \<mapsto> new_session ()]\<rparr>"
  let ?s = "proc_init\<lparr>dtls := ?D, owners := [1 \<mapsto> 7]\<rparr>"
  have "crossbyte_dtls_open demo_mbedtls 0 True (Some ''c'') (Some ''k'') (dtls proc_init) = Some (1, ?D)"
    by (simp add: crossbyte_dtls_open_def ensureRng_def setup_session_def demo_mbedtls_def proc_init_def)
  then have "proc_step demo_mbedtls proc_init ?s"
    using proc_step.opens [of proc_init 7 0 demo_mbedtls True "Some ''c''" "Some ''k''" 1 ?D]
    by (simp add: proc_init_def)
  then have r: "proc_reachable demo_mbedtls ?s" using proc_reachable.intros by blast
  have o: "owners ?s 1 = Some 7" by simp
  have "fst (find 1 (dtls ?s) (lookups ?s 7)) = g_sessions (dtls ?s) 1"
    using dtls_lookup_exact [OF demo_errors r o] by (rule conjunct1)
  moreover have "g_sessions (dtls ?s) 1 = Some 0" by simp
  ultimately have "fst (find 1 (dtls ?s) (lookups ?s 7)) = Some 0" by (rule trans)
  with r o show ?thesis by blast
qed

text \<open>
  The remembered lookup counts closes and not opens: a handle that is looked up before it is given out is
  remembered as missing, and goes on being answered so once it is open.
\<close>

lemma find_remembers_a_miss:
  "\<exists>D l D'. find 1 (dtls proc_init) (lookups proc_init 0) = (None, l)
     \<and> crossbyte_dtls_open demo_mbedtls 0 True (Some ''c'') (Some ''k'') (dtls proc_init) = Some (1, D)
     \<and> g_sessions D 1 = Some 0 \<and> find 1 D l = (None, l)"
  by (simp add: crossbyte_dtls_open_def ensureRng_def setup_session_def demo_mbedtls_def proc_init_def find_def
      find_locked_def Let_def)

end
