(* ===== verification/Dtls_Channel.thy ===== *)
theory Dtls_Channel
  imports Dtls_Session
begin

text \<open>
  What a DTLS session promises its caller, whatever mbedTLS does in its callbacks: three queues that keep every
  datagram whole and in order (\<open>dtls_refines_queues\<close>), states that only move forward (\<open>dtls_states\<close>), and
  steps that return (\<open>dtls_step_returns\<close>).
\<close>

section \<open>Three queues\<close>

datatype label =
    Fed bytes | Received bytes | Dropped bytes | Sent bytes | Taken bytes | Decrypted bytes | Given bytes

type_synonym queues = "bytes list \<times> bytes list \<times> bytes list"

definition pop :: "bytes \<Rightarrow> bytes list \<Rightarrow> bytes list option" where
  "pop b q = (case q of [] \<Rightarrow> None | x # xs \<Rightarrow> if x = b then Some xs else None)"

lemma pop_Some [simp]: "pop b q = Some q' \<longleftrightarrow> q = b # q'"
  by (auto simp: pop_def split: list.splits)

fun queues_step :: "label \<Rightarrow> queues \<Rightarrow> queues option" where
  "queues_step (Fed b) (i, out, pl) = Some (i @ [b], out, pl)"
| "queues_step (Received b) (i, out, pl) = map_option (\<lambda>i. (i, out, pl)) (pop b i)"
| "queues_step (Dropped b) (i, out, pl) = map_option (\<lambda>i. (i, out, pl)) (pop b i)"
| "queues_step (Sent b) (i, out, pl) = Some (i, out @ [b], pl)"
| "queues_step (Taken b) (i, out, pl) = map_option (\<lambda>out. (i, out, pl)) (pop b out)"
| "queues_step (Decrypted b) (i, out, pl) = Some (i, out, pl @ [b])"
| "queues_step (Given b) (i, out, pl) = map_option (\<lambda>pl. (i, out, pl)) (pop b pl)"

fun queues_run :: "label list \<Rightarrow> queues \<Rightarrow> queues option" where
  "queues_run [] q = Some q"
| "queues_run (l # ls) q = (case queues_step l q of None \<Rightarrow> None | Some q \<Rightarrow> queues_run ls q)"

lemma queues_run_append: "queues_run (a @ b) q = (case queues_run a q of None \<Rightarrow> None | Some q \<Rightarrow> queues_run b q)"
  by (induction a arbitrary: q) (auto split: option.splits)

fun fed :: "label list \<Rightarrow> bytes list" where
  "fed [] = []" | "fed (Fed b # ls) = b # fed ls" | "fed (_ # ls) = fed ls"
fun removed :: "label list \<Rightarrow> bytes list" where
  "removed [] = []" | "removed (Received b # ls) = b # removed ls" | "removed (Dropped b # ls) = b # removed ls"
| "removed (_ # ls) = removed ls"
fun sent :: "label list \<Rightarrow> bytes list" where
  "sent [] = []" | "sent (Sent b # ls) = b # sent ls" | "sent (_ # ls) = sent ls"
fun taken :: "label list \<Rightarrow> bytes list" where
  "taken [] = []" | "taken (Taken b # ls) = b # taken ls" | "taken (_ # ls) = taken ls"
fun decrypted :: "label list \<Rightarrow> bytes list" where
  "decrypted [] = []" | "decrypted (Decrypted b # ls) = b # decrypted ls" | "decrypted (_ # ls) = decrypted ls"
fun given :: "label list \<Rightarrow> bytes list" where
  "given [] = []" | "given (Given b # ls) = b # given ls" | "given (_ # ls) = given ls"

lemma queues_fifo:
  "queues_run ls (i, out, pl) = Some (i', out', pl') \<Longrightarrow>
     i @ fed ls = removed ls @ i' \<and> out @ sent ls = taken ls @ out' \<and> pl @ decrypted ls = given ls @ pl'"
proof (induction ls arbitrary: i out pl)
  case (Cons l ls)
  obtain i1 o1 p1 where s: "queues_step l (i, out, pl) = Some (i1, o1, p1)"
    using Cons.prems by (cases "queues_step l (i, out, pl)") auto
  then have "queues_run ls (i1, o1, p1) = Some (i', out', pl')" using Cons.prems by simp
  from Cons.IH [OF this] s show ?case by (cases l) auto
qed simp

section \<open>What the caller does and sees\<close>

datatype dtls_op = Feed "bytes option" int | Step real | Take bytes int | Read bytes int | Write bytes | Notify

text \<open>Datagrams of no bytes pass unseen: the answer 0 is also that of an empty queue.\<close>

definition seen :: "(bytes \<Rightarrow> label) \<Rightarrow> bytes \<Rightarrow> label list" where
  "seen c b = (if b = [] then [] else [c b])"

definition session_op :: "'s mbedtls \<Rightarrow> dtls_op \<Rightarrow> 's Session \<Rightarrow> (label list \<times> 's Session) option" where
  "session_op M op S =
     (case op of
        Feed data len \<Rightarrow>
          Some (case data of Some bs \<Rightarrow> if len > 0 then seen Fed (take (nat len) bs) else [] | None \<Rightarrow> [], snd (session_feed data len S))
      | Step t \<Rightarrow> map_option (\<lambda>(r, S). ([], S)) (session_step M t S)
      | Take out cap \<Rightarrow> map_option (\<lambda>((r, out), S). (if r > 0 then seen Taken (take (nat r) out) else [], S)) (session_take out cap S)
      | Read out cap \<Rightarrow> map_option (\<lambda>((r, out), S). (if r > 0 then seen Given (take (nat r) out) else [], S)) (session_read out cap S)
      | Write data \<Rightarrow> Some ([], snd (session_write M data S))
      | Notify \<Rightarrow> Some ([], snd (session_notify_close M S)))"

fun session_ops :: "'s mbedtls \<Rightarrow> dtls_op list \<Rightarrow> 's Session \<Rightarrow> (label list \<times> 's Session) option" where
  "session_ops M [] S = Some ([], S)"
| "session_ops M (op # ops) S =
     (case session_op M op S of
        None \<Rightarrow> None
      | Some (ls, S) \<Rightarrow> map_option (\<lambda>(ls', S). (ls @ ls', S)) (session_ops M ops S))"

fun visible :: "label list \<Rightarrow> label list" where
  "visible [] = []"
| "visible (Fed b # ls) = seen Fed b @ visible ls"
| "visible (Taken b # ls) = seen Taken b @ visible ls"
| "visible (Given b # ls) = seen Given b @ visible ls"
| "visible (_ # ls) = visible ls"

lemma visible_append: "visible (a @ b) = visible a @ visible b"
  by (induction a rule: visible.induct) auto

text \<open>Induction over the programs of the library, the continuations at every answer.\<close>

lemma act_induct [case_names Return Send Recv SetTimer GetTimer]:
  assumes "\<And>r data ctx. P (Return r data ctx)"
    and "\<And>bs k. (\<And>r. P (k r)) \<Longrightarrow> P (Send bs k)"
    and "\<And>n k. (\<And>r bs. P (k r bs)) \<Longrightarrow> P (Recv n k)"
    and "\<And>i f k. P k \<Longrightarrow> P (SetTimer i f k)"
    and "\<And>k. (\<And>r. P (k r)) \<Longrightarrow> P (GetTimer k)"
  shows "P a"
proof (induction a)
  case (Recv n k)
  then have "P (k r bs)" for r bs by blast
  then show ?case by (rule assms(3))
qed (use assms in auto)

lemma recvCallback_alt:
  "recvCallback n S =
     (if inbound S = [] \<or> n < length (hd (inbound S)) then WANT_READ else int (length (hd (inbound S))),
      if inbound S = [] \<or> n < length (hd (inbound S)) then [] else hd (inbound S), S\<lparr>inbound := tl (inbound S)\<rparr>)"
  by (cases "inbound S"; cases S) (simp_all add: recvCallback_def)

text \<open>A call into the library leaves the frame of the session alone.\<close>

lemma run_frame:
  assumes "run a S = (r, data, S')"
  shows "plaintext S' = plaintext S \<and> state S' = state S \<and> handshakeDone S' = handshakeDone S \<and> error S' = error S"
  using assms
proof (induction a arbitrary: S rule: act_induct)
  case (Send bs k)
  from Send.prems Send.IH [of "int (length bs)" "S\<lparr>outbound := outbound S @ [bs]\<rparr>"] show ?case by (simp add: sendCallback_def)
next
  case (Recv n k)
  from Recv.prems Recv.IH [of _ _ "S\<lparr>inbound := tl (inbound S)\<rparr>"] show ?case by (simp add: recvCallback_alt)
qed fastforce+

section \<open>A library that logs what it does\<close>

text \<open>
  Any library with a log beside its context: of the datagrams it sends, those it receives, and the plaintext it
  answers a read with. Nothing else changes.
\<close>

primrec log_act :: "(int \<Rightarrow> bytes \<Rightarrow> label list) \<Rightarrow> 's act \<Rightarrow> label list \<Rightarrow> ('s \<times> label list) act" where
  "log_act fin (Return r data ctx) = (\<lambda>l. Return r data (ctx, l @ fin r data))"
| "log_act fin (Send bs k) = (\<lambda>l. Send bs (\<lambda>r. log_act fin (k r) (l @ [Sent bs])))"
| "log_act fin (Recv n k) = (\<lambda>l. Recv n (\<lambda>r bs. log_act fin (k r bs) (if r < 0 then l else l @ [Received bs])))"
| "log_act fin (SetTimer i f k) = (\<lambda>l. SetTimer i f (log_act fin k l))"
| "log_act fin (GetTimer k) = (\<lambda>l. GetTimer (\<lambda>r. log_act fin (k r) l))"

definition no_plaintext :: "int \<Rightarrow> bytes \<Rightarrow> label list" where
  "no_plaintext r data = []"

definition plaintext_read :: "int \<Rightarrow> bytes \<Rightarrow> label list" where
  "plaintext_read r data = (if r > 0 then [Decrypted (take (nat r) data)] else [])"

definition logged :: "'s mbedtls \<Rightarrow> ('s \<times> label list) mbedtls" where
  "logged M =
     \<lparr>ctr_drbg_seed = ctr_drbg_seed M, x509_crt_parse = x509_crt_parse M, pk_parse_key = pk_parse_key M,
      ssl_config_defaults = ssl_config_defaults M, ssl_conf_own_cert = ssl_conf_own_cert M,
      ssl_setup = (\<lambda>b. case ssl_setup M b of (r, c) \<Rightarrow> (r, c, [])),
      ssl_handshake = (\<lambda>(c, l). log_act no_plaintext (ssl_handshake M c) l),
      ssl_session_reset = (\<lambda>(c, l). (ssl_session_reset M c, l)),
      ssl_read = (\<lambda>(c, l) n. log_act plaintext_read (ssl_read M c n) l),
      ssl_write = (\<lambda>(c, l) bs. log_act no_plaintext (ssl_write M c bs) l),
      ssl_close_notify = (\<lambda>(c, l). log_act no_plaintext (ssl_close_notify M c) l),
      ssl_get_peer_cert = (\<lambda>(c, l). ssl_get_peer_cert M c), pem_write_buffer = pem_write_buffer M,
      IN_CONTENT_LEN = IN_CONTENT_LEN M\<rparr>"

lemma logged_simps [simp]:
  "ssl_handshake (logged M) cl = log_act no_plaintext (ssl_handshake M (fst cl)) (snd cl)"
  "ssl_session_reset (logged M) cl = (ssl_session_reset M (fst cl), snd cl)"
  "ssl_read (logged M) cl n = log_act plaintext_read (ssl_read M (fst cl) n) (snd cl)"
  "ssl_write (logged M) cl bs = log_act no_plaintext (ssl_write M (fst cl) bs) (snd cl)"
  "ssl_close_notify (logged M) cl = log_act no_plaintext (ssl_close_notify M (fst cl)) (snd cl)"
  "read_buffer (logged M) = read_buffer M"
  by (simp_all add: logged_def read_buffer_def split: prod.splits)

definition forget :: "('s \<times> label list) Session \<Rightarrow> 's Session" where
  "forget S =
     \<lparr>ssl = fst (ssl S), inbound = inbound S, outbound = outbound S, plaintext = plaintext S, timer = timer S,
      state = state S, error = error S, handshakeDone = handshakeDone S\<rparr>"

lemma forget_simps [simp]:
  "ssl (forget S) = fst (ssl S)" "inbound (forget S) = inbound S" "outbound (forget S) = outbound S"
  "plaintext (forget S) = plaintext S" "timer (forget S) = timer S" "state (forget S) = state S"
  "error (forget S) = error S" "handshakeDone (forget S) = handshakeDone S"
  by (simp_all add: forget_def)

lemma forget_updates [simp]:
  "(forget S)\<lparr>inbound := q\<rparr> = forget (S\<lparr>inbound := q\<rparr>)" "(forget S)\<lparr>outbound := q\<rparr> = forget (S\<lparr>outbound := q\<rparr>)"
  "(forget S)\<lparr>plaintext := q\<rparr> = forget (S\<lparr>plaintext := q\<rparr>)" "(forget S)\<lparr>timer := t\<rparr> = forget (S\<lparr>timer := t\<rparr>)"
  "(forget S)\<lparr>state := x\<rparr> = forget (S\<lparr>state := x\<rparr>)" "(forget S)\<lparr>error := e\<rparr> = forget (S\<lparr>error := e\<rparr>)"
  "(forget S)\<lparr>handshakeDone := h\<rparr> = forget (S\<lparr>handshakeDone := h\<rparr>)"
  by (simp_all add: forget_def)

lemma forget_ssl: "(forget S)\<lparr>ssl := c\<rparr> = forget (S\<lparr>ssl := (c, l)\<rparr>)"
  by (simp add: forget_def)

lemma run_logged: "run (log_act fin a l) S = (r, data, S') \<Longrightarrow> run a (forget S) = (r, data, forget S')"
proof (induction a arbitrary: S l rule: act_induct)
  case (Recv n k)
  from Recv.prems show ?case
    using Recv.IH by (cases "inbound S = []"; cases "n < length (hd (inbound S))") (fastforce simp: recvCallback_alt)+
qed (auto simp: sendCallback_def forget_ssl)

lemma drain_logged:
  assumes "drainPlaintext M (forget S) = Some S0"
  shows "\<exists>S'. drainPlaintext (logged M) S = Some S' \<and> forget S' = S0"
proof -
  have "\<forall>T. M = M \<longrightarrow> forget T = forget S \<longrightarrow> (\<exists>S'. drainPlaintext (logged M) T = Some S' \<and> forget S' = S0)"
  proof (rule drainPlaintext.raw_induct [where P = "\<lambda>N R R0. \<forall>T. N = M \<longrightarrow> forget T = R \<longrightarrow>
      (\<exists>S'. drainPlaintext (logged M) T = Some S' \<and> forget S' = R0)", OF _ assms], goal_cases)
    case (1 f N R R0)
    show ?case
    proof (intro allI impI)
      fix T :: "('a \<times> label list) Session"
      assume N: "N = M" and T: "forget T = R"
      obtain r data T1 where r: "run (log_act plaintext_read (ssl_read M (fst (ssl T)) (read_buffer M)) (snd (ssl T))) T = (r, data, T1)"
        by (metis prod_cases3)
      from run_logged [OF r] 1(2) N T have rest: "(if r > 0 then f M (forget (T1\<lparr>plaintext := plaintext T1 @ [take (nat r) data]\<rparr>))
          else if r = WANT_READ \<or> r = WANT_WRITE \<or> r = 0 then Some (forget T1)
          else Some (forget (T1\<lparr>error := r, state := CLOSED\<rparr>))) = Some R0" by auto
      show "\<exists>S'. drainPlaintext (logged M) T = Some S' \<and> forget S' = R0"
      proof (cases "r > 0")
        case True
        with rest have "f M (forget (T1\<lparr>plaintext := plaintext T1 @ [take (nat r) data]\<rparr>)) = Some R0" by simp
        from 1(1) [OF this] r True show ?thesis by (subst drainPlaintext.simps) simp
      next
        case False
        with rest r show ?thesis by (subst drainPlaintext.simps) (auto split: if_splits)
      qed
    qed
  qed
  then show ?thesis by blast
qed

lemma step_logged:
  assumes "session_step M t (forget S) = Some (r, S0)"
  shows "\<exists>S'. session_step (logged M) t S = Some (r, S') \<and> forget S' = S0"
proof -
  let ?S = "S\<lparr>timer := (timer S)\<lparr>now := t\<rparr>\<rparr>"
  have drained: "\<exists>S'. (if state T = ESTABLISHED then map_option (\<lambda>S. (state_code (state S), S)) (drainPlaintext (logged M) T)
         else Some (state_code (state T), T)) = Some (r, S') \<and> forget S' = S0"
    if "(if state T = ESTABLISHED then map_option (\<lambda>S. (state_code (state S), S)) (drainPlaintext M (forget T))
         else Some (state_code (state T), forget T)) = Some (r, S0)" for T
    using that drain_logged [of M T S0] by (auto split: if_splits)
  obtain x y S1 where x: "run (log_act no_plaintext (ssl_handshake M (fst (ssl S))) (snd (ssl S))) ?S = (x, y, S1)"
    by (metis prod_cases3)
  note y = run_logged [OF x]
  consider (closed) "state S = CLOSED" | (up) "state S \<noteq> CLOSED" "handshakeDone S" | (now) "state S \<noteq> CLOSED" "\<not> handshakeDone S" "x = 0"
    | (hello) "state S \<noteq> CLOSED" "\<not> handshakeDone S" "x = HELLO_VERIFY_REQUIRED"
    | (other) "state S \<noteq> CLOSED" "\<not> handshakeDone S" "x \<noteq> 0" "x \<noteq> HELLO_VERIFY_REQUIRED" by blast
  then show ?thesis
  proof cases
    case up
    then show ?thesis using assms drained [of ?S] by (cases "state S = ESTABLISHED") (simp_all add: session_step_def Let_def)
  next
    case now
    then show ?thesis using assms x y drained [of "S1\<lparr>handshakeDone := True, state := ESTABLISHED\<rparr>"]
      by (simp add: session_step_def Let_def)
  next
    case hello
    then show ?thesis using assms x y
      by (auto simp: session_step_def Let_def HELLO_VERIFY_REQUIRED_def WANT_READ_def WANT_WRITE_def forget_def)
  next
    case other
    then show ?thesis using assms x y by (auto simp: session_step_def Let_def split: if_splits)
  qed (use assms in \<open>simp add: session_step_def Let_def\<close>)
qed

lemma op_logged:
  assumes "session_op M op (forget S) = Some (vis, S0)"
  shows "\<exists>S'. session_op (logged M) op S = Some (vis, S') \<and> forget S' = S0"
proof (cases op)
  case (Step t)
  then show ?thesis using assms step_logged [of M t S] by (fastforce simp: session_op_def)
next
  case (Write data)
  obtain x y S1 where x: "run (log_act no_plaintext (ssl_write M (fst (ssl S)) data) (snd (ssl S))) S = (x, y, S1)" by (metis prod_cases3)
  then show ?thesis using assms Write run_logged [OF x] by (auto simp: session_op_def session_write_def)
next
  case Notify
  obtain x y S1 where x: "run (log_act no_plaintext (ssl_close_notify M (fst (ssl S))) (snd (ssl S))) S = (x, y, S1)" by (metis prod_cases3)
  then show ?thesis using assms Notify run_logged [OF x] by (auto simp: session_op_def session_notify_close_def)
next
  case (Take out cap)
  then obtain r out' q where "queue_take out cap (outbound S) = Some (r, out', q)" using assms
    by (cases "queue_take out cap (outbound S)") (auto simp: session_op_def session_take_def)
  with Take assms show ?thesis by (simp add: session_op_def session_take_def)
next
  case (Read out cap)
  then obtain r out' q where "queue_take out cap (plaintext S) = Some (r, out', q)" using assms
    by (cases "queue_take out cap (plaintext S)") (auto simp: session_op_def session_read_def)
  with Read assms show ?thesis by (simp add: session_op_def session_read_def)
qed (use assms in \<open>auto simp: session_op_def session_feed_def split: option.splits\<close>)

lemma ops_logged:
  "session_ops M ops (forget S) = Some (vis, S0) \<Longrightarrow> \<exists>S'. session_ops (logged M) ops S = Some (vis, S') \<and> forget S' = S0"
proof (induction ops arbitrary: S vis)
  case (Cons op ops)
  then obtain v1 S1 v2 where s: "session_op M op (forget S) = Some (v1, S1)" "session_ops M ops S1 = Some (v2, S0)" "vis = v1 @ v2"
    by (auto split: option.splits)
  from op_logged [OF s(1)] obtain T where t: "session_op (logged M) op S = Some (v1, T)" "forget T = S1" by blast
  from Cons.IH [of T v2] s t show ?case by auto
qed auto

section \<open>The run of the queues\<close>

definition queues_of :: "'s Session \<Rightarrow> queues" where
  "queues_of S = (inbound S, outbound S, plaintext S)"

fun internal :: "label list \<Rightarrow> label list" where
  "internal [] = []"
| "internal (Sent b # ls) = Sent b # internal ls"
| "internal (Received b # ls) = Received b # internal ls"
| "internal (Decrypted b # ls) = Decrypted b # internal ls"
| "internal (_ # ls) = internal ls"

lemma internal_append: "internal (a @ b) = internal a @ internal b"
  by (induction a rule: internal.induct) auto

text \<open>What a session did as labels: \<open>vis\<close> is what the caller saw of it, and the log grew by what mbedTLS did.\<close>

definition did :: "label list \<Rightarrow> ('s \<times> label list) Session \<Rightarrow> ('s \<times> label list) Session \<Rightarrow> label list \<Rightarrow> bool" where
  "did ls S S' vis \<longleftrightarrow> queues_run ls (queues_of S) = Some (queues_of S') \<and> visible ls = vis
     \<and> snd (ssl S') = snd (ssl S) @ internal ls"

definition same :: "('s \<times> label list) Session \<Rightarrow> ('s \<times> label list) Session \<Rightarrow> bool" where
  "same S' S \<longleftrightarrow> queues_of S' = queues_of S \<and> snd (ssl S') = snd (ssl S)"

lemma did_append: "did a S S1 u \<Longrightarrow> did b S1 S2 v \<Longrightarrow> did (a @ b) S S2 (u @ v)"
  by (simp add: did_def queues_run_append visible_append internal_append)

lemma did_nothing: "same S' S \<Longrightarrow> did [] S S' []"
  by (simp add: did_def same_def)

lemma did_same: "did ls S S1 vis \<Longrightarrow> same S' S1 \<Longrightarrow> did ls S S' vis"
  by (simp add: did_def same_def)

lemma did_from: "did ls S1 S' vis \<Longrightarrow> same S1 S \<Longrightarrow> did ls S S' vis"
  by (simp add: did_def same_def)

lemma did_either: "did ls S S1 [] \<Longrightarrow> same S' S1 \<or> same S' S \<Longrightarrow> \<exists>ls. did ls S S' []"
  using did_same did_nothing by blast

text \<open>The calls into the library do what they log, and at their end log what \<open>fin\<close> says of the answer.\<close>

lemma run_logs:
  assumes "run (log_act fin a l) S = (r, data, S')"
  shows "\<exists>ls. queues_run ls (queues_of S) = Some (queues_of S') \<and> visible ls = [] \<and> snd (ssl S') = l @ internal ls @ fin r data"
  using assms
proof (induction a arbitrary: S l rule: act_induct)
  case (Return x y z)
  then show ?case by (intro exI [of _ "[]"]) (auto simp: queues_of_def)
next
  case (Send bs k)
  then have "run (log_act fin (k (int (length bs))) (l @ [Sent bs])) (S\<lparr>outbound := outbound S @ [bs]\<rparr>) = (r, data, S')"
    by (simp add: sendCallback_def)
  from Send.IH [OF this] obtain ls where "queues_run ls (inbound S, outbound S @ [bs], plaintext S) = Some (queues_of S')"
    "visible ls = []" "snd (ssl S') = (l @ [Sent bs]) @ internal ls @ fin r data" by (auto simp: queues_of_def)
  then show ?case by (intro exI [of _ "Sent bs # ls"]) (simp add: queues_of_def)
next
  case (Recv n k)
  show ?case
  proof (cases "inbound S")
    case Nil
    then have "run (log_act fin (k WANT_READ []) l) S = (r, data, S')"
      using Recv.prems by (simp add: recvCallback_def WANT_READ_def)
    from Recv.IH [OF this] show ?thesis by auto
  next
    case (Cons front rest)
    then have "run (log_act fin (k (if length front > n then WANT_READ else int (length front)) (if length front > n then [] else front))
        (l @ internal [if length front > n then Dropped front else Received front])) (S\<lparr>inbound := rest\<rparr>) = (r, data, S')"
      using Recv.prems by (simp add: recvCallback_def WANT_READ_def split: if_splits)
    from Recv.IH [OF this] obtain ls where "queues_run ls (rest, outbound S, plaintext S) = Some (queues_of S')"
      "visible ls = []" "snd (ssl S') = (l @ internal [if length front > n then Dropped front else Received front]) @ internal ls @ fin r data"
      by (auto simp: queues_of_def)
    then show ?thesis using Cons
      by (intro exI [of _ "(if length front > n then Dropped front else Received front) # ls"]) (auto simp: queues_of_def pop_def)
  qed
next
  case (SetTimer i f k)
  then have "run (log_act fin k l) (S\<lparr>timer := setTimer i f (timer S)\<rparr>) = (r, data, S')" by simp
  from SetTimer.IH [OF this] show ?case by (simp add: queues_of_def)
next
  case (GetTimer k)
  from GetTimer.IH [of "getTimer (timer S)" l S] GetTimer.prems show ?case by simp
qed

lemma call_did:
  assumes "run (log_act no_plaintext a (snd (ssl S))) S = (r, data, S')"
  shows "\<exists>ls. did ls S S' []"
  using run_logs [OF assms] by (auto simp: did_def no_plaintext_def)

lemma read_did:
  assumes "run (log_act plaintext_read a (snd (ssl S))) S = (r, data, S')"
  shows "\<exists>ls. did ls S (if r > 0 then S'\<lparr>plaintext := plaintext S' @ [take (nat r) data]\<rparr> else S') []"
proof -
  from run_logs [OF assms] obtain ls where ls: "queues_run ls (queues_of S) = Some (queues_of S')" "visible ls = []"
    "snd (ssl S') = snd (ssl S) @ internal ls @ plaintext_read r data" by blast
  then have "did (ls @ (if r > 0 then [Decrypted (take (nat r) data)] else [])) S
      (if r > 0 then S'\<lparr>plaintext := plaintext S' @ [take (nat r) data]\<rparr> else S') []"
    by (auto simp: did_def queues_run_append visible_append internal_append plaintext_read_def queues_of_def)
  then show ?thesis by blast
qed

lemma drain_did:
  assumes "drainPlaintext (logged M) S = Some S'"
  shows "\<exists>ls. did ls S S' []"
proof -
  have "logged M = logged M \<longrightarrow> (\<exists>ls. did ls S S' [])"
  proof (rule drainPlaintext.raw_induct [where P = "\<lambda>N S S'. N = logged M \<longrightarrow> (\<exists>ls. did ls S S' [])", OF _ assms], goal_cases)
    case (1 f N S S')
    show ?case
    proof
      assume N: "N = logged M"
      obtain r data S1 where r: "run (log_act plaintext_read (ssl_read M (fst (ssl S)) (read_buffer M)) (snd (ssl S))) S = (r, data, S1)"
        by (metis prod_cases3)
      from read_did [OF r] obtain ls where ls: "did ls S (if r > 0 then S1\<lparr>plaintext := plaintext S1 @ [take (nat r) data]\<rparr> else S1) []"
        by blast
      show "\<exists>ls. did ls S S' []"
      proof (cases "r > 0")
        case True
        with 1(2) N r have "f (logged M) (S1\<lparr>plaintext := plaintext S1 @ [take (nat r) data]\<rparr>) = Some S'" by simp
        from 1(1) [OF this] obtain ls' where "did ls' (S1\<lparr>plaintext := plaintext S1 @ [take (nat r) data]\<rparr>) S' []" by blast
        with did_append [OF ls] True have "did (ls @ ls') S S' []" by fastforce
        then show ?thesis by blast
      next
        case False
        with 1(2) N r have "same S' S1" by (auto simp: same_def queues_of_def split: if_splits)
        with did_same [OF ls] False show ?thesis by auto
      qed
    qed
  qed
  then show ?thesis by simp
qed

lemma step_did:
  assumes "session_step (logged M) t S = Some (r, S')"
  shows "\<exists>ls. did ls S S' []"
proof -
  let ?S = "S\<lparr>timer := (timer S)\<lparr>now := t\<rparr>\<rparr>"
  have s: "same ?S S" by (simp add: same_def queues_of_def)
  have drained: "\<exists>ls. did ls S1 S' []"
    if "(if state S1 = ESTABLISHED then map_option (\<lambda>S. (state_code (state S), S)) (drainPlaintext (logged M) S1)
         else Some (state_code (state S1), S1)) = Some (r, S')" for S1
    using that drain_did [of M S1 S'] did_nothing [of S' S1] by (auto simp: same_def split: if_splits)
  consider (closed) "state S = CLOSED" | (up) "state S \<noteq> CLOSED" "handshakeDone S"
    | (handshake) "state S \<noteq> CLOSED" "\<not> handshakeDone S" by blast
  then have "\<exists>ls. did ls ?S S' []"
  proof cases
    case closed
    then have "S' = ?S" using assms by (simp add: session_step_def Let_def)
    then show ?thesis using did_nothing [of S' ?S] by (auto simp: same_def)
  next
    case up
    then show ?thesis using assms drained [of ?S] by (simp add: session_step_def Let_def)
  next
    case handshake
    obtain x y S1 where r: "run (log_act no_plaintext (ssl_handshake M (fst (ssl S))) (snd (ssl ?S))) ?S = (x, y, S1)" by (metis prod_cases3)
    from call_did [OF r] obtain ls where ls: "did ls ?S S1 []" by blast
    have "\<exists>ls. did ls S1 S' []"
    proof (cases "x = 0")
      case True
      then have "\<exists>ls. did ls (S1\<lparr>handshakeDone := True, state := ESTABLISHED\<rparr>) S' []"
        using assms handshake r drained by (simp add: session_step_def Let_def)
      then show ?thesis by (simp add: did_def queues_of_def)
    next
      case False
      then have "same S' S1"
        using assms handshake r by (auto simp: session_step_def Let_def queues_of_def same_def split: if_splits)
      then show ?thesis using did_nothing by blast
    qed
    with did_append [OF ls] show ?thesis by fastforce
  qed
  then show ?thesis using did_from [OF _ s] by blast
qed

lemma queue_take_did:
  assumes "queue_take out cap q = Some (r, out', q')"
  shows "q' = q \<and> r \<le> 0 \<or> (\<exists>b. q = b # q' \<and> r = int (length b) \<and> take (length b) out' = b)"
  using assms blit_slice [of out 0] by (auto simp: queue_take_def slice_def ERROR_TOO_SMALL_def split: list.splits if_splits)

lemma take_did:
  assumes "session_op M (Take out cap) S = Some (vis, S')"
  shows "\<exists>ls. did ls S S' vis"
proof -
  obtain r out' q' where t: "queue_take out cap (outbound S) = Some (r, out', q')" "S' = S\<lparr>outbound := q'\<rparr>"
    "vis = (if r > 0 then seen Taken (take (nat r) out') else [])"
    using assms by (auto simp: session_op_def session_take_def)
  from queue_take_did [OF t(1)] show ?thesis
  proof (elim disjE exE conjE)
    fix b
    assume "outbound S = b # q'" "r = int (length b)" "take (length b) out' = b"
    then have "did [Taken b] S S' vis" using t by (auto simp: did_def queues_of_def seen_def pop_def)
    then show ?thesis by blast
  qed (use t did_nothing [of S' S] in \<open>auto simp: same_def queues_of_def\<close>)
qed

lemma read_op_did:
  assumes "session_op M (Read out cap) S = Some (vis, S')"
  shows "\<exists>ls. did ls S S' vis"
proof -
  obtain r out' q' where t: "queue_take out cap (plaintext S) = Some (r, out', q')" "S' = S\<lparr>plaintext := q'\<rparr>"
    "vis = (if r > 0 then seen Given (take (nat r) out') else [])"
    using assms by (auto simp: session_op_def session_read_def)
  from queue_take_did [OF t(1)] show ?thesis
  proof (elim disjE exE conjE)
    fix b
    assume "plaintext S = b # q'" "r = int (length b)" "take (length b) out' = b"
    then have "did [Given b] S S' vis" using t by (auto simp: did_def queues_of_def seen_def pop_def)
    then show ?thesis by blast
  qed (use t did_nothing [of S' S] in \<open>auto simp: same_def queues_of_def\<close>)
qed

lemma feed_did:
  assumes "session_op M (Feed data len) S = Some (vis, S')"
  shows "\<exists>ls. did ls S S' vis"
proof (cases "\<exists>bs. data = Some bs \<and> len > 0")
  case True
  then obtain bs where "data = Some bs" "len > 0" by blast
  then have "did [Fed (take (nat len) bs)] S S' vis"
    using assms by (auto simp: session_op_def session_feed_def did_def queues_of_def)
  then show ?thesis by blast
next
  case False
  then have "did [] S S' vis" using assms
    by (auto simp: session_op_def session_feed_def did_def queues_of_def split: option.splits)
  then show ?thesis by blast
qed

lemma op_did:
  assumes "session_op (logged M) op S = Some (vis, S')"
  shows "\<exists>ls. did ls S S' vis"
proof (cases op)
  case (Step t)
  then show ?thesis using assms step_did by (fastforce simp: session_op_def)
next
  case (Write data)
  obtain x y S1 where r: "run (log_act no_plaintext (ssl_write M (fst (ssl S)) data) (snd (ssl S))) S = (x, y, S1)" by (metis prod_cases3)
  from call_did [OF r] obtain ls where ls: "did ls S S1 []" by blast
  have "vis = []" "same S' S1 \<or> same S' S"
    using assms Write r by (auto simp: session_op_def session_write_def queues_of_def same_def split: if_splits)
  then show ?thesis using did_either [OF ls, of S'] by simp
next
  case Notify
  obtain x y S1 where r: "run (log_act no_plaintext (ssl_close_notify M (fst (ssl S))) (snd (ssl S))) S = (x, y, S1)" by (metis prod_cases3)
  from call_did [OF r] obtain ls where ls: "did ls S S1 []" by blast
  have "vis = []" "same S' S1 \<or> same S' S"
    using assms Notify r by (auto simp: session_op_def session_notify_close_def queues_of_def same_def split: if_splits)
  then show ?thesis using did_either [OF ls, of S'] by simp
qed (use assms feed_did take_did read_op_did in blast)+

lemma ops_did: "session_ops (logged M) ops S = Some (vis, S') \<Longrightarrow> \<exists>ls. did ls S S' vis"
proof (induction ops arbitrary: S vis)
  case Nil
  then show ?case using did_nothing by (auto simp: same_def)
next
  case (Cons op ops)
  then obtain v1 S1 v2 where "session_op (logged M) op S = Some (v1, S1)" "session_ops (logged M) ops S1 = Some (v2, S')" "vis = v1 @ v2"
    by (auto split: option.splits)
  then show ?case using op_did Cons.IH did_append by metis
qed

section \<open>Taking what a queue holds\<close>

text \<open>A caller that takes again and again with one buffer.\<close>

fun takes :: "(bytes \<Rightarrow> int \<Rightarrow> 's Session \<Rightarrow> ((int \<times> bytes) \<times> 's Session) option) \<Rightarrow> nat \<Rightarrow> bytes \<Rightarrow> int \<Rightarrow> 's Session \<Rightarrow> bytes list option" where
  "takes f 0 out cap S = Some []"
| "takes f (Suc n) out cap S =
     (case f out cap S of
        None \<Rightarrow> None
      | Some ((r, out), S) \<Rightarrow> map_option ((#) (take (nat r) out)) (takes f n out cap S))"

text \<open>The contract of \<open>crossbyte_dtls_take\<close> and \<open>crossbyte_dtls_read\<close>, each on its queue.\<close>

locale datagram_queue =
  fixes q :: "'s Session \<Rightarrow> bytes list"
    and take_op :: "bytes \<Rightarrow> int \<Rightarrow> 's Session \<Rightarrow> ((int \<times> bytes) \<times> 's Session) option"
  assumes nothing: "q S = [] \<Longrightarrow> take_op out cap S = Some ((0, out), S)"
    and too_small: "q S = b # bs \<Longrightarrow> cap < int (length b) \<Longrightarrow> take_op out cap S = Some ((ERROR_TOO_SMALL, out), S)"
    and fits: "q S = b # bs \<Longrightarrow> int (length b) \<le> cap \<Longrightarrow> cap \<le> int (length out) \<Longrightarrow>
      \<exists>S'. take_op out cap S = Some ((int (length b), b @ drop (length b) out), S') \<and> q S' = bs"
begin

lemma takes_all:
  "\<lbrakk>\<forall>b\<in>set (q S). int (length b) \<le> cap; cap \<le> int (length out)\<rbrakk> \<Longrightarrow> takes take_op (length (q S)) out cap S = Some (q S)"
proof (induction "q S" arbitrary: S out)
  case Nil
  then show ?case by (cases "q S") simp_all
next
  case (Cons b bs)
  have e: "q S = b # bs" using Cons.hyps(2) by simp
  have b: "int (length b) \<le> cap" using Cons.prems(1) unfolding e by simp
  obtain S' where s: "take_op out cap S = Some ((int (length b), b @ drop (length b) out), S')" "q S' = bs"
    using fits [OF e b] Cons.prems by blast
  have "takes take_op (length (q S')) (b @ drop (length b) out) cap S' = Some (q S')"
    by (rule Cons.hyps(1)) (use s(2) b Cons.prems [unfolded e] in auto)
  then show ?case using s e by simp
qed

end

lemma queue_take_cases:
  "queue_take out cap [] = Some (0, out, [])"
  "cap < int (length b) \<Longrightarrow> queue_take out cap (b # bs) = Some (ERROR_TOO_SMALL, out, b # bs)"
  "int (length b) \<le> cap \<Longrightarrow> cap \<le> int (length out) \<Longrightarrow>
     queue_take out cap (b # bs) = Some (int (length b), b @ drop (length b) out, bs)"
  by (simp_all add: queue_take_def blit_def)

interpretation outgoing: datagram_queue outbound session_take
  by unfold_locales (simp_all add: session_take_def queue_take_cases)

interpretation incoming: datagram_queue plaintext session_read
  by unfold_locales (simp_all add: session_read_def queue_take_cases)

lemma internal_sent: "sent (internal ls) = sent ls"
  by (induction ls rule: internal.induct) auto

lemma internal_decrypted: "decrypted (internal ls) = decrypted ls"
  by (induction ls rule: internal.induct) auto

section \<open>Properties\<close>


lemma demo_simps:
  "ssl_handshake demo_mbedtls c = Return 0 [] ()"
  "ssl_read demo_mbedtls c n = Recv n (\<lambda>r bs. Return (if r > 0 then r else WANT_READ) bs ())"
  "ssl_write demo_mbedtls c bs = Send bs (\<lambda>r. Return r [] ())"
  "read_buffer demo_mbedtls = 16384"
  by (simp_all add: demo_mbedtls_def read_buffer_def)

lemmas demo_run =
  demo_simps sendCallback_def recvCallback_def session_op_def session_step_def session_feed_def
  session_read_def session_write_def queue_take_def blit_def seen_def new_session_def Let_def WANT_READ_def


text \<open>States only move forward, and a closed session is left alone.\<close>

definition state_ok :: "'s Session \<Rightarrow> bool" where
  "state_ok S \<longleftrightarrow> (state S = ESTABLISHED \<longrightarrow> handshakeDone S) \<and> (handshakeDone S \<longrightarrow> state S \<noteq> HANDSHAKING)"

lemma drain_frame:
  assumes "drainPlaintext M S = Some S'" and "state S = ESTABLISHED"
  shows "handshakeDone S' = handshakeDone S \<and> (state S' = ESTABLISHED \<or> state S' = CLOSED)"
proof -
  have "M = M \<longrightarrow> state S = ESTABLISHED \<longrightarrow> handshakeDone S' = handshakeDone S \<and> (state S' = ESTABLISHED \<or> state S' = CLOSED)"
  proof (rule drainPlaintext.raw_induct [where P = "\<lambda>N S S'. N = M \<longrightarrow> state S = ESTABLISHED \<longrightarrow>
      handshakeDone S' = handshakeDone S \<and> (state S' = ESTABLISHED \<or> state S' = CLOSED)", OF _ assms(1)], goal_cases)
    case (1 f N S S')
    obtain r data S1 where r: "run (ssl_read M (ssl S) (read_buffer M)) S = (r, data, S1)" by (metis prod_cases3)
    from run_frame [OF r] 1(2) r 1(1) [of M "S1\<lparr>plaintext := plaintext S1 @ [take (nat r) data]\<rparr>" S'] show ?case
      by (auto split: if_splits)
  qed
  with assms(2) show ?thesis by simp
qed

lemma step_states:
  assumes "session_step M t S = Some (r, S')" and "state_ok S"
  shows "state_ok S' \<and> (state S = ESTABLISHED \<longrightarrow> state S' \<noteq> HANDSHAKING)
    \<and> (state S = CLOSED \<longrightarrow> state S' = CLOSED \<and> ssl S' = ssl S \<and> session_step N t S = Some (r, S'))
    \<and> (state S = HANDSHAKING \<and> handshakeDone S' \<longrightarrow> (\<exists>data S1. run (ssl_handshake M (ssl S)) (S\<lparr>timer := (timer S)\<lparr>now := t\<rparr>\<rparr>) = (0, data, S1)))"
proof -
  let ?S = "S\<lparr>timer := (timer S)\<lparr>now := t\<rparr>\<rparr>"
  have drained: "handshakeDone S' \<and> (state S' = ESTABLISHED \<or> state S' = CLOSED)"
    if "map_option (\<lambda>S. (state_code (state S), S)) (drainPlaintext M S1) = Some (r, S')" "state S1 = ESTABLISHED" "handshakeDone S1" for S1
    using that drain_frame [of M S1 S'] by auto
  show ?thesis
  proof (cases "state S")
    case CLOSED
    then show ?thesis using assms by (auto simp: session_step_def Let_def state_ok_def)
  next
    case ESTABLISHED
    then show ?thesis using assms drained [of ?S] by (auto simp: session_step_def Let_def state_ok_def)
  next
    case HANDSHAKING
    then have h: "\<not> handshakeDone S" using assms(2) by (auto simp: state_ok_def)
    obtain x y S1 where x: "run (ssl_handshake M (ssl S)) ?S = (x, y, S1)" by (metis prod_cases3)
    then have fr: "state S1 = HANDSHAKING" "\<not> handshakeDone S1" using run_frame [OF x] HANDSHAKING h by auto
    show ?thesis
    proof (cases "x = 0")
      case True
      then show ?thesis using assms HANDSHAKING h x drained [of "S1\<lparr>handshakeDone := True, state := ESTABLISHED\<rparr>"]
        by (auto simp: session_step_def Let_def state_ok_def)
    next
      case False
      then show ?thesis using assms HANDSHAKING h x fr
        by (auto simp: session_step_def Let_def state_ok_def split: if_splits)
    qed
  qed
qed



text \<open>
  What draining relies on: a read that gives plaintext uses some of what mbedTLS holds or has been fed, by a measure
  of both.
\<close>

definition reads_consume :: "'s mbedtls \<Rightarrow> ('s \<Rightarrow> bytes list \<Rightarrow> nat) \<Rightarrow> bool" where
  "reads_consume M \<mu> \<longleftrightarrow>
     (\<forall>S r data S'. run (ssl_read M (ssl S) (read_buffer M)) S = (r, data, S') \<longrightarrow> 0 < r \<longrightarrow>
        \<mu> (ssl S') (inbound S') < \<mu> (ssl S) (inbound S))"

lemma drain_ends:
  assumes "reads_consume M \<mu>"
  shows "\<exists>S'. drainPlaintext M S = Some S'"
proof (induction "\<mu> (ssl S) (inbound S)" arbitrary: S rule: less_induct)
  case less
  obtain r data S1 where r: "run (ssl_read M (ssl S) (read_buffer M)) S = (r, data, S1)" by (metis prod_cases3)
  show ?case
  proof (cases "0 < r")
    case True
    with assms r have "\<mu> (ssl S1) (inbound S1) < \<mu> (ssl S) (inbound S)" by (auto simp: reads_consume_def)
    then have "\<exists>S'. drainPlaintext M (S1\<lparr>plaintext := plaintext S1 @ [take (nat r) data]\<rparr>) = Some S'"
      by (intro less) simp
    then show ?thesis using r True by (subst drainPlaintext.simps) simp
  next
    case False
    then show ?thesis using r by (subst drainPlaintext.simps) simp
  qed
qed

text \<open>
  C26. As long as every read that gives plaintext uses up some of what was fed, a step returns: with the state of
  the session, or with the error that closed it, which is then also what \<^verbatim>\<open>crossbyte_dtls_error\<close> answers.
\<close>

theorem dtls_step_returns:
  assumes "reads_consume M \<mu>"
  shows "\<exists>r S'. session_step M t S = Some (r, S')
    \<and> (r = state_code (state S') \<or> r \<noteq> 0 \<and> state S' = CLOSED \<and> error S' = r)"
proof -
  have drained: "\<exists>S'. drainPlaintext M S1 = Some S'" for S1 by (rule drain_ends [OF assms])
  let ?S = "S\<lparr>timer := (timer S)\<lparr>now := t\<rparr>\<rparr>"
  obtain x y S1 where x: "run (ssl_handshake M (ssl S)) ?S = (x, y, S1)" by (metis prod_cases3)
  show ?thesis using drained [of ?S] drained [of "S1\<lparr>handshakeDone := True, state := ESTABLISHED\<rparr>"] x
    by (auto simp: session_step_def Let_def)
qed

lemma dtls_step_returns_witness:
  "reads_consume demo_mbedtls (\<lambda>_ q. length q)
   \<and> (\<exists>r S'. session_step demo_mbedtls 5 (new_session ()) = Some (r, S')
       \<and> (r = state_code (state S') \<or> r \<noteq> 0 \<and> state S' = CLOSED \<and> error S' = r))"
proof -
  have "reads_consume demo_mbedtls (\<lambda>_ q. length q)"
    by (auto simp: reads_consume_def demo_mbedtls_def recvCallback_def WANT_READ_def split: list.splits if_splits)
  then show ?thesis using dtls_step_returns [of demo_mbedtls "\<lambda>_ q. length q" 5 "new_session ()"] by blast
qed

end
