(* ===== verification/Local_Socket.thy ===== *)
theory Local_Socket
  imports Shared_Names
begin

text \<open>
  \<^verbatim>\<open>ipc/_internal/NativeLocalConnection.cpp\<close> on POSIX: a named local connection over a Unix socket in the user's own
  directory, its name held by a lock file. System calls are the fields of \<open>lc_kernel\<close>, functions on a world \<open>'w\<close>;
  what the code itself keeps is the thread's \<open>lastError\<close>, the buffer size tests ask for and the handle. A call that
  never returns is \<open>None\<close>. A null pointer is \<open>None\<close>.
\<close>

section \<open>State\<close>

datatype lc_error = LOCAL_CONNECTION_ERROR_NONE | LOCAL_CONNECTION_ERROR_FAILED | LOCAL_CONNECTION_ERROR_NOT_OWNED

definition PIPE_BUFFER_SIZE :: int where "PIPE_BUFFER_SIZE = 65536"
definition CONNECT_TIMEOUT_MS :: int where "CONNECT_TIMEOUT_MS = 5000"
definition CONNECT_WAIT_SLICE_MS :: int where "CONNECT_WAIT_SLICE_MS = 50"
definition PIPE_LISTEN_BACKLOG :: int where "PIPE_LISTEN_BACKLOG = 16"
definition NAME_REFRESH_SECONDS :: int where "NAME_REFRESH_SECONDS = 3600"

record NativeLocalConnectionHandle =
  listenFd :: int
  clientFd :: int
  lockFd :: int
  path :: string
  lockRefreshed :: int

record 'w lc_ctx =
  lastError :: lc_error
  testSocketBuffer :: int
  sys :: 'w

datatype file_kind = Regular | Directory | Socket | Other_kind

record lc_stat =
  st_kind :: file_kind
  st_uid :: u32
  st_mode :: nat
  st_ino :: nat
  st_dev :: nat

datatype sock_option = SO_NOSIGPIPE | SO_SNDBUF | SO_RCVBUF

text \<open>
  The steady clock counts nanoseconds. \<open>poll_fd\<close> takes what it waits for, to read and to write, and milliseconds.
  \<open>so_error\<close> is \<^verbatim>\<open>getsockopt\<close> of \<^verbatim>\<open>SO_ERROR\<close>, \<open>Ret None\<close> an error of 0. \<open>send\<close> takes whether \<^verbatim>\<open>MSG_DONTWAIT\<close> is given.
\<close>

record 'w lc_kernel =
  geteuid :: "'w \<Rightarrow> u32"
  now :: "'w \<Rightarrow> int"
  lstat :: "string \<Rightarrow> 'w \<Rightarrow> lc_stat sysret \<times> 'w"
  mkdir_own :: "string \<Rightarrow> 'w \<Rightarrow> unit sysret \<times> 'w"
  open_lock :: "string \<Rightarrow> 'w \<Rightarrow> int option \<times> 'w"
  fstat :: "int \<Rightarrow> 'w \<Rightarrow> lc_stat option \<times> 'w"
  flock_nb :: "int \<Rightarrow> 'w \<Rightarrow> bool \<times> 'w"
  close_fd :: "int \<Rightarrow> 'w \<Rightarrow> 'w"
  futimes :: "int \<Rightarrow> 'w \<Rightarrow> 'w"
  unlink :: "string \<Rightarrow> 'w \<Rightarrow> 'w"
  socket :: "'w \<Rightarrow> int option \<times> 'w"
  bind :: "int \<Rightarrow> string \<Rightarrow> 'w \<Rightarrow> bool \<times> 'w"
  listen :: "int \<Rightarrow> int \<Rightarrow> 'w \<Rightarrow> bool \<times> 'w"
  accept :: "int \<Rightarrow> 'w \<Rightarrow> int option \<times> 'w"
  connect :: "int \<Rightarrow> string \<Rightarrow> 'w \<Rightarrow> unit sysret \<times> 'w"
  so_error :: "int \<Rightarrow> 'w \<Rightarrow> errno option sysret \<times> 'w"
  getfl :: "int \<Rightarrow> 'w \<Rightarrow> u32 option \<times> 'w"
  setfl :: "int \<Rightarrow> u32 \<Rightarrow> 'w \<Rightarrow> 'w"
  setsockopt :: "int \<Rightarrow> sock_option \<Rightarrow> int \<Rightarrow> 'w \<Rightarrow> 'w"
  recv :: "int \<Rightarrow> nat \<Rightarrow> 'w \<Rightarrow> bytes sysret \<times> 'w"
  recv_peek :: "int \<Rightarrow> 'w \<Rightarrow> nat sysret \<times> 'w"
  send :: "int \<Rightarrow> bytes \<Rightarrow> bool \<Rightarrow> 'w \<Rightarrow> nat sysret \<times> 'w"
  poll_fd :: "int \<Rightarrow> bool \<Rightarrow> bool \<Rightarrow> int \<Rightarrow> 'w \<Rightarrow> nat sysret \<times> 'w"
  poll_none :: "int \<Rightarrow> 'w \<Rightarrow> 'w"
  fionread :: "int \<Rightarrow> 'w \<Rightarrow> int sysret \<times> 'w"
  sleep_ms :: "int \<Rightarrow> 'w \<Rightarrow> 'w"
  new_handle :: "'w \<Rightarrow> bool \<times> 'w"
  O_NONBLOCK :: u32
  is_macos :: bool
  sun_path_size :: nat

definition lc_call :: "('w \<Rightarrow> 'r \<times> 'w) \<Rightarrow> 'w lc_ctx \<Rightarrow> 'r \<times> 'w lc_ctx" where
  "lc_call f c = (case f (sys c) of (r, w) \<Rightarrow> (r, c\<lparr>sys := w\<rparr>))"

definition lc_do :: "('w \<Rightarrow> 'w) \<Rightarrow> 'w lc_ctx \<Rightarrow> 'w lc_ctx" where
  "lc_do f c = c\<lparr>sys := f (sys c)\<rparr>"

definition clock :: "'w lc_kernel \<Rightarrow> 'w lc_ctx \<Rightarrow> int" where
  "clock K c = now K (sys c)"

definition after_ms :: "'w lc_kernel \<Rightarrow> int \<Rightarrow> 'w lc_ctx \<Rightarrow> int" where
  "after_ms K ms c = clock K c + ms * 1000000"

section \<open>Waiting\<close>

definition sliceLeft :: "'w lc_kernel \<Rightarrow> int \<Rightarrow> 'w lc_ctx \<Rightarrow> bool" where
  "sliceLeft K deadline c = (after_ms K CONNECT_WAIT_SLICE_MS c < deadline)"

definition anotherTry :: "'w lc_kernel \<Rightarrow> bool \<Rightarrow> int \<Rightarrow> 'w lc_ctx \<Rightarrow> bool" where
  "anotherTry K forever deadline c = (forever \<or> sliceLeft K deadline c)"

definition setNonBlocking :: "'w lc_kernel \<Rightarrow> int \<Rightarrow> 'w lc_ctx \<Rightarrow> 'w lc_ctx" where
  "setNonBlocking K fd c =
     (case lc_call (getfl K fd) c of
        (Some flags, c) \<Rightarrow> lc_do (setfl K fd (flags OR O_NONBLOCK K)) c
      | (None, c) \<Rightarrow> c)"

definition configureListeningSocket :: "'w lc_kernel \<Rightarrow> int \<Rightarrow> 'w lc_ctx \<Rightarrow> 'w lc_ctx" where
  "configureListeningSocket K fd c = setNonBlocking K fd c"

definition configureConnectedSocket :: "'w lc_kernel \<Rightarrow> int \<Rightarrow> 'w lc_ctx \<Rightarrow> 'w lc_ctx" where
  "configureConnectedSocket K fd c =
     (let c = setNonBlocking K fd c;
          c = (if is_macos K then lc_do (setsockopt K fd SO_NOSIGPIPE 1) c else c);
          buffer = testSocketBuffer c
      in if buffer > 0
         then lc_do (setsockopt K fd SO_RCVBUF buffer) (lc_do (setsockopt K fd SO_SNDBUF buffer) c)
         else c)"

text \<open>\<open>forRead\<close> and \<open>forWrite\<close> are the events waited for: \<^verbatim>\<open>POLLIN\<close>, \<^verbatim>\<open>POLLOUT\<close>.\<close>

partial_function (option) waitReady ::
  "'w lc_kernel \<Rightarrow> int \<Rightarrow> bool \<Rightarrow> bool \<Rightarrow> int \<Rightarrow> 'w lc_ctx \<Rightarrow> (bool \<times> 'w lc_ctx) option" where
  "waitReady K fd forRead forWrite deadline c =
     (if clock K c \<ge> deadline then Some (False, c)
      else let leftMs = (deadline - clock K c) div 1000000 + 1
           in case lc_call (poll_fd K fd forRead forWrite leftMs) c of
                (Ret ready, c) \<Rightarrow> if ready > 0 then Some (True, c) else waitReady K fd forRead forWrite deadline c
              | (Err e, c) \<Rightarrow> if e \<noteq> EINTR then Some (False, c) else waitReady K fd forRead forWrite deadline c)"

section \<open>The user's directory and the name in it\<close>

definition fail_as :: "lc_error \<Rightarrow> int \<Rightarrow> 'w lc_ctx \<Rightarrow> int \<times> 'w lc_ctx" where
  "fail_as e r c = (r, c\<lparr>lastError := e\<rparr>)"

text \<open>\<^verbatim>\<open>st_mode & 077\<close> is the last six bits of the mode.\<close>

definition own_directory :: "u32 \<Rightarrow> lc_stat \<Rightarrow> bool" where
  "own_directory euid info = (st_kind info = Directory \<and> st_uid info = euid \<and> st_mode info mod 64 = 0)"

definition judgeDirectory :: "'w lc_kernel \<Rightarrow> lc_stat \<Rightarrow> 'w lc_ctx \<Rightarrow> int \<times> 'w lc_ctx" where
  "judgeDirectory K info c =
     (if \<not> own_directory (geteuid K (sys c)) info then fail_as LOCAL_CONNECTION_ERROR_NOT_OWNED (- 1) c else (1, c))"

definition checkUserDirectory :: "'w lc_kernel \<Rightarrow> string \<Rightarrow> bool \<Rightarrow> 'w lc_ctx \<Rightarrow> int \<times> 'w lc_ctx" where
  "checkUserDirectory K directory mk c =
     (case lc_call (lstat K directory) c of
        (Ret info, c) \<Rightarrow> judgeDirectory K info c
      | (Err e, c) \<Rightarrow>
          if e \<noteq> ENOENT then fail_as LOCAL_CONNECTION_ERROR_FAILED (- 1) c
          else if \<not> mk then (0, c)
          else (case lc_call (mkdir_own K directory) c of
                  (r, c) \<Rightarrow>
                    if r \<noteq> Ret () \<and> r \<noteq> Err EEXIST then fail_as LOCAL_CONNECTION_ERROR_FAILED (- 1) c
                    else (case lc_call (lstat K directory) c of
                            (Ret info, c) \<Rightarrow> judgeDirectory K info c
                          | (Err _, c) \<Rightarrow> fail_as LOCAL_CONNECTION_ERROR_FAILED (- 1) c)))"

definition createHandle :: "'w lc_kernel \<Rightarrow> 'w lc_ctx \<Rightarrow> NativeLocalConnectionHandle option \<times> 'w lc_ctx" where
  "createHandle K c =
     (case lc_call (new_handle K) c of
        (False, c) \<Rightarrow> (None, c)
      | (True, c) \<Rightarrow>
          (Some \<lparr>listenFd = - 1, clientFd = - 1, lockFd = - 1, path = [], lockRefreshed = clock K c\<rparr>, c))"

definition getActiveFd :: "NativeLocalConnectionHandle option \<Rightarrow> int" where
  "getActiveFd handle =
     (case handle of None \<Rightarrow> - 1 | Some h \<Rightarrow> if clientFd h \<ge> 0 then clientFd h else listenFd h)"

definition lockPath :: "string \<Rightarrow> string" where
  "lockPath p = p @ ''.lock''"

text \<open>One attempt: \<open>None\<close> for the next, \<open>Some (Some fd)\<close> the lock, \<open>Some None\<close> refused.\<close>

definition lockName_try :: "'w lc_kernel \<Rightarrow> string \<Rightarrow> 'w lc_ctx \<Rightarrow> int option option \<times> 'w lc_ctx" where
  "lockName_try K p c =
     (case lc_call (open_lock K (lockPath p)) c of
        (None, c) \<Rightarrow> (Some None, c)
      | (Some fd, c) \<Rightarrow>
          (case lc_call (fstat K fd) c of
             (None, c) \<Rightarrow> (Some None, lc_do (close_fd K fd) c)
           | (Some held, c) \<Rightarrow>
               if st_kind held \<noteq> Regular \<or> st_uid held \<noteq> geteuid K (sys c) then (Some None, lc_do (close_fd K fd) c)
               else (case lc_call (flock_nb K fd) c of
                       (False, c) \<Rightarrow> (Some None, lc_do (close_fd K fd) c)
                     | (True, c) \<Rightarrow>
                         (case lc_call (lstat K (lockPath p)) c of
                            (Ret current, c) \<Rightarrow>
                              if st_ino held = st_ino current \<and> st_dev held = st_dev current
                              then (Some (Some fd), lc_do (futimes K fd) c)
                              else (None, lc_do (close_fd K fd) c)
                          | (Err _, c) \<Rightarrow> (None, lc_do (close_fd K fd) c)))))"

text \<open>The attempts left, 8 at the start.\<close>

fun lockName_attempts :: "nat \<Rightarrow> 'w lc_kernel \<Rightarrow> string \<Rightarrow> 'w lc_ctx \<Rightarrow> int option \<times> 'w lc_ctx" where
  "lockName_attempts 0 K p c = (None, c)"
| "lockName_attempts (Suc n) K p c =
     (case lockName_try K p c of
        (Some r, c) \<Rightarrow> (r, c)
      | (None, c) \<Rightarrow> lockName_attempts n K p c)"

definition lockName :: "'w lc_kernel \<Rightarrow> string \<Rightarrow> 'w lc_ctx \<Rightarrow> int option \<times> 'w lc_ctx" where
  "lockName K p c = lockName_attempts 8 K p c"

section \<open>Listening\<close>

text \<open>With the name locked: the socket made, bound over what a listener gone left, and listened on.\<close>

definition listenLocked ::
  "'w lc_kernel \<Rightarrow> string \<Rightarrow> NativeLocalConnectionHandle \<Rightarrow> int \<Rightarrow> 'w lc_ctx \<Rightarrow> NativeLocalConnectionHandle option \<times> 'w lc_ctx" where
  "listenLocked K pipeName h lfd c =
     (case lc_call (socket K) c of
        (None, c) \<Rightarrow> (None, lc_do (close_fd K lfd) c)
      | (Some sfd, c) \<Rightarrow>
          let c = lc_do (unlink K pipeName) c;
              (bound, c) = lc_call (bind K sfd pipeName) c;
              (listening, c) = (if bound then lc_call (listen K sfd PIPE_LISTEN_BACKLOG) c else (False, c))
          in if \<not> listening then (None, lc_do (close_fd K lfd) (lc_do (close_fd K sfd) c))
             else (Some (h\<lparr>listenFd := sfd, lockFd := lfd, path := pipeName\<rparr>),
                   (configureListeningSocket K sfd c)\<lparr>lastError := LOCAL_CONNECTION_ERROR_NONE\<rparr>))"

definition native_createInboundPipe ::
  "'w lc_kernel \<Rightarrow> string option \<Rightarrow> 'w lc_ctx \<Rightarrow> NativeLocalConnectionHandle option \<times> 'w lc_ctx" where
  "native_createInboundPipe K name c =
     (let c = c\<lparr>lastError := LOCAL_CONNECTION_ERROR_FAILED\<rparr>;
          directory = userDirectory (geteuid K (sys c))
      in case checkUserDirectory K directory True c of
           (present, c) \<Rightarrow>
             if present < 0 then (None, c)
             else let pipeName = makePipeName_posix directory name
                  in if length pipeName + 5 \<ge> sun_path_size K then (None, c)
                     else (case createHandle K c of
                             (None, c) \<Rightarrow> (None, c)
                           | (Some h, c) \<Rightarrow>
                               (case lockName K pipeName c of
                                  (None, c) \<Rightarrow> (None, c)
                                | (Some lfd, c) \<Rightarrow> listenLocked K pipeName h lfd c)))"

definition native_accept ::
  "'w lc_kernel \<Rightarrow> NativeLocalConnectionHandle option \<Rightarrow> 'w lc_ctx \<Rightarrow> bool \<times> NativeLocalConnectionHandle option \<times> 'w lc_ctx" where
  "native_accept K handle c =
     (case handle of
        None \<Rightarrow> (False, handle, c)
      | Some h \<Rightarrow>
          if listenFd h < 0 then (False, handle, c)
          else (case lc_call (accept K (listenFd h)) c of
                  (None, c) \<Rightarrow> (False, handle, c)
                | (Some fd, c) \<Rightarrow>
                    let c = (if clientFd h \<ge> 0 then lc_do (close_fd K (clientFd h)) c else c)
                    in (True, Some (h\<lparr>clientFd := fd\<rparr>), configureConnectedSocket K fd c)))"

definition native_disconnect ::
  "'w lc_kernel \<Rightarrow> NativeLocalConnectionHandle option \<Rightarrow> 'w lc_ctx \<Rightarrow> bool \<times> NativeLocalConnectionHandle option \<times> 'w lc_ctx" where
  "native_disconnect K handle c =
     (case handle of
        None \<Rightarrow> (False, handle, c)
      | Some h \<Rightarrow>
          if listenFd h < 0 then (False, handle, c)
          else if clientFd h \<ge> 0 then (True, Some (h\<lparr>clientFd := - 1\<rparr>), lc_do (close_fd K (clientFd h)) c)
          else (True, handle, c))"

definition native_isOpen :: "'w lc_kernel \<Rightarrow> NativeLocalConnectionHandle option \<Rightarrow> 'w lc_ctx \<Rightarrow> bool \<times> 'w lc_ctx" where
  "native_isOpen K handle c =
     (case handle of
        None \<Rightarrow> (False, c)
      | Some h \<Rightarrow>
          let fd = getActiveFd handle
          in if fd < 0 then (False, c)
             else (case lc_call (recv_peek K fd) c of
                     (Ret n, c) \<Rightarrow> (n > 0, c)
                   | (Err e, c) \<Rightarrow> (e = EAGAIN \<or> e = EWOULDBLOCK, c)))"

section \<open>Reading and writing\<close>

text \<open>The bytes read so far, and the answer with them.\<close>

partial_function (option) read_loop ::
  "'w lc_kernel \<Rightarrow> int \<Rightarrow> int \<Rightarrow> int \<Rightarrow> bytes \<Rightarrow> 'w lc_ctx \<Rightarrow> (int \<times> bytes \<times> 'w lc_ctx) option" where
  "read_loop K fd deadline bufferSize got c =
     (if int (length got) < bufferSize
      then (case lc_call (recv K fd (nat bufferSize - length got)) c of
              (Ret bs, c) \<Rightarrow>
                if bs \<noteq> [] then read_loop K fd deadline bufferSize (got @ bs) c else Some (- 1, got, c)
            | (Err e, c) \<Rightarrow>
                if e = EINTR then read_loop K fd deadline bufferSize got c
                else if e = EAGAIN \<or> e = EWOULDBLOCK
                then (case waitReady K fd True False deadline c of
                        None \<Rightarrow> None
                      | Some (ready, c) \<Rightarrow> if ready then read_loop K fd deadline bufferSize got c else Some (- 1, got, c))
                else Some (- 1, got, c))
      else Some (0, got, c))"

text \<open>The answer and the buffer, of which the bytes read are the first; null is \<open>None\<close>.\<close>

definition native_read ::
  "'w lc_kernel \<Rightarrow> NativeLocalConnectionHandle option \<Rightarrow> bytes option \<Rightarrow> int \<Rightarrow> 'w lc_ctx \<Rightarrow> (int \<times> bytes option \<times> 'w lc_ctx) option" where
  "native_read K handle buffer bufferSize c =
     (case (handle, buffer) of
        (Some h, Some buf) \<Rightarrow>
          if bufferSize \<le> 0 then Some (- 1, buffer, c)
          else let fd = getActiveFd handle
               in if fd < 0 then Some (- 1, buffer, c)
                  else (case read_loop K fd (after_ms K CONNECT_TIMEOUT_MS c) bufferSize [] c of
                          None \<Rightarrow> None
                        | Some (r, got, c) \<Rightarrow> map_option (\<lambda>buf. (r, Some buf, c)) (blit buf 0 got))
      | _ \<Rightarrow> Some (- 1, buffer, c))"

partial_function (option) writeSome_loop ::
  "'w lc_kernel \<Rightarrow> int \<Rightarrow> bytes \<Rightarrow> nat \<Rightarrow> 'w lc_ctx \<Rightarrow> (int \<times> 'w lc_ctx) option" where
  "writeSome_loop K fd data written c =
     (if written < length data
      then (case lc_call (send K fd (drop written data) True) c of
              (Ret n, c) \<Rightarrow>
                if n > 0 then writeSome_loop K fd data (written + n) c
                else Some (if written > 0 then int written else - 1, c)
            | (Err e, c) \<Rightarrow>
                if e = EINTR then writeSome_loop K fd data written c
                else if e = EAGAIN \<or> e = EWOULDBLOCK \<or> e = ENOBUFS then Some (int written, c)
                else Some (if written > 0 then int written else - 1, c))
      else Some (int written, c))"

text \<open>\<open>buffer\<close> has at least \<open>bufferSize\<close> bytes.\<close>

definition native_writeSome ::
  "'w lc_kernel \<Rightarrow> NativeLocalConnectionHandle option \<Rightarrow> bytes option \<Rightarrow> int \<Rightarrow> 'w lc_ctx \<Rightarrow> (int \<times> 'w lc_ctx) option" where
  "native_writeSome K handle buffer bufferSize c =
     (case (handle, buffer) of
        (Some h, Some buf) \<Rightarrow>
          if bufferSize < 0 then Some (- 1, c)
          else let fd = getActiveFd handle
               in if fd < 0 \<or> fd = listenFd h then Some (- 1, c)
                  else writeSome_loop K fd (take (nat bufferSize) buf) 0 c
      | _ \<Rightarrow> Some (- 1, c))"

partial_function (option) write_loop ::
  "'w lc_kernel \<Rightarrow> int \<Rightarrow> int \<Rightarrow> bytes \<Rightarrow> nat \<Rightarrow> 'w lc_ctx \<Rightarrow> (bool \<times> 'w lc_ctx) option" where
  "write_loop K fd deadline data written c =
     (if written < length data
      then (case lc_call (send K fd (drop written data) False) c of
              (Ret n, c) \<Rightarrow> if n > 0 then write_loop K fd deadline data (written + n) c else Some (False, c)
            | (Err e, c) \<Rightarrow>
                if e = EPIPE then Some (False, c)
                else if e = EINTR then write_loop K fd deadline data written c
                else if e = EAGAIN \<or> e = EWOULDBLOCK
                then (case waitReady K fd False True deadline c of
                        None \<Rightarrow> None
                      | Some (ready, c) \<Rightarrow> if ready then write_loop K fd deadline data written c else Some (False, c))
                else Some (False, c))
      else Some (True, c))"

definition native_write ::
  "'w lc_kernel \<Rightarrow> NativeLocalConnectionHandle option \<Rightarrow> bytes option \<Rightarrow> int \<Rightarrow> 'w lc_ctx \<Rightarrow> (bool \<times> 'w lc_ctx) option" where
  "native_write K handle buffer bufferSize c =
     (case (handle, buffer) of
        (Some h, Some buf) \<Rightarrow>
          if bufferSize \<le> 0 then Some (False, c)
          else let fd = getActiveFd handle
               in if fd < 0 then Some (False, c)
                  else write_loop K fd (after_ms K CONNECT_TIMEOUT_MS c) (take (nat bufferSize) buf) 0 c
      | _ \<Rightarrow> Some (False, c))"

section \<open>Closing\<close>

definition native_close :: "'w lc_kernel \<Rightarrow> NativeLocalConnectionHandle option \<Rightarrow> 'w lc_ctx \<Rightarrow> 'w lc_ctx" where
  "native_close K handle c =
     (case handle of
        None \<Rightarrow> c
      | Some h \<Rightarrow>
          let c = (if clientFd h \<ge> 0 then lc_do (close_fd K (clientFd h)) c else c);
              c = (if listenFd h \<ge> 0 then lc_do (unlink K (path h)) (lc_do (close_fd K (listenFd h)) c) else c)
          in if lockFd h \<ge> 0 then lc_do (close_fd K (lockFd h)) (lc_do (unlink K (lockPath (path h))) c) else c)"

section \<open>Connecting\<close>

definition own_socket :: "u32 \<Rightarrow> lc_stat \<Rightarrow> bool" where
  "own_socket euid info = (st_kind info = Socket \<and> st_uid info = euid)"

definition checkSocketPath :: "'w lc_kernel \<Rightarrow> string \<Rightarrow> 'w lc_ctx \<Rightarrow> int \<times> 'w lc_ctx" where
  "checkSocketPath K p c =
     (case lc_call (lstat K p) c of
        (Err e, c) \<Rightarrow> if e = ENOENT then (0, c) else fail_as LOCAL_CONNECTION_ERROR_FAILED (- 1) c
      | (Ret info, c) \<Rightarrow>
          if \<not> own_socket (geteuid K (sys c)) info then fail_as LOCAL_CONNECTION_ERROR_NOT_OWNED (- 1) c else (1, c))"

text \<open>\<^verbatim>\<open>connect()\<close> and the wait for one in progress: the error, \<open>None\<close> for 0.\<close>

definition connect_fd :: "'w lc_kernel \<Rightarrow> int \<Rightarrow> string \<Rightarrow> 'w lc_ctx \<Rightarrow> (errno option \<times> 'w lc_ctx) option" where
  "connect_fd K fd p c =
     (case lc_call (connect K fd p) c of
        (Ret _, c) \<Rightarrow> Some (None, c)
      | (Err e, c) \<Rightarrow>
          if e \<noteq> EINPROGRESS then Some (Some e, c)
          else (case waitReady K fd False True (after_ms K CONNECT_WAIT_SLICE_MS c) c of
                  None \<Rightarrow> None
                | Some (False, c) \<Rightarrow> Some (Some EAGAIN, c)
                | Some (True, c) \<Rightarrow>
                    (case lc_call (so_error K fd) c of
                       (Ret err, c) \<Rightarrow> Some (err, c)
                     | (Err _, c) \<Rightarrow> Some (Some EAGAIN, c))))"

text \<open>One pass of the loop: \<open>Inl\<close> what it returns, \<open>Inr\<close> the error it goes on with.\<close>

definition connect_once ::
  "'w lc_kernel \<Rightarrow> string \<Rightarrow> string \<Rightarrow> NativeLocalConnectionHandle \<Rightarrow> 'w lc_ctx
    \<Rightarrow> ((NativeLocalConnectionHandle option + errno) \<times> 'w lc_ctx) option" where
  "connect_once K directory pipeName h c =
     (case checkUserDirectory K directory False c of
        (present, c) \<Rightarrow>
          (case (if present > 0 then checkSocketPath K pipeName c else (present, c)) of
             (present, c) \<Rightarrow>
               if present < 0 then Some (Inl None, c)
               else if present = 0 then Some (Inr ENOENT, c)
               else (case lc_call (socket K) c of
                       (None, c) \<Rightarrow> Some (Inl None, c)
                     | (Some fd, c) \<Rightarrow>
                         (case connect_fd K fd pipeName (configureConnectedSocket K fd c) of
                            None \<Rightarrow> None
                          | Some (None, c) \<Rightarrow>
                              Some (Inl (Some (h\<lparr>clientFd := fd\<rparr>)), c\<lparr>lastError := LOCAL_CONNECTION_ERROR_NONE\<rparr>)
                          | Some (Some e, c) \<Rightarrow> Some (Inr e, lc_do (close_fd K fd) c)))))"

partial_function (option) connect_loop ::
  "'w lc_kernel \<Rightarrow> string \<Rightarrow> string \<Rightarrow> NativeLocalConnectionHandle \<Rightarrow> bool \<Rightarrow> int \<Rightarrow> 'w lc_ctx
    \<Rightarrow> (NativeLocalConnectionHandle option \<times> 'w lc_ctx) option" where
  "connect_loop K directory pipeName h forever deadline c =
     (case connect_once K directory pipeName h c of
        None \<Rightarrow> None
      | Some (Inl r, c) \<Rightarrow> Some (r, c)
      | Some (Inr e, c) \<Rightarrow>
          if (e \<noteq> ENOENT \<and> e \<noteq> ECONNREFUSED \<and> e \<noteq> EAGAIN \<and> e \<noteq> EWOULDBLOCK) \<or> \<not> anotherTry K forever deadline c
          then Some (None, c)
          else connect_loop K directory pipeName h forever deadline (lc_do (sleep_ms K CONNECT_WAIT_SLICE_MS) c))"

definition native_connectWithTimeout ::
  "'w lc_kernel \<Rightarrow> string option \<Rightarrow> int \<Rightarrow> 'w lc_ctx \<Rightarrow> (NativeLocalConnectionHandle option \<times> 'w lc_ctx) option" where
  "native_connectWithTimeout K name timeoutMs c =
     (let c = c\<lparr>lastError := LOCAL_CONNECTION_ERROR_FAILED\<rparr>;
          directory = userDirectory (geteuid K (sys c));
          pipeName = makePipeName_posix directory name
      in if length pipeName \<ge> sun_path_size K then Some (None, c)
         else (case createHandle K c of
                 (None, c) \<Rightarrow> Some (None, c)
               | (Some h, c) \<Rightarrow>
                   let forever = (timeoutMs \<le> 0)
                   in connect_loop K directory pipeName h forever (after_ms K (if forever then 0 else timeoutMs) c) c))"

definition native_connect ::
  "'w lc_kernel \<Rightarrow> string option \<Rightarrow> 'w lc_ctx \<Rightarrow> (NativeLocalConnectionHandle option \<times> 'w lc_ctx) option" where
  "native_connect K name c = native_connectWithTimeout K name CONNECT_TIMEOUT_MS c"

section \<open>The rest\<close>

definition native_getBytesAvailable :: "'w lc_kernel \<Rightarrow> NativeLocalConnectionHandle option \<Rightarrow> 'w lc_ctx \<Rightarrow> int \<times> 'w lc_ctx" where
  "native_getBytesAvailable K handle c =
     (case handle of
        None \<Rightarrow> (- 1, c)
      | Some h \<Rightarrow>
          let fd = getActiveFd handle
          in if fd < 0 then (- 1, c)
             else (case lc_call (fionread K fd) c of
                     (Ret n, c) \<Rightarrow> (n, c)
                   | (Err e, c) \<Rightarrow> (if e = EBADF \<or> e = ENOTCONN \<or> e = ECONNRESET then - 1 else 0, c)))"

definition native_keepName ::
  "'w lc_kernel \<Rightarrow> NativeLocalConnectionHandle option \<Rightarrow> 'w lc_ctx \<Rightarrow> NativeLocalConnectionHandle option \<times> 'w lc_ctx" where
  "native_keepName K handle c =
     (case handle of
        None \<Rightarrow> (handle, c)
      | Some h \<Rightarrow>
          if lockFd h < 0 then (handle, c)
          else let t = clock K c
               in if t - lockRefreshed h \<ge> NAME_REFRESH_SECONDS * 1000000000
                  then (Some (h\<lparr>lockRefreshed := t\<rparr>), lc_do (futimes K (lockFd h)) c)
                  else (handle, c))"

definition native_setSocketBufferForTest :: "int \<Rightarrow> 'w lc_ctx \<Rightarrow> 'w lc_ctx" where
  "native_setSocketBufferForTest n c = c\<lparr>testSocketBuffer := n\<rparr>"

definition native_descriptorOf :: "NativeLocalConnectionHandle option \<Rightarrow> int" where
  "native_descriptorOf handle = getActiveFd handle"

definition native_waitForWork :: "'w lc_kernel \<Rightarrow> int \<Rightarrow> bool \<Rightarrow> bool \<Rightarrow> int \<Rightarrow> 'w lc_ctx \<Rightarrow> bool \<times> 'w lc_ctx" where
  "native_waitForWork K fd rd wr timeoutMs c =
     (if fd < 0 \<or> (\<not> rd \<and> \<not> wr) then (False, lc_do (poll_none K timeoutMs) c)
      else (case lc_call (poll_fd K fd rd wr timeoutMs) c of
              (Ret n, c) \<Rightarrow> (n > 0, c)
            | (Err _, c) \<Rightarrow> (False, c)))"

definition native_localConnectionLastError :: "'w lc_ctx \<Rightarrow> lc_error" where
  "native_localConnectionLastError c = lastError c"

end
