(* ===== verification/Byte_Channel.thy ===== *)
theory Byte_Channel
  imports Prelude
begin

text \<open>
  What the two implementations of a local connection, over a Unix socket and over a Windows pipe, promise whoever
  uses them, and what follows from it for any use: the bytes read are the bytes written, in order, however the calls
  interleave.
\<close>

section \<open>Parts of a buffer\<close>

text \<open>From position \<open>i\<close> to position \<open>k\<close> of \<open>data\<close> went into \<open>f\<close>.\<close>

definition wrote :: "('c \<Rightarrow> bytes) \<Rightarrow> bytes \<Rightarrow> nat \<Rightarrow> 'c \<Rightarrow> nat \<Rightarrow> 'c \<Rightarrow> bool" where
  "wrote f data i c k c' \<longleftrightarrow> i \<le> k \<and> k \<le> length data \<and> f c' = f c @ slice i (k - i) data"

lemma wrote_same: "i \<le> length data \<Longrightarrow> f c' = f c \<Longrightarrow> wrote f data i c i c'"
  by (simp add: wrote_def slice_def)

lemma slice_split:
  assumes "i \<le> j" "j \<le> k"
  shows "slice i (k - i) xs = slice i (j - i) xs @ slice j (k - j) xs"
proof -
  have "k - i = (j - i) + (k - j)" "drop (j - i) (drop i xs) = drop j xs" using assms by simp_all
  then show ?thesis unfolding slice_def by (metis take_add)
qed

lemma wrote_trans:
  assumes "wrote f data i c j c1" "wrote f data j c1 k c'"
  shows "wrote f data i c k c'"
proof -
  have "slice i (k - i) data = slice i (j - i) data @ slice j (k - j) data" using assms by (auto simp: wrote_def slice_split)
  then show ?thesis using assms by (auto simp: wrote_def)
qed

lemma wrote_all: "wrote f (take m data) 0 c k c' \<Longrightarrow> k \<le> m \<and> f c' = f c @ take k data"
  by (auto simp: wrote_def slice_def min_def split: if_splits)

section \<open>The contract\<close>

datatype chan_op = Put bytes | Get nat

text \<open>
  Calls in turn, of the one end that writes and the one that reads: what was written, what was read. A call that fails
  to read ends the connection, and the run has no value.
\<close>

fun exchange ::
  "(bytes \<Rightarrow> 'c \<Rightarrow> (int \<times> 'c) option) \<Rightarrow> (bytes \<Rightarrow> 'c \<Rightarrow> (int \<times> bytes option \<times> 'c) option) \<Rightarrow> chan_op list \<Rightarrow> 'c
    \<Rightarrow> (bytes \<times> bytes \<times> 'c) option" where
  "exchange put get [] c = Some ([], [], c)"
| "exchange put get (Put data # ops) c =
     (case put data c of
        None \<Rightarrow> None
      | Some (r, c) \<Rightarrow> map_option (\<lambda>(w, r', c). (take (nat r) data @ w, r', c)) (exchange put get ops c))"
| "exchange put get (Get n # ops) c =
     (case get (replicate n 0) c of
        Some (r, Some buf, c) \<Rightarrow>
          if r = 0 then map_option (\<lambda>(w, r', c). (w, buf @ r', c)) (exchange put get ops c) else None
      | _ \<Rightarrow> None)"

text \<open>
  The contract, for all parameters \<open>p\<close> that are \<open>ok\<close>: \<open>q\<close> is what is on its way. A write takes a part from the front of
  what it is given, a read that answers 0 fills its buffer from the front of what is on its way.
\<close>

locale byte_channel =
  fixes ok :: "'p \<Rightarrow> bool"
    and q :: "'p \<Rightarrow> 'c \<Rightarrow> bytes"
    and put :: "'p \<Rightarrow> bytes \<Rightarrow> 'c \<Rightarrow> (int \<times> 'c) option"
    and get :: "'p \<Rightarrow> bytes \<Rightarrow> 'c \<Rightarrow> (int \<times> bytes option \<times> 'c) option"
  assumes put_part: "ok p \<Longrightarrow> put p data c = Some (r, c') \<Longrightarrow> q p c' = q p c @ take (nat r) data"
    and get_all: "ok p \<Longrightarrow> get p buf c = Some (0, Some buf', c') \<Longrightarrow> q p c = buf' @ q p c'"
begin

lemma in_order:
  assumes "ok p"
  shows "exchange (put p) (get p) ops c = Some (written, got, c') \<Longrightarrow> q p c @ written = got @ q p c'"
proof (induction "put p" "get p" ops c arbitrary: written got rule: exchange.induct)
  case (2 data ops c)
  then obtain r c1 w where s: "put p data c = Some (r, c1)" "exchange (put p) (get p) ops c1 = Some (w, got, c')" "written = take (nat r) data @ w"
    by (auto split: option.splits)
  from 2(1) [OF s(1) refl s(2)] put_part [OF assms s(1)] s(3) show ?case by simp
next
  case (3 n ops c)
  then obtain buf c1 g where s: "get p (replicate n 0) c = Some (0, Some buf, c1)" "exchange (put p) (get p) ops c1 = Some (written, g, c')" "got = buf @ g"
    by (auto split: option.splits if_splits)
  from 3(1) [OF s(1) refl refl refl refl s(2)] get_all [OF assms s(1)] s(3) show ?case by simp
qed simp

end

end
