(* ===== verification/Local_Stream.thy ===== *)
theory Local_Stream
  imports Local_Socket Byte_Channel
begin

text \<open>
  What a local connection on POSIX promises of its bytes and its waits: the bytes written are the bytes read
  (\<open>local_connection_stream\<close>), and every call with a deadline returns (\<open>local_calls_return\<close>).
\<close>

section \<open>Bytes\<close>

text \<open>
  What a stream socket is: \<open>q\<close> is what descriptor \<open>a\<close> has taken and \<open>b\<close> not yet given. A send takes a part from the
  front of what it is given, a receive gives a part from the front of \<open>q\<close>, no more than asked; a call that fails
  moves nothing, and neither does a poll.
\<close>

definition stream_socket :: "'w lc_kernel \<Rightarrow> int \<Rightarrow> int \<Rightarrow> ('w \<Rightarrow> bytes) \<Rightarrow> bool" where
  "stream_socket K a b q \<longleftrightarrow>
     (\<forall>bs d w w' n. send K a bs d w = (Ret n, w') \<longrightarrow> n \<le> length bs \<and> q w' = q w @ take n bs) \<and>
     (\<forall>bs d w w' e. send K a bs d w = (Err e, w') \<longrightarrow> q w' = q w) \<and>
     (\<forall>n w w' bs. recv K b n w = (Ret bs, w') \<longrightarrow> length bs \<le> n \<and> q w = bs @ q w') \<and>
     (\<forall>n w w' e. recv K b n w = (Err e, w') \<longrightarrow> q w' = q w) \<and>
     (\<forall>fd r s t w. q (snd (poll_fd K fd r s t w)) = q w)"

lemma lc_callD: "lc_call f c = (r, c') \<Longrightarrow> f (sys c) = (r, sys c')"
  by (auto simp: lc_call_def split: prod.splits)

lemma stream_socketD:
  assumes "stream_socket K a b q"
  shows "lc_call (send K a bs d) c = (Ret n, c') \<Longrightarrow> n \<le> length bs \<and> q (sys c') = q (sys c) @ take n bs"
    and "lc_call (send K a bs d) c = (Err e, c') \<Longrightarrow> q (sys c') = q (sys c)"
    and "lc_call (recv K b m) c = (Ret bs, c') \<Longrightarrow> length bs \<le> m \<and> q (sys c) = bs @ q (sys c')"
    and "lc_call (recv K b m) c = (Err e, c') \<Longrightarrow> q (sys c') = q (sys c)"
    and "lc_call (poll_fd K fd r s t) c = (x, c') \<Longrightarrow> q (sys c') = q (sys c)"
proof -
  note d = assms [unfolded stream_socket_def]
  show "n \<le> length bs \<and> q (sys c') = q (sys c) @ take n bs" if "lc_call (send K a bs d) c = (Ret n, c')"
    using d lc_callD [OF that] by metis
  show "q (sys c') = q (sys c)" if "lc_call (send K a bs d) c = (Err e, c')" using d lc_callD [OF that] by metis
  show "length bs \<le> m \<and> q (sys c) = bs @ q (sys c')" if "lc_call (recv K b m) c = (Ret bs, c')" using d lc_callD [OF that] by metis
  show "q (sys c') = q (sys c)" if "lc_call (recv K b m) c = (Err e, c')" using d lc_callD [OF that] by metis
  show "q (sys c') = q (sys c)" if "lc_call (poll_fd K fd r s t) c = (x, c')" using d lc_callD [OF that] by (metis snd_conv)
qed

text \<open>What every poll keeps, waiting keeps.\<close>

lemma waitReady_inv:
  assumes "waitReady K fd r s deadline c = Some (ok, c')"
    and "\<And>t x c c'. lc_call (poll_fd K fd r s t) c = (x, c') \<Longrightarrow> Q c \<Longrightarrow> Q c'" and "Q c"
  shows "Q c'"
proof -
  have "K = K \<longrightarrow> fd = fd \<longrightarrow> r = r \<longrightarrow> s = s \<longrightarrow> Q c \<longrightarrow> Q (snd (ok, c'))"
  proof (rule waitReady.raw_induct [where P = "\<lambda>K' fd' r' s' dl c y. K' = K \<longrightarrow> fd' = fd \<longrightarrow> r' = r \<longrightarrow> s' = s \<longrightarrow> Q c \<longrightarrow> Q (snd y)",
        OF _ assms(1)], goal_cases)
    case (1 g K' fd' r' s' dl c y)
    show ?case
    proof (intro impI)
      assume same: "K' = K" "fd' = fd" "r' = r" "s' = s" and q: "Q c"
      obtain x c1 where x: "lc_call (poll_fd K fd r s ((dl - clock K c) div 1000000 + 1)) c = (x, c1)" by fastforce
      note k = assms(2) [OF x q]
      have "g K fd r s dl c1 = Some y \<Longrightarrow> Q (snd y)" using 1(1) k by blast
      then show "Q (snd y)" using 1(2) same x k q by (auto simp: Let_def split: if_splits sysret.splits)
    qed
  qed
  with assms(3) show ?thesis by simp
qed

lemma waitReady_stream:
  assumes "waitReady K fd r s deadline c = Some (ok, c')" and "stream_socket K a b q"
  shows "q (sys c') = q (sys c)"
  by (rule waitReady_inv [where Q = "\<lambda>d. q (sys d) = q (sys c)", OF assms(1)]) (use stream_socketD(5) [OF assms(2)] in auto)

abbreviation sent_to :: "('w \<Rightarrow> bytes) \<Rightarrow> bytes \<Rightarrow> nat \<Rightarrow> 'w lc_ctx \<Rightarrow> nat \<Rightarrow> 'w lc_ctx \<Rightarrow> bool" where
  "sent_to q \<equiv> wrote (\<lambda>c. q (sys c))"

lemma wrote_send:
  assumes "stream_socket K a b q" and "lc_call (send K a (drop i data) d) c = (x, c')" and "i \<le> length data"
  shows "sent_to q data i c (case x of Ret n \<Rightarrow> i + n | Err _ \<Rightarrow> i) c'"
  using assms stream_socketD(1,2) [OF assms(1)] by (cases x) (fastforce simp: wrote_def slice_def)+

lemma writeSome_stream:
  assumes "writeSome_loop K a data i c = Some (r, c')" and "stream_socket K a b q" and "i \<le> length data"
  shows "\<exists>k. sent_to q data i c k c' \<and> (r = int k \<or> r = - 1 \<and> k = 0)"
proof -
  have "K = K \<longrightarrow> a = a \<longrightarrow> i \<le> length data \<longrightarrow> (\<exists>k. sent_to q data i c k (snd (r, c')) \<and> (fst (r, c') = int k \<or> fst (r, c') = - 1 \<and> k = 0))"
  proof (rule writeSome_loop.raw_induct [where P = "\<lambda>K' a' data i c y. K' = K \<longrightarrow> a' = a \<longrightarrow> i \<le> length data \<longrightarrow>
        (\<exists>k. sent_to q data i c k (snd y) \<and> (fst y = int k \<or> fst y = - 1 \<and> k = 0))", OF _ assms(1)], goal_cases)
    case (1 g K' a' data i c y)
    show ?case
    proof (intro impI)
      assume same: "K' = K" "a' = a" and le: "i \<le> length data"
      obtain x c1 where x: "lc_call (send K a (drop i data) True) c = (x, c1)" by fastforce
      let ?j = "case x of Ret n \<Rightarrow> i + n | Err _ \<Rightarrow> i"
      note w = wrote_send [OF assms(2) x le]
      then have j: "?j \<le> length data" by (simp add: wrote_def)
      have "\<exists>k. sent_to q data ?j c1 k (snd y) \<and> (fst y = int k \<or> fst y = - 1 \<and> k = 0)" if "i < length data"
        using 1(2) same x that j 1(1) [of K a data ?j c1 y] wrote_same [of ?j data "\<lambda>c. q (sys c)" c1 c1]
        by (auto split: sysret.splits if_splits)
      then show "\<exists>k. sent_to q data i c k (snd y) \<and> (fst y = int k \<or> fst y = - 1 \<and> k = 0)"
        using wrote_trans [OF w] 1(2) le wrote_same [of i data "\<lambda>c. q (sys c)" c c] by (cases "i < length data") (blast, auto)
    qed
  qed
  with assms(3) show ?thesis by simp
qed

lemma write_stream:
  assumes "write_loop K a dl data i c = Some (ok, c')" and "stream_socket K a b q" and "i \<le> length data"
  shows "\<exists>k. sent_to q data i c k c' \<and> (ok \<longrightarrow> k = length data)"
proof -
  have "K = K \<longrightarrow> a = a \<longrightarrow> i \<le> length data \<longrightarrow> (\<exists>k. sent_to q data i c k (snd (ok, c')) \<and> (fst (ok, c') \<longrightarrow> k = length data))"
  proof (rule write_loop.raw_induct [where P = "\<lambda>K' a' dl data i c y. K' = K \<longrightarrow> a' = a \<longrightarrow> i \<le> length data \<longrightarrow>
        (\<exists>k. sent_to q data i c k (snd y) \<and> (fst y \<longrightarrow> k = length data))", OF _ assms(1)], goal_cases)
    case (1 g K' a' dl data i c y)
    show ?case
    proof (intro impI)
      assume same: "K' = K" "a' = a" and le: "i \<le> length data"
      obtain x c1 where x: "lc_call (send K a (drop i data) False) c = (x, c1)" by fastforce
      let ?j = "case x of Ret n \<Rightarrow> i + n | Err _ \<Rightarrow> i"
      note w = wrote_send [OF assms(2) x le]
      then have j: "?j \<le> length data" by (simp add: wrote_def)
      have rec: "\<exists>k. sent_to q data ?j c1 k (snd y) \<and> (fst y \<longrightarrow> k = length data)"
        if "g K a dl data ?j c2 = Some y" "q (sys c2) = q (sys c1)" for c2
        using 1(1) [OF that(1)] that(2) j by (auto simp: wrote_def)
      have stop: "\<exists>k. sent_to q data ?j c1 k (snd y) \<and> (fst y \<longrightarrow> k = length data)"
        if "\<not> fst y" "q (sys (snd y)) = q (sys c1)"
        using that wrote_same [OF j, of "\<lambda>c. q (sys c)" "snd y" c1] by auto
      have "\<exists>k. sent_to q data ?j c1 k (snd y) \<and> (fst y \<longrightarrow> k = length data)" if "i < length data"
        using 1(2) same x that rec stop waitReady_stream [OF _ assms(2)]
        by (auto split: sysret.splits if_splits option.splits prod.splits)
      then show "\<exists>k. sent_to q data i c k (snd y) \<and> (fst y \<longrightarrow> k = length data)"
        using wrote_trans [OF w] 1(2) le wrote_same [of i data "\<lambda>c. q (sys c)" c c] by (cases "i < length data") (blast, auto)
    qed
  qed
  with assms(3) show ?thesis by simp
qed

text \<open>What a reader has taken out of the stream, and how much of what it asked for.\<close>

definition took :: "('w \<Rightarrow> bytes) \<Rightarrow> int \<Rightarrow> bytes \<Rightarrow> 'w lc_ctx \<Rightarrow> int \<times> bytes \<times> 'w lc_ctx \<Rightarrow> bool" where
  "took q bufferSize got c y \<longleftrightarrow>
     (case y of (r, got', c') \<Rightarrow> \<exists>bs. got' = got @ bs \<and> q (sys c) = bs @ q (sys c') \<and> int (length got') \<le> bufferSize
        \<and> (r = 0 \<and> int (length got') = bufferSize \<or> r = - 1))"

lemma read_stream:
  assumes "read_loop K b dl n got c = Some y" and "stream_socket K a b q" and "int (length got) \<le> n"
  shows "took q n got c y"
proof -
  have "K = K \<longrightarrow> b = b \<longrightarrow> int (length got) \<le> n \<longrightarrow> took q n got c y"
  proof (rule read_loop.raw_induct [where P = "\<lambda>K' b' dl n got c y. K' = K \<longrightarrow> b' = b \<longrightarrow> int (length got) \<le> n \<longrightarrow> took q n got c y",
        OF _ assms(1)], goal_cases)
    case (1 g K' b' dl n got c y)
    show ?case
    proof (intro impI)
      assume same: "K' = K" "b' = b" and le: "int (length got) \<le> n"
      obtain x c1 where x: "lc_call (recv K b (nat n - length got)) c = (x, c1)" by fastforce
      have rec: "took q n got c y" if "g K b dl n (got @ bs) c2 = Some y" "q (sys c) = bs @ q (sys c2)" "int (length (got @ bs)) \<le> n" for bs c2
        using 1(1) [OF that(1)] that(2,3) by (auto simp: took_def)
      have stop: "took q n got c y" if "y = (- 1, got, c2)" "q (sys c2) = q (sys c)" for c2
        using that le by (auto simp: took_def)
      show "took q n got c y"
      proof (cases "int (length got) < n")
        case False
        then show ?thesis using 1(2) le by (auto simp: took_def)
      next
        case True
        show ?thesis
        proof (cases x)
          case (Ret bs)
          note bs = stream_socketD(3) [OF assms(2) x [unfolded Ret]]
          then show ?thesis using 1(2) same x Ret True rec [of bs c1] stop [of c1] by (auto split: if_splits)
        next
          case (Err e)
          note e = stream_socketD(4) [OF assms(2) x [unfolded Err]]
          then show ?thesis using 1(2) same x Err True rec [of "[]"] stop waitReady_stream [OF _ assms(2)] le
            by (auto split: if_splits option.splits prod.splits)
        qed
      qed
    qed
  qed
  with assms(3) show ?thesis by simp
qed

lemma native_writeSome_stream:
  assumes "native_writeSome K (Some h) (Some data) n c = Some (r, c')" and "stream_socket K (getActiveFd (Some h)) b q"
    and "0 \<le> n"
  shows "- 1 \<le> r \<and> r \<le> n \<and> q (sys c') = q (sys c) @ take (nat r) data"
proof (cases "getActiveFd (Some h) < 0 \<or> getActiveFd (Some h) = listenFd h")
  case True
  then show ?thesis using assms(1,3) by (auto simp: native_writeSome_def)
next
  case False
  then have "writeSome_loop K (getActiveFd (Some h)) (take (nat n) data) 0 c = Some (r, c')"
    using assms(1,3) by (auto simp: native_writeSome_def Let_def)
  from writeSome_stream [OF this assms(2)] obtain k where "sent_to q (take (nat n) data) 0 c k c'" "r = int k \<or> r = - 1 \<and> k = 0"
    by auto
  with wrote_all [OF this(1)] assms(3) show ?thesis by auto
qed

lemma native_write_stream:
  assumes "native_write K (Some h) (Some data) n c = Some (ok, c')" and "stream_socket K (getActiveFd (Some h)) b q"
    and "0 < n" "n \<le> int (length data)"
  shows "\<exists>k. k \<le> nat n \<and> q (sys c') = q (sys c) @ take k data \<and> (ok \<longrightarrow> k = nat n)"
proof (cases "getActiveFd (Some h) < 0")
  case True
  then show ?thesis using assms(1,3) by (intro exI [of _ 0]) (auto simp: native_write_def)
next
  case False
  then have "write_loop K (getActiveFd (Some h)) (after_ms K CONNECT_TIMEOUT_MS c) (take (nat n) data) 0 c = Some (ok, c')"
    using assms(1,3) by (simp add: native_write_def)
  from write_stream [OF this assms(2)] obtain k where k: "sent_to q (take (nat n) data) 0 c k c'" "ok \<longrightarrow> k = length (take (nat n) data)"
    by auto
  have "length (take (nat n) data) = nat n" using assms(4) by simp
  with wrote_all [OF k(1)] k(2) show ?thesis by metis
qed

lemma native_read_stream:
  assumes "native_read K (Some h) (Some buf) n c = Some (r, buf', c')" and "stream_socket K a (getActiveFd (Some h)) q"
    and "0 < n"
  shows "\<exists>got. q (sys c) = got @ q (sys c') \<and> buf' = Some (got @ drop (length got) buf)
    \<and> (r = 0 \<and> int (length got) = n \<or> r = - 1 \<and> int (length got) \<le> n)"
proof (cases "getActiveFd (Some h) < 0")
  case True
  then show ?thesis using assms(1,3) by (intro exI [of _ "[]"]) (auto simp: native_read_def)
next
  case False
  then obtain got b where g: "read_loop K (getActiveFd (Some h)) (after_ms K CONNECT_TIMEOUT_MS c) n [] c = Some (r, got, c')"
    "blit buf 0 got = Some b" "buf' = Some b"
    using assms(1,3) by (auto simp: native_read_def Let_def split: option.splits)
  from read_stream [OF g(1) assms(2)] assms(3) g(2,3) show ?thesis
    by (auto simp: took_def blit_def split: if_splits)
qed

text \<open>The contract of a byte channel, for any kernel, two handles and a stream between their descriptors.\<close>

type_synonym 'w socket_pair = "'w lc_kernel \<times> NativeLocalConnectionHandle \<times> NativeLocalConnectionHandle \<times> ('w \<Rightarrow> bytes)"

definition sockets_ok :: "'w socket_pair \<Rightarrow> bool" where
  "sockets_ok p = (case p of (K, ha, hb, q) \<Rightarrow> stream_socket K (getActiveFd (Some ha)) (getActiveFd (Some hb)) q)"

definition sockets_queue :: "'w socket_pair \<Rightarrow> 'w lc_ctx \<Rightarrow> bytes" where
  "sockets_queue p c = (case p of (K, ha, hb, q) \<Rightarrow> q (sys c))"

definition sockets_put :: "'w socket_pair \<Rightarrow> bytes \<Rightarrow> 'w lc_ctx \<Rightarrow> (int \<times> 'w lc_ctx) option" where
  "sockets_put p data c = (case p of (K, ha, hb, q) \<Rightarrow> native_writeSome K (Some ha) (Some data) (int (length data)) c)"

definition sockets_get :: "'w socket_pair \<Rightarrow> bytes \<Rightarrow> 'w lc_ctx \<Rightarrow> (int \<times> bytes option \<times> 'w lc_ctx) option" where
  "sockets_get p buf c = (case p of (K, ha, hb, q) \<Rightarrow> native_read K (Some hb) (Some buf) (int (length buf)) c)"

lemmas sockets_defs = sockets_ok_def sockets_queue_def sockets_put_def sockets_get_def

lemma sockets_get_all:
  assumes "sockets_ok p" "sockets_get p buf c = Some (0, Some buf', c')"
  shows "sockets_queue p c = buf' @ sockets_queue p c'"
proof -
  obtain K ha hb q where p: "p = (K, ha, hb, q)" by (cases p)
  have "buf \<noteq> []" using assms(2) p by (auto simp: sockets_defs native_read_def)
  then obtain got where "q (sys c) = got @ q (sys c')" "buf' = got @ drop (length got) buf" "length got = length buf"
    using native_read_stream [of K hb buf "int (length buf)" c 0 "Some buf'" c' "getActiveFd (Some ha)" q] assms p by (auto simp: sockets_defs)
  then show ?thesis using p by (simp add: sockets_queue_def)
qed

interpretation sockets: byte_channel sockets_ok sockets_queue sockets_put sockets_get
proof
  fix p :: "'a socket_pair" and data c r c'
  assume "sockets_ok p" "sockets_put p data c = Some (r, c')"
  then show "sockets_queue p c' = sockets_queue p c @ take (nat r) data"
    by (cases p) (auto simp: sockets_defs dest: native_writeSome_stream)
qed (rule sockets_get_all)

text \<open>
  C27. A local connection over a Unix socket is a stream. What \<^verbatim>\<open>native_writeSome\<close> and \<^verbatim>\<open>native_write\<close> answer is what the
  socket took, a part from the front of the buffer and all of it when a write succeeds; \<^verbatim>\<open>native_read\<close> takes from the
  front of the stream into the front of its buffer and nowhere else, all that was asked for when it answers 0. So,
  however writes at one end and reads at the other interleave, in whatever sizes, and however the system cuts,
  refuses or interrupts the calls, what is read is what was written, in order.
\<close>

theorem local_connection_stream:
  assumes "stream_socket K (getActiveFd (Some ha)) (getActiveFd (Some hb)) q"
    and "0 < n" "n \<le> int (length data)"
  shows "(\<forall>c r c'. native_writeSome K (Some ha) (Some data) n c = Some (r, c') \<longrightarrow>
        - 1 \<le> r \<and> r \<le> n \<and> q (sys c') = q (sys c) @ take (nat r) data)
    \<and> (\<forall>c ok c'. native_write K (Some ha) (Some data) n c = Some (ok, c') \<longrightarrow>
        (\<exists>k. k \<le> nat n \<and> q (sys c') = q (sys c) @ take k data \<and> (ok \<longrightarrow> k = nat n)))
    \<and> (\<forall>c r buf buf' c'. native_read K (Some hb) (Some buf) n c = Some (r, buf', c') \<longrightarrow>
        (\<exists>got. q (sys c) = got @ q (sys c') \<and> buf' = Some (got @ drop (length got) buf)
          \<and> (r = 0 \<and> int (length got) = n \<or> r = - 1 \<and> int (length got) \<le> n)))
    \<and> (\<forall>ops c written got c'. exchange (\<lambda>bs. native_writeSome K (Some ha) (Some bs) (int (length bs)))
          (\<lambda>buf. native_read K (Some hb) (Some buf) (int (length buf))) ops c = Some (written, got, c') \<longrightarrow>
        q (sys c) @ written = got @ q (sys c'))"
proof (intro conjI allI impI, goal_cases)
  case (4 c ok c')
  then show ?case by (rule native_write_stream [OF _ assms])
next
  case (5 c r buf buf' c')
  then show ?case by (rule native_read_stream [OF _ assms(1,2)])
next
  case (6 ops c written got c')
  have "sockets_put (K, ha, hb, q) = (\<lambda>bs. native_writeSome K (Some ha) (Some bs) (int (length bs)))"
    "sockets_get (K, ha, hb, q) = (\<lambda>buf. native_read K (Some hb) (Some buf) (int (length buf)))"
    by (simp_all add: sockets_defs fun_eq_iff)
  then show ?case using sockets.in_order [of "(K, ha, hb, q)" ops c written got c'] 6 assms(1) by (simp add: sockets_ok_def sockets_queue_def)
qed (use native_writeSome_stream [OF _ assms(1) less_imp_le [OF assms(2)]] in blast)+

text \<open>A socket that takes and gives two bytes at a time.\<close>

definition two_at_a_time :: "bytes lc_kernel" where
  "two_at_a_time =
     \<lparr>geteuid = \<lambda>_. 0, now = \<lambda>_. 0, lstat = \<lambda>_ w. (Err ENOENT, w), mkdir_own = \<lambda>_ w. (Ret (), w),
      open_lock = \<lambda>_ w. (None, w), fstat = \<lambda>_ w. (None, w), flock_nb = \<lambda>_ w. (False, w), close_fd = \<lambda>_ w. w,
      futimes = \<lambda>_ w. w, unlink = \<lambda>_ w. w, socket = \<lambda>w. (None, w), bind = \<lambda>_ _ w. (False, w), listen = \<lambda>_ _ w. (False, w),
      accept = \<lambda>_ w. (None, w), connect = \<lambda>_ _ w. (Ret (), w), so_error = \<lambda>_ w. (Ret None, w), getfl = \<lambda>_ w. (None, w),
      setfl = \<lambda>_ _ w. w, setsockopt = \<lambda>_ _ _ w. w,
      recv = \<lambda>fd n w. if w = [] then (Err EAGAIN, w) else (Ret (take (min n 2) w), drop (min n 2) w),
      recv_peek = \<lambda>_ w. (Ret 1, w), send = \<lambda>fd bs d w. (Ret (min 2 (length bs)), w @ take 2 bs),
      poll_fd = \<lambda>_ _ _ _ w. (Ret 1, w), poll_none = \<lambda>_ w. w, fionread = \<lambda>_ w. (Ret 0, w), sleep_ms = \<lambda>_ w. w,
      new_handle = \<lambda>w. (True, w), O_NONBLOCK = 2048, is_macos = False, sun_path_size = 108\<rparr>"

definition client_on :: "int \<Rightarrow> NativeLocalConnectionHandle" where
  "client_on fd = \<lparr>listenFd = - 1, clientFd = fd, lockFd = - 1, path = [], lockRefreshed = 0\<rparr>"

lemma two_at_a_time_simps:
  "send two_at_a_time fd bs d w = (Ret (min 2 (length bs)), w @ take 2 bs)"
  "recv two_at_a_time fd n w = (if w = [] then (Err EAGAIN, w) else (Ret (take (min n 2) w), drop (min n 2) w))"
  by (simp_all add: two_at_a_time_def)

definition stream_start :: "bytes lc_ctx" where
  "stream_start = \<lparr>lastError = LOCAL_CONNECTION_ERROR_NONE, testSocketBuffer = 0, sys = []\<rparr>"

lemma local_connection_stream_witness:
  "stream_socket two_at_a_time 5 6 id
   \<and> (\<exists>c'. exchange (\<lambda>bs. native_writeSome two_at_a_time (Some (client_on 5)) (Some bs) (int (length bs)))
        (\<lambda>buf. native_read two_at_a_time (Some (client_on 6)) (Some buf) (int (length buf))) [Put [1, 2, 3], Get 1, Put [4], Get 2] stream_start
      = Some ([1, 2, 3, 4], [1, 2, 3], c') \<and> [] @ [1, 2, 3, 4] = [1, 2, 3] @ sys c')"
proof -
  have a: "getActiveFd (Some (client_on 5)) = 5" "getActiveFd (Some (client_on 6)) = 6"
    by (simp_all add: getActiveFd_def client_on_def)
  have s: "stream_socket two_at_a_time (getActiveFd (Some (client_on 5))) (getActiveFd (Some (client_on 6))) id"
    by (auto simp: stream_socket_def two_at_a_time_def min_def split: if_splits)
  obtain c' where w: "exchange (\<lambda>bs. native_writeSome two_at_a_time (Some (client_on 5)) (Some bs) (int (length bs)))
        (\<lambda>buf. native_read two_at_a_time (Some (client_on 6)) (Some buf) (int (length buf))) [Put [1, 2, 3], Get 1, Put [4], Get 2] stream_start
      = Some ([1, 2, 3, 4], [1, 2, 3], c')"
    by (simp add: native_writeSome_def native_read_def getActiveFd_def client_on_def writeSome_loop.simps read_loop.simps lc_call_def two_at_a_time_simps blit_def
        stream_start_def numeral_2_eq_2)
  have "id (sys stream_start) @ [1, 2, 3, 4] = [1, 2, 3] @ id (sys c')"
    by (rule local_connection_stream [OF s, of 1 "[0]", THEN conjunct2, THEN conjunct2, THEN conjunct2, rule_format, OF _ _ w]) simp_all
  then have "[] @ [1, 2, 3, 4] = [1, 2, 3] @ sys c'" by (simp only: stream_start_def lc_ctx.simps id_apply)
  with w s [unfolded a] show ?thesis by blast
qed

section \<open>Waits that end\<close>

text \<open>
  The steady clock runs while a call waits: it moves across a poll, by all of a sleep, and never back. A call is
  interrupted only so often, by some measure \<open>\<rho>\<close> of the world.
\<close>

definition clock_runs :: "'w lc_kernel \<Rightarrow> bool" where
  "clock_runs K \<longleftrightarrow>
     (\<forall>fd r s t w. now K w < now K (snd (poll_fd K fd r s t w))) \<and>
     (\<forall>ms w. now K w + ms * 1000000 \<le> now K (sleep_ms K ms w)) \<and>
     (\<forall>fd n w. now K w \<le> now K (snd (recv K fd n w))) \<and>
     (\<forall>fd bs d w. now K w \<le> now K (snd (send K fd bs d w))) \<and>
     (\<forall>p w. now K w \<le> now K (snd (lstat K p w))) \<and>
     (\<forall>w. now K w \<le> now K (snd (socket K w))) \<and>
     (\<forall>fd p w. now K w \<le> now K (snd (connect K fd p w))) \<and>
     (\<forall>fd w. now K w \<le> now K (snd (so_error K fd w))) \<and>
     (\<forall>fd w. now K w \<le> now K (snd (getfl K fd w))) \<and>
     (\<forall>fd fl w. now K w \<le> now K (setfl K fd fl w)) \<and>
     (\<forall>fd opt v w. now K w \<le> now K (setsockopt K fd opt v w)) \<and>
     (\<forall>fd w. now K w \<le> now K (close_fd K fd w))"

definition interrupts_end :: "'w lc_kernel \<Rightarrow> ('w \<Rightarrow> nat) \<Rightarrow> bool" where
  "interrupts_end K \<rho> \<longleftrightarrow>
     (\<forall>fd n w w'. recv K fd n w = (Err EINTR, w') \<longrightarrow> \<rho> w' < \<rho> w) \<and>
     (\<forall>fd bs d w w'. send K fd bs d w = (Err EINTR, w') \<longrightarrow> \<rho> w' < \<rho> w)"

definition receives_no_more :: "'w lc_kernel \<Rightarrow> bool" where
  "receives_no_more K \<longleftrightarrow> (\<forall>fd n w w' bs. recv K fd n w = (Ret bs, w') \<longrightarrow> length bs \<le> n)"

lemma clock_poll: "clock_runs K \<Longrightarrow> lc_call (poll_fd K fd r s t) c = (x, c') \<Longrightarrow> clock K c < clock K c'"
  unfolding clock_runs_def clock_def by (metis lc_callD snd_conv)

lemma clock_recv: "clock_runs K \<Longrightarrow> lc_call (recv K fd n) c = (x, c') \<Longrightarrow> clock K c \<le> clock K c'"
  unfolding clock_runs_def clock_def by (metis lc_callD snd_conv)

lemma clock_send: "clock_runs K \<Longrightarrow> lc_call (send K fd bs d) c = (x, c') \<Longrightarrow> clock K c \<le> clock K c'"
  unfolding clock_runs_def clock_def by (metis lc_callD snd_conv)

lemma waitReady_returns:
  assumes "clock_runs K"
  shows "\<exists>ok c'. waitReady K fd r s deadline c = Some (ok, c') \<and> clock K c \<le> clock K c' \<and> (ok \<longrightarrow> clock K c < clock K c')"
proof (induction "nat (deadline - clock K c)" arbitrary: c rule: less_induct)
  case less
  show ?case
  proof (cases "clock K c \<ge> deadline")
    case True
    then show ?thesis by (subst waitReady.simps) auto
  next
    case False
    obtain x c1 where x: "lc_call (poll_fd K fd r s ((deadline - clock K c) div 1000000 + 1)) c = (x, c1)" by fastforce
    note t = clock_poll [OF assms x]
    then have "nat (deadline - clock K c1) < nat (deadline - clock K c)" using False by simp
    from less [OF this] obtain ok c' where "waitReady K fd r s deadline c1 = Some (ok, c')" "clock K c1 \<le> clock K c'" by blast
    then show ?thesis using False x t by (subst waitReady.simps) (auto simp: Let_def split: sysret.splits)
  qed
qed

lemma read_loop_returns:
  assumes "clock_runs K" "interrupts_end K \<rho>" "receives_no_more K" and "int (length got) \<le> n"
  shows "\<exists>r got' c'. read_loop K fd dl n got c = Some (r, got', c') \<and> int (length got') \<le> n"
  using assms(4)
proof (induction "(nat n - length got, nat (dl - clock K c), \<rho> (sys c))" arbitrary: got c
    rule: wf_induct_rule [OF wf_lex_prod [OF wf_less_than wf_lex_prod [OF wf_less_than wf_less_than]]])
  case (1 got c)
  have rec: "\<exists>r got' c'. read_loop K fd dl n (got @ bs) c1 = Some (r, got', c') \<and> int (length got') \<le> n"
    if "bs \<noteq> [] \<or> bs = [] \<and> (clock K c < clock K c1 \<and> clock K c < dl \<or> clock K c \<le> clock K c1 \<and> \<rho> (sys c1) < \<rho> (sys c))"
      "int (length (got @ bs)) \<le> n" for bs c1
  proof -
    have "bs \<noteq> [] \<longrightarrow> nat n - length (got @ bs) < nat n - length got" using that(2) by (cases bs) auto
    then show ?thesis by (intro 1(1)) (use that in auto)
  qed
  show ?case
  proof (cases "int (length got) < n")
    case True
    obtain x c1 where x: "lc_call (recv K fd (nat n - length got)) c = (x, c1)" by fastforce
    note t = clock_recv [OF assms(1) x]
    show ?thesis
    proof (cases x)
      case (Ret bs)
      then have "length bs \<le> nat n - length got" using x assms(3) lc_callD unfolding receives_no_more_def by metis
      then show ?thesis using x Ret True rec [of bs c1] 1(2) by (subst read_loop.simps) auto
    next
      case (Err e)
      obtain ok c2 where w: "waitReady K fd True False dl c1 = Some (ok, c2)" "clock K c1 \<le> clock K c2" "ok \<longrightarrow> clock K c1 < clock K c2"
        using waitReady_returns [OF assms(1)] by blast
      have i: "\<rho> (sys c1) < \<rho> (sys c)" if "e = EINTR" using that x Err assms(2) lc_callD unfolding interrupts_end_def by metis
      have d: "clock K c < dl" if ok using that w(1) t by (subst (asm) waitReady.simps) (auto split: if_splits)
      show ?thesis using x Err True 1(2) rec [of "[]" c1] rec [of "[]" c2] w i d t
        by (subst read_loop.simps) (cases "e = EINTR"; cases ok; auto)
    qed
  next
    case False
    then show ?thesis using 1(2) by (subst read_loop.simps) simp
  qed
qed

lemma writeSome_loop_returns:
  assumes "interrupts_end K \<rho>"
  shows "\<exists>y. writeSome_loop K fd data i c = Some y"
proof (induction "(length data - i, \<rho> (sys c))" arbitrary: i c rule: wf_induct_rule [OF wf_lex_prod [OF wf_less_than wf_less_than]])
  case (1 i c)
  show ?case
  proof (cases "i < length data")
    case True
    obtain x c1 where x: "lc_call (send K fd (drop i data) True) c = (x, c1)" by fastforce
    have "\<exists>y. writeSome_loop K fd data (i + n) c1 = Some y" if "n > 0" for n using that True by (intro 1) auto
    moreover have "\<exists>y. writeSome_loop K fd data i c1 = Some y" if "x = Err EINTR"
      using that x assms lc_callD by (intro 1) (fastforce simp: interrupts_end_def)
    ultimately show ?thesis using x True by (subst writeSome_loop.simps) (auto split: sysret.splits)
  next
    case False
    then show ?thesis by (subst writeSome_loop.simps) simp
  qed
qed

lemma write_loop_returns:
  assumes "clock_runs K" "interrupts_end K \<rho>"
  shows "\<exists>y. write_loop K fd dl data i c = Some y"
proof (induction "(length data - i, nat (dl - clock K c), \<rho> (sys c))" arbitrary: i c
    rule: wf_induct_rule [OF wf_lex_prod [OF wf_less_than wf_lex_prod [OF wf_less_than wf_less_than]]])
  case (1 i c)
  show ?case
  proof (cases "i < length data")
    case True
    obtain x c1 where x: "lc_call (send K fd (drop i data) False) c = (x, c1)" by fastforce
    note t = clock_send [OF assms(1) x]
    obtain ok c2 where w: "waitReady K fd False True dl c1 = Some (ok, c2)" "clock K c1 \<le> clock K c2" "ok \<longrightarrow> clock K c1 < clock K c2"
      using waitReady_returns [OF assms(1)] by blast
    have d: "clock K c < dl" if ok using that w(1) t by (subst (asm) waitReady.simps) (auto split: if_splits)
    have "\<exists>y. write_loop K fd dl data (i + n) c1 = Some y" if "n > 0" for n using that True by (intro 1) auto
    moreover have "\<exists>y. write_loop K fd dl data i c1 = Some y" if "x = Err EINTR"
    proof -
      have "\<rho> (sys c1) < \<rho> (sys c)" using that x assms(2) lc_callD unfolding interrupts_end_def by metis
      with t show ?thesis by (intro 1) auto
    qed
    moreover have "\<exists>y. write_loop K fd dl data i c2 = Some y" if ok using that w d t by (intro 1) auto
    ultimately show ?thesis using x True w(1) by (subst write_loop.simps) (auto split: sysret.splits)
  next
    case False
    then show ?thesis by (subst write_loop.simps) auto
  qed
qed

lemma clock_do: "clock_runs K \<Longrightarrow> clock K c \<le> clock K (lc_do (close_fd K fd) c)"
  "clock_runs K \<Longrightarrow> clock K c \<le> clock K (lc_do (setfl K fd fl) c)"
  "clock_runs K \<Longrightarrow> clock K c \<le> clock K (lc_do (setsockopt K fd opt v) c)"
  by (simp_all add: clock_runs_def clock_def lc_do_def)

lemma clock_call: "clock_runs K \<Longrightarrow> lc_call (lstat K p) c = (x1, c') \<Longrightarrow> clock K c \<le> clock K c'"
  "clock_runs K \<Longrightarrow> lc_call (socket K) c = (x2, c') \<Longrightarrow> clock K c \<le> clock K c'"
  "clock_runs K \<Longrightarrow> lc_call (connect K fd p) c = (x3, c') \<Longrightarrow> clock K c \<le> clock K c'"
  "clock_runs K \<Longrightarrow> lc_call (so_error K fd) c = (x4, c') \<Longrightarrow> clock K c \<le> clock K c'"
  "clock_runs K \<Longrightarrow> lc_call (getfl K fd) c = (x5, c') \<Longrightarrow> clock K c \<le> clock K c'"
  unfolding clock_runs_def clock_def by (metis lc_callD snd_conv)+

lemma clock_error [simp]: "clock K (c\<lparr>lastError := e\<rparr>) = clock K c"
  by (simp add: clock_def)

lemma clock_configure:
  assumes "clock_runs K"
  shows "clock K c \<le> clock K (configureConnectedSocket K fd c)"
proof -
  have n: "clock K c \<le> clock K (setNonBlocking K fd c)"
  proof -
    obtain x c1 where x: "lc_call (getfl K fd) c = (x, c1)" by fastforce
    from clock_call(5) [OF assms x] show ?thesis
      using x order_trans [OF _ clock_do(2) [OF assms]] by (cases x) (auto simp: setNonBlocking_def)
  qed
  note up = order_trans [OF _ clock_do(3) [OF assms]]
  from n show ?thesis by (auto simp: configureConnectedSocket_def Let_def intro!: up)
qed

lemma clock_check:
  assumes "clock_runs K"
  shows "checkUserDirectory K d False c = (r, c') \<Longrightarrow> clock K c \<le> clock K c'" "checkSocketPath K p c = (r, c') \<Longrightarrow> clock K c \<le> clock K c'"
  using clock_call(1) [OF assms]
  by (fastforce simp: checkUserDirectory_def checkSocketPath_def judgeDirectory_def fail_as_def split: prod.splits sysret.splits if_splits)+

lemma connect_fd_returns:
  assumes "clock_runs K"
  shows "\<exists>x c'. connect_fd K fd p c = Some (x, c') \<and> clock K c \<le> clock K c'"
proof -
  obtain x c1 where x: "lc_call (connect K fd p) c = (x, c1)" by fastforce
  obtain ok c2 where w: "waitReady K fd False True (after_ms K CONNECT_WAIT_SLICE_MS c1) c1 = Some (ok, c2)" "clock K c1 \<le> clock K c2"
    using waitReady_returns [OF assms] by blast
  obtain y c3 where y: "lc_call (so_error K fd) c2 = (y, c3)" by fastforce
  show ?thesis using x y w clock_call(3) [OF assms x] clock_call(4) [OF assms y]
    by (cases x; cases ok; cases y) (auto simp: connect_fd_def)
qed

lemma connect_once_returns:
  assumes "clock_runs K"
  shows "\<exists>x c'. connect_once K d p h c = Some (x, c') \<and> clock K c \<le> clock K c'"
proof -
  obtain r1 c1 where c1: "checkUserDirectory K d False c = (r1, c1)" by fastforce
  obtain r2 c2 where c2: "(if r1 > 0 then checkSocketPath K p c1 else (r1, c1)) = (r2, c2)" by fastforce
  obtain r3 c3 where c3: "lc_call (socket K) c2 = (r3, c3)" by fastforce
  have "clock K c1 \<le> clock K c2" using clock_check(2) [OF assms] c2 by (auto split: if_splits)
  then have t: "clock K c \<le> clock K c2" "clock K c2 \<le> clock K c3"
    using clock_check(1) [OF assms c1] clock_call(2) [OF assms c3] by auto
  show ?thesis
  proof (cases "r2 \<le> 0 \<or> r3 = None")
    case True
    then show ?thesis using c1 c2 c3 t by (auto simp: connect_once_def)
  next
    case False
    then obtain fd where fd: "r3 = Some fd" "r2 > 0" by auto
    obtain x c4 where x: "connect_fd K fd p (configureConnectedSocket K fd c3) = Some (x, c4)"
      "clock K (configureConnectedSocket K fd c3) \<le> clock K c4" using connect_fd_returns [OF assms] by blast
    have "clock K c \<le> clock K c4" using t clock_configure [OF assms, of c3 fd] x(2) by linarith
    then show ?thesis using c1 c2 c3 fd x(1) order_trans [OF _ clock_do(1) [OF assms]] by (cases x) (auto simp: connect_once_def)
  qed
qed

lemma connect_loop_returns:
  assumes "clock_runs K"
  shows "\<exists>y. connect_loop K d p h False dl c = Some y"
proof (induction "nat (dl - clock K c)" arbitrary: c rule: less_induct)
  case less
  obtain x c1 where x: "connect_once K d p h c = Some (x, c1)" "clock K c \<le> clock K c1" using connect_once_returns [OF assms] by blast
  let ?c = "lc_do (sleep_ms K CONNECT_WAIT_SLICE_MS) c1"
  have "clock K c1 + 50000000 \<le> clock K ?c"
    using assms by (auto simp: clock_runs_def clock_def lc_do_def CONNECT_WAIT_SLICE_MS_def dest: spec [of _ 50])
  then have "\<exists>y. connect_loop K d p h False dl ?c = Some y" if "anotherTry K False dl c1"
    using that x(2) by (intro less) (simp add: anotherTry_def sliceLeft_def after_ms_def CONNECT_WAIT_SLICE_MS_def)
  then show ?case using x(1) by (subst connect_loop.simps) (auto split: sum.splits)
qed

lemma native_read_returns:
  assumes "clock_runs K" "interrupts_end K \<rho>" "receives_no_more K" and "n \<le> int (length buf)"
  shows "\<exists>y. native_read K handle (Some buf) n c = Some y"
proof (cases "handle = None \<or> n \<le> 0 \<or> getActiveFd handle < 0")
  case True
  then show ?thesis by (cases handle) (auto simp: native_read_def Let_def)
next
  case False
  obtain r got c' where r: "read_loop K (getActiveFd handle) (after_ms K CONNECT_TIMEOUT_MS c) n [] c = Some (r, got, c')" "int (length got) \<le> n"
    using read_loop_returns [OF assms(1-3), of "[]" n] False by fastforce
  then show ?thesis using False assms(4) by (auto simp: native_read_def Let_def blit_def)
qed

text \<open>
  C28. No call on a local connection waits for good. As long as the clock runs and interruptions end, a read, a write
  of what fits and a write of everything return whatever the socket answers, and so does a connect with a deadline,
  whatever is or comes at its name.
\<close>

theorem local_calls_return:
  assumes "clock_runs K" "interrupts_end K \<rho>" "receives_no_more K"
    and "n \<le> int (length buf)" "0 < timeoutMs"
  shows "(\<exists>y. native_read K handle (Some buf) n c = Some y) \<and> (\<exists>y. native_writeSome K handle (Some buf) n c = Some y)
    \<and> (\<exists>y. native_write K handle (Some buf) n c = Some y) \<and> (\<exists>y. native_connectWithTimeout K name timeoutMs c = Some y)"
proof (intro conjI)
  show "\<exists>y. native_writeSome K handle (Some buf) n c = Some y"
    using writeSome_loop_returns [OF assms(2)] by (cases handle) (auto simp: native_writeSome_def Let_def)
  show "\<exists>y. native_write K handle (Some buf) n c = Some y"
    using write_loop_returns [OF assms(1,2)] by (cases handle) (auto simp: native_write_def Let_def)
  show "\<exists>y. native_connectWithTimeout K name timeoutMs c = Some y"
    using connect_loop_returns [OF assms(1)] assms(5) by (auto simp: native_connectWithTimeout_def Let_def split: prod.splits option.splits)
qed (rule native_read_returns [OF assms(1-4)])

text \<open>A clock that a poll and a sleep move, and nothing else there.\<close>

definition ticking :: "int lc_kernel" where
  "ticking =
     \<lparr>geteuid = \<lambda>_. 0, now = \<lambda>w. w, lstat = \<lambda>_ w. (Err ENOENT, w), mkdir_own = \<lambda>_ w. (Ret (), w),
      open_lock = \<lambda>_ w. (None, w), fstat = \<lambda>_ w. (None, w), flock_nb = \<lambda>_ w. (False, w), close_fd = \<lambda>_ w. w,
      futimes = \<lambda>_ w. w, unlink = \<lambda>_ w. w, socket = \<lambda>w. (None, w), bind = \<lambda>_ _ w. (False, w), listen = \<lambda>_ _ w. (False, w),
      accept = \<lambda>_ w. (None, w), connect = \<lambda>_ _ w. (Ret (), w), so_error = \<lambda>_ w. (Ret None, w), getfl = \<lambda>_ w. (None, w),
      setfl = \<lambda>_ _ w. w, setsockopt = \<lambda>_ _ _ w. w, recv = \<lambda>_ _ w. (Err EAGAIN, w), recv_peek = \<lambda>_ w. (Ret 1, w),
      send = \<lambda>_ _ _ w. (Err EAGAIN, w), poll_fd = \<lambda>_ _ _ _ w. (Ret 0, w + 1000), poll_none = \<lambda>_ w. w,
      fionread = \<lambda>_ w. (Ret 0, w), sleep_ms = \<lambda>ms w. w + ms * 1000000, new_handle = \<lambda>w. (True, w), O_NONBLOCK = 2048,
      is_macos = False, sun_path_size = 108\<rparr>"

lemma local_calls_return_witness:
  "clock_runs ticking \<and> interrupts_end ticking (\<lambda>_. 0) \<and> receives_no_more ticking
   \<and> (\<exists>y. native_connectWithTimeout ticking None 200 \<lparr>lastError = LOCAL_CONNECTION_ERROR_NONE, testSocketBuffer = 0, sys = 0\<rparr> = Some y)"
proof -
  have t: "clock_runs ticking" "interrupts_end ticking (\<lambda>_. 0)" "receives_no_more ticking"
    by (auto simp: ticking_def clock_runs_def interrupts_end_def receives_no_more_def)
  with local_calls_return [OF t, of 0 "[]" 200] show ?thesis by simp
qed

end
