(* ===== verification/Local_Handles.thy ===== *)
theory Local_Handles
  imports Local_Stream
begin

text \<open>
  What a local connection on POSIX does with the system's resources: every descriptor it opens it closes
  (\<open>local_descriptors\<close>), and it connects to nothing that is not the user's own (\<open>local_connect_own\<close>).
\<close>

section \<open>Quantities the loops keep\<close>

lemma read_loop_keeps:
  assumes "read_loop K fd dl n got c = Some y"
    and "\<And>n x c c'. lc_call (recv K fd n) c = (x, c') \<Longrightarrow> Q c \<Longrightarrow> Q c'"
    and "\<And>t x c c'. lc_call (poll_fd K fd True False t) c = (x, c') \<Longrightarrow> Q c \<Longrightarrow> Q c'"
  and "Q c"
  shows "Q (snd (snd y))"
proof -
  have "K = K \<longrightarrow> fd = fd \<longrightarrow> Q c \<longrightarrow> Q (snd (snd y))"
  proof (rule read_loop.raw_induct [where P = "\<lambda>K' fd' dl n got c y. K' = K \<longrightarrow> fd' = fd \<longrightarrow> Q c \<longrightarrow> Q (snd (snd y))", OF _ assms(1)], goal_cases)
    case (1 g K' fd' dl n got c y)
    show ?case
    proof (intro impI)
      assume same: "K' = K" "fd' = fd" and q: "Q c"
      obtain x c1 where x: "lc_call (recv K fd (nat n - length got)) c = (x, c1)" by fastforce
      note k = assms(2) [OF x q]
      have rec: "g K fd dl n got' c2 = Some y \<Longrightarrow> Q c2 \<Longrightarrow> Q (snd (snd y))" for got' c2 using 1(1) by blast
      have w: "Q c2" if "waitReady K fd True False dl c1 = Some (ok, c2)" for ok c2
        by (rule waitReady_inv [where Q = Q, OF that]) (use assms(3) k in blast)+
      show "Q (snd (snd y))" using 1(2) same x q k rec w
        by (auto split: if_splits sysret.splits option.splits prod.splits)
    qed
  qed
  with assms(4) show ?thesis by simp
qed

lemma writeSome_loop_keeps:
  assumes "writeSome_loop K fd data i c = Some y"
    and "\<And>bs x c c'. lc_call (send K fd bs True) c = (x, c') \<Longrightarrow> Q c \<Longrightarrow> Q c'"
  and "Q c"
  shows "Q (snd y)"
proof -
  have "K = K \<longrightarrow> fd = fd \<longrightarrow> Q c \<longrightarrow> Q (snd y)"
  proof (rule writeSome_loop.raw_induct [where P = "\<lambda>K' fd' data i c y. K' = K \<longrightarrow> fd' = fd \<longrightarrow> Q c \<longrightarrow> Q (snd y)", OF _ assms(1)], goal_cases)
    case (1 g K' fd' data i c y)
    show ?case
    proof (intro impI)
      assume same: "K' = K" "fd' = fd" and q: "Q c"
      obtain x c1 where x: "lc_call (send K fd (drop i data) True) c = (x, c1)" by fastforce
      note k = assms(2) [OF x q]
      have rec: "g K fd data j c1 = Some y \<Longrightarrow> Q (snd y)" for j using 1(1) k by blast
      show "Q (snd y)" using 1(2) same x q k rec by (auto split: if_splits sysret.splits)
    qed
  qed
  with assms(3) show ?thesis by simp
qed

lemma write_loop_keeps:
  assumes "write_loop K fd dl data i c = Some y"
    and "\<And>bs x c c'. lc_call (send K fd bs False) c = (x, c') \<Longrightarrow> Q c \<Longrightarrow> Q c'"
    and "\<And>t x c c'. lc_call (poll_fd K fd False True t) c = (x, c') \<Longrightarrow> Q c \<Longrightarrow> Q c'"
  and "Q c"
  shows "Q (snd y)"
proof -
  have "K = K \<longrightarrow> fd = fd \<longrightarrow> Q c \<longrightarrow> Q (snd y)"
  proof (rule write_loop.raw_induct [where P = "\<lambda>K' fd' dl data i c y. K' = K \<longrightarrow> fd' = fd \<longrightarrow> Q c \<longrightarrow> Q (snd y)", OF _ assms(1)], goal_cases)
    case (1 g K' fd' dl data i c y)
    show ?case
    proof (intro impI)
      assume same: "K' = K" "fd' = fd" and q: "Q c"
      obtain x c1 where x: "lc_call (send K fd (drop i data) False) c = (x, c1)" by fastforce
      note k = assms(2) [OF x q]
      have rec: "g K fd dl data j c2 = Some y \<Longrightarrow> Q c2 \<Longrightarrow> Q (snd y)" for j c2 using 1(1) by blast
      have w: "Q c2" if "waitReady K fd False True dl c1 = Some (ok, c2)" for ok c2
        by (rule waitReady_inv [where Q = Q, OF that]) (use assms(3) k in blast)+
      show "Q (snd y)" using 1(2) same x q k rec w
        by (auto split: if_splits sysret.splits option.splits prod.splits)
    qed
  qed
  with assms(4) show ?thesis by simp
qed

section \<open>Descriptors\<close>

text \<open>
  What the system does with descriptors: \<open>fds\<close> are those open. One that is opened is new and not negative, a close takes
  one away, and no other call changes them.
\<close>

definition opens :: "('w \<Rightarrow> int set) \<Rightarrow> ('w \<Rightarrow> int option \<times> 'w) \<Rightarrow> bool" where
  "opens fds f \<longleftrightarrow> (\<forall>w w'. f w = (None, w') \<longrightarrow> fds w' = fds w) \<and>
     (\<forall>w w' fd. f w = (Some fd, w') \<longrightarrow> 0 \<le> fd \<and> fd \<notin> fds w \<and> fds w' = insert fd (fds w))"

definition tracks_fds :: "'w lc_kernel \<Rightarrow> ('w \<Rightarrow> int set) \<Rightarrow> bool" where
  "tracks_fds K fds \<longleftrightarrow>
     (\<forall>p. opens fds (open_lock K p)) \<and> opens fds (socket K) \<and> (\<forall>fd. opens fds (accept K fd)) \<and>
     (\<forall>fd w. fds (close_fd K fd w) = fds w - {fd}) \<and>
     (\<forall>p. keeps fds (lstat K p)) \<and> (\<forall>p. keeps fds (mkdir_own K p)) \<and> (\<forall>fd. keeps fds (fstat K fd)) \<and>
     (\<forall>fd. keeps fds (flock_nb K fd)) \<and> (\<forall>fd p. keeps fds (bind K fd p)) \<and> (\<forall>fd n. keeps fds (listen K fd n)) \<and>
     (\<forall>fd p. keeps fds (connect K fd p)) \<and> (\<forall>fd. keeps fds (so_error K fd)) \<and> (\<forall>fd. keeps fds (getfl K fd)) \<and>
     (\<forall>fd n. keeps fds (recv K fd n)) \<and> (\<forall>fd. keeps fds (recv_peek K fd)) \<and> (\<forall>fd bs d. keeps fds (send K fd bs d)) \<and>
     (\<forall>fd r s t. keeps fds (poll_fd K fd r s t)) \<and> (\<forall>fd. keeps fds (fionread K fd)) \<and> keeps fds (new_handle K) \<and>
     (\<forall>fd w. fds (futimes K fd w) = fds w) \<and> (\<forall>p w. fds (unlink K p w) = fds w) \<and>
     (\<forall>fd fl w. fds (setfl K fd fl w) = fds w) \<and> (\<forall>fd opt v w. fds (setsockopt K fd opt v w) = fds w) \<and>
     (\<forall>t w. fds (poll_none K t w) = fds w) \<and> (\<forall>t w. fds (sleep_ms K t w) = fds w)"

lemma keepsD: "keeps fds f \<Longrightarrow> lc_call f c = (r, c') \<Longrightarrow> fds (sys c') = fds (sys c)"
  unfolding keeps_def by (metis lc_callD snd_conv)

lemma opensD:
  assumes "opens fds f"
  shows "lc_call f c = (None, c') \<Longrightarrow> fds (sys c') = fds (sys c)"
    and "lc_call f c = (Some fd, c') \<Longrightarrow> 0 \<le> fd \<and> fd \<notin> fds (sys c) \<and> fds (sys c') = insert fd (fds (sys c))"
  using assms unfolding opens_def by (blast dest: lc_callD)+

lemma lc_tracks_keeps:
  assumes "tracks_fds K fds"
  shows "keeps fds (lstat K p)" "keeps fds (mkdir_own K p)" "keeps fds (fstat K fd)" "keeps fds (flock_nb K fd)" "keeps fds (bind K fd p)"
    "keeps fds (listen K fd n)" "keeps fds (connect K fd p)" "keeps fds (so_error K fd)" "keeps fds (getfl K fd)" "keeps fds (recv K fd m)"
    "keeps fds (recv_peek K fd)" "keeps fds (send K fd bs d)" "keeps fds (poll_fd K fd r s t)" "keeps fds (fionread K fd)" "keeps fds (new_handle K)"
  using assms by (simp_all add: tracks_fds_def)

lemma lc_tracks_opens:
  assumes "tracks_fds K fds"
  shows "opens fds (open_lock K p)" "opens fds (socket K)" "opens fds (accept K fd)"
  using assms by (simp_all add: tracks_fds_def)

lemma lc_tracks_do [simp]:
  assumes "tracks_fds K fds"
  shows "fds (sys (lc_do (close_fd K fd) c)) = fds (sys c) - {fd}" "fds (sys (lc_do (futimes K fd) c)) = fds (sys c)"
    "fds (sys (lc_do (unlink K p) c)) = fds (sys c)" "fds (sys (lc_do (setfl K fd fl) c)) = fds (sys c)"
    "fds (sys (lc_do (setsockopt K fd opt v) c)) = fds (sys c)" "fds (sys (lc_do (poll_none K t) c)) = fds (sys c)"
    "fds (sys (lc_do (sleep_ms K t) c)) = fds (sys c)"
  using assms by (simp_all add: tracks_fds_def lc_do_def)

lemmas lc_tracks_call = lc_tracks_keeps [THEN keepsD]

lemma configure_fds [simp]:
  assumes "tracks_fds K fds"
  shows "fds (sys (configureListeningSocket K fd c)) = fds (sys c)" "fds (sys (configureConnectedSocket K fd c)) = fds (sys c)"
proof -
  have n: "fds (sys (setNonBlocking K fd c)) = fds (sys c)"
    using assms lc_tracks_call(9) [OF assms] by (auto simp: setNonBlocking_def split: prod.splits option.splits)
  then show "fds (sys (configureListeningSocket K fd c)) = fds (sys c)" "fds (sys (configureConnectedSocket K fd c)) = fds (sys c)"
    using assms by (simp_all add: configureListeningSocket_def configureConnectedSocket_def Let_def)
qed

lemma check_fds:
  assumes "tracks_fds K fds"
  shows "checkUserDirectory K d mk c = (r, c') \<Longrightarrow> fds (sys c') = fds (sys c)" "checkSocketPath K p c = (r, c') \<Longrightarrow> fds (sys c') = fds (sys c)"
  using lc_tracks_call(1,2) [OF assms]
  by (fastforce simp: checkUserDirectory_def checkSocketPath_def judgeDirectory_def fail_as_def split: prod.splits sysret.splits if_splits)+

lemma createHandle_fds:
  assumes "tracks_fds K fds" "createHandle K c = (r, c')"
  shows "fds (sys c') = fds (sys c) \<and> (\<forall>h. r = Some h \<longrightarrow> listenFd h = - 1 \<and> clientFd h = - 1 \<and> lockFd h = - 1)"
  using assms(2) lc_tracks_call(15) [OF assms(1)] by (auto simp: createHandle_def split: prod.splits bool.splits)

text \<open>A descriptor, when there is one, that was opened since.\<close>

definition newly :: "('w \<Rightarrow> int set) \<Rightarrow> 'w lc_ctx \<Rightarrow> int option \<Rightarrow> 'w lc_ctx \<Rightarrow> bool" where
  "newly fds c r c' \<longleftrightarrow>
     (case r of None \<Rightarrow> fds (sys c') = fds (sys c)
      | Some fd \<Rightarrow> 0 \<le> fd \<and> fd \<notin> fds (sys c) \<and> fds (sys c') = insert fd (fds (sys c)))"

lemma newly_call: "opens fds f \<Longrightarrow> lc_call f c = (r, c') \<Longrightarrow> newly fds c r c'"
  using opensD by (cases r) (fastforce simp: newly_def)+

lemma lockName_try_fds:
  assumes "tracks_fds K fds" "lockName_try K p c = (r, c')"
  shows "newly fds c (case r of None \<Rightarrow> None | Some x \<Rightarrow> x) c'"
proof -
  obtain fd c1 where c1: "lc_call (open_lock K (lockPath p)) c = (fd, c1)" by fastforce
  note o = newly_call [OF lc_tracks_opens(1) [OF assms(1)] c1]
  show ?thesis
  proof (cases fd)
    case None
    then show ?thesis using assms(2) c1 o by (auto simp: lockName_try_def)
  next
    case (Some f)
    obtain st c2 where c2: "lc_call (fstat K f) c1 = (st, c2)" by fastforce
    obtain lk c3 where c3: "lc_call (flock_nb K f) c2 = (lk, c3)" by fastforce
    obtain cur c4 where c4: "lc_call (lstat K (lockPath p)) c3 = (cur, c4)" by fastforce
    have f: "fds (sys c2) = fds (sys c1)" "fds (sys c3) = fds (sys c1)" "fds (sys c4) = fds (sys c1)"
      using lc_tracks_call(3) [OF assms(1) c2] lc_tracks_call(4) [OF assms(1) c3] lc_tracks_call(1) [OF assms(1) c4] by simp_all
    show ?thesis using assms c1 c2 c3 c4 Some o f
      by (auto simp: lockName_try_def newly_def split: option.splits bool.splits sysret.splits if_splits)
  qed
qed

lemma lockName_fds:
  assumes "tracks_fds K fds"
  shows "lockName_attempts n K p c = (r, c') \<Longrightarrow> newly fds c r c'"
proof (induction n arbitrary: c)
  case 0
  then show ?case by (simp add: newly_def)
next
  case (Suc n)
  obtain x c1 where x: "lockName_try K p c = (x, c1)" by fastforce
  from lockName_try_fds [OF assms x] have t: "newly fds c (case x of None \<Rightarrow> None | Some y \<Rightarrow> y) c1" .
  show ?case
  proof (cases x)
    case None
    with Suc.prems x have "lockName_attempts n K p c1 = (r, c')" by simp
    from Suc.IH [OF this] t None show ?thesis by (simp add: newly_def split: option.splits)
  next
    case (Some y)
    then show ?thesis using Suc.prems x t by simp
  qed
qed

text \<open>The descriptors a handle holds, and that they are all that is open beyond those there were.\<close>

definition owned :: "NativeLocalConnectionHandle \<Rightarrow> int set" where
  "owned h = {fd \<in> {listenFd h, clientFd h, lockFd h}. 0 \<le> fd}"

definition holds :: "('w \<Rightarrow> int set) \<Rightarrow> int set \<Rightarrow> NativeLocalConnectionHandle \<Rightarrow> 'w lc_ctx \<Rightarrow> bool" where
  "holds fds base h c \<longleftrightarrow> fds (sys c) = base \<union> owned h \<and> base \<inter> owned h = {}
     \<and> (clientFd h \<ge> 0 \<longrightarrow> clientFd h \<noteq> listenFd h \<and> clientFd h \<noteq> lockFd h)"

lemma listenLocked_fds:
  assumes "tracks_fds K fds" "listenLocked K p h lfd c = (r, c')" "newly fds c0 (Some lfd) c" "owned h = {}"
  shows "case r of None \<Rightarrow> fds (sys c') = fds (sys c0) | Some h' \<Rightarrow> holds fds (fds (sys c0)) h' c'"
proof -
  obtain s1 c1 where c1: "lc_call (socket K) c = (s1, c1)" by fastforce
  note n = newly_call [OF lc_tracks_opens(2) [OF assms(1)] c1]
  show ?thesis
  proof (cases s1)
    case None
    then show ?thesis using assms c1 n by (auto simp: listenLocked_def newly_def)
  next
    case (Some sfd)
    obtain r2 c2 where c2: "lc_call (bind K sfd p) (lc_do (unlink K p) c1) = (r2, c2)" by fastforce
    obtain r3 c3 where c3: "lc_call (listen K sfd PIPE_LISTEN_BACKLOG) c2 = (r3, c3)" by fastforce
    have g: "fds (sys c2) = fds (sys c1)" "fds (sys c3) = fds (sys c1)"
      using lc_tracks_call(5) [OF assms(1) c2] lc_tracks_call(6) [OF assms(1) c3] assms(1) by simp_all
    have "clientFd h < 0" using assms(4) by (auto simp: owned_def)
    then show ?thesis using assms(1-3) c1 c2 c3 Some n g
      by (auto simp: listenLocked_def Let_def newly_def holds_def owned_def split: if_splits)
  qed
qed

lemma listen_fds:
  assumes "tracks_fds K fds" "native_createInboundPipe K name c = (r, c')"
  shows "case r of None \<Rightarrow> fds (sys c') = fds (sys c) | Some h \<Rightarrow> holds fds (fds (sys c)) h c'"
proof -
  let ?c = "c\<lparr>lastError := LOCAL_CONNECTION_ERROR_FAILED\<rparr>" and ?d = "userDirectory (geteuid K (sys c))"
  let ?p = "makePipeName_posix ?d name"
  obtain r1 c1 where c1: "checkUserDirectory K ?d True ?c = (r1, c1)" by fastforce
  obtain r2 c2 where c2: "createHandle K c1 = (r2, c2)" by fastforce
  obtain r3 c3 where c3: "lockName K ?p c2 = (r3, c3)" by fastforce
  have f: "fds (sys c1) = fds (sys c)" "fds (sys c2) = fds (sys c)" "\<forall>h. r2 = Some h \<longrightarrow> owned h = {}"
    using check_fds(1) [OF assms(1) c1] createHandle_fds [OF assms(1) c2] by (auto simp: owned_def)
  have l: "newly fds c2 r3 c3" using lockName_fds [OF assms(1)] c3 by (auto simp: lockName_def)
  have "(r, c') = (if r1 < 0 then (None, c1) else if length ?p + 5 \<ge> sun_path_size K then (None, c1)
      else case r2 of None \<Rightarrow> (None, c2) | Some h \<Rightarrow> (case r3 of None \<Rightarrow> (None, c3) | Some lfd \<Rightarrow> listenLocked K ?p h lfd c3))"
    using assms(2) c1 c2 c3
    by (cases "r1 < 0"; cases "length ?p + 5 \<ge> sun_path_size K"; cases r2; cases r3) (simp_all add: native_createInboundPipe_def Let_def)
  then show ?thesis using f l listenLocked_fds [OF assms(1), of ?p _ _ c3 r c' c2]
    by (auto simp: newly_def split: if_splits option.splits)
qed

lemma connect_fd_fds:
  assumes "tracks_fds K fds" "connect_fd K fd p c = Some (x, c')"
  shows "fds (sys c') = fds (sys c)"
proof -
  obtain r1 c1 where c1: "lc_call (connect K fd p) c = (r1, c1)" by fastforce
  have w: "fds (sys c2) = fds (sys c1)" if "waitReady K fd False True dl c1 = Some (ok, c2)" for ok c2 dl
    by (rule waitReady_inv [where Q = "\<lambda>d. fds (sys d) = fds (sys c1)", OF that]) (use lc_tracks_call(13) [OF assms(1)] in auto)
  show ?thesis using assms(2) c1 lc_tracks_call(7) [OF assms(1) c1] w lc_tracks_call(8) [OF assms(1)]
    by (auto simp: connect_fd_def split: sysret.splits if_splits option.splits prod.splits bool.splits)
qed

lemma connect_once_fds:
  assumes "tracks_fds K fds" "connect_once K d p h c = Some (x, c')" "owned h = {}"
  shows "case x of Inl (Some h') \<Rightarrow> holds fds (fds (sys c)) h' c' | _ \<Rightarrow> fds (sys c') = fds (sys c)"
proof -
  obtain r1 c1 where c1: "checkUserDirectory K d False c = (r1, c1)" by fastforce
  obtain r2 c2 where c2: "(if r1 > 0 then checkSocketPath K p c1 else (r1, c1)) = (r2, c2)" by fastforce
  obtain r3 c3 where c3: "lc_call (socket K) c2 = (r3, c3)" by fastforce
  have f: "fds (sys c2) = fds (sys c)" using check_fds [OF assms(1)] c1 c2 by (fastforce split: if_splits)
  note n = newly_call [OF lc_tracks_opens(2) [OF assms(1)] c3]
  show ?thesis
  proof (cases "r2 \<le> 0 \<or> r3 = None")
    case True
    then show ?thesis using assms(2) c1 c2 c3 f n by (auto simp: connect_once_def newly_def split: if_splits)
  next
    case False
    then obtain fd where fd: "r3 = Some fd" "r2 > 0" by auto
    then obtain e c4 where e: "connect_fd K fd p (configureConnectedSocket K fd c3) = Some (e, c4)"
      using assms(2) c1 c2 c3 by (auto simp: connect_once_def split: option.splits)
    have "fds (sys c4) = fds (sys c3)" using connect_fd_fds [OF assms(1) e] assms(1) by simp
    then show ?thesis using assms c1 c2 c3 f n fd e
      by (auto simp: connect_once_def newly_def holds_def owned_def split: option.splits)
  qed
qed

lemma connect_loop_fds:
  assumes "tracks_fds K fds" "connect_loop K d p h forever dl c = Some y" "owned h = {}"
  shows "case y of (Some h', c') \<Rightarrow> holds fds (fds (sys c)) h' c' | (None, c') \<Rightarrow> fds (sys c') = fds (sys c)"
proof -
  let ?good = "\<lambda>y :: NativeLocalConnectionHandle option \<times> 'a lc_ctx.
    case y of (Some h', c') \<Rightarrow> holds fds (fds (sys c)) h' c' | (None, c') \<Rightarrow> fds (sys c') = fds (sys c)"
  have "K = K \<longrightarrow> owned h = {} \<longrightarrow> fds (sys c) = fds (sys c) \<longrightarrow> ?good y"
  proof (rule connect_loop.raw_induct [where P = "\<lambda>K' d p h forever dl c1 y. K' = K \<longrightarrow> owned h = {} \<longrightarrow> fds (sys c1) = fds (sys c) \<longrightarrow> ?good y",
        OF _ assms(2)], goal_cases)
    case (1 g K' d p h forever dl c1 y)
    show ?case
    proof (intro impI)
      assume same: "K' = K" "owned h = {}" "fds (sys c1) = fds (sys c)"
      then obtain x c2 where x: "connect_once K d p h c1 = Some (x, c2)" using 1(2) by (auto split: option.splits)
      note f = connect_once_fds [OF assms(1) x same(2), unfolded same(3)]
      show "?good y"
      proof (cases x)
        case (Inl r)
        then show ?thesis using 1(2) same x f by (auto split: option.splits)
      next
        case (Inr e)
        then have "fds (sys (lc_do (sleep_ms K CONNECT_WAIT_SLICE_MS) c2)) = fds (sys c)" using f assms(1) by simp
        then show ?thesis using 1(1) [of K d p h forever dl "lc_do (sleep_ms K CONNECT_WAIT_SLICE_MS) c2" y] 1(2) same x f Inr
          by (auto split: if_splits)
      qed
    qed
  qed
  then show ?thesis using assms(3) by simp
qed

lemma connect_fds:
  assumes "tracks_fds K fds" "native_connectWithTimeout K name t c = Some (r, c')"
  shows "case r of Some h \<Rightarrow> holds fds (fds (sys c)) h c' | None \<Rightarrow> fds (sys c') = fds (sys c)"
proof -
  let ?c = "c\<lparr>lastError := LOCAL_CONNECTION_ERROR_FAILED\<rparr>"
  obtain r1 c1 where c1: "createHandle K ?c = (r1, c1)" by fastforce
  have f: "fds (sys c1) = fds (sys c)" "\<forall>h. r1 = Some h \<longrightarrow> owned h = {}"
    using createHandle_fds [OF assms(1) c1] by (auto simp: owned_def)
  show ?thesis
    using assms(2) c1 f connect_loop_fds [OF assms(1), where c = c1]
    by (fastforce simp: native_connectWithTimeout_def Let_def split: if_splits option.splits)
qed

section \<open>Anything done with a handle\<close>

datatype lc_op =
    Accept | Disconnect | IsOpen | Read_op bytes int | WriteSome bytes int | Write_op bytes int | Available | KeepName
  | WaitForWork int bool bool int

definition lc_apply ::
  "'w lc_kernel \<Rightarrow> lc_op \<Rightarrow> NativeLocalConnectionHandle option \<Rightarrow> 'w lc_ctx \<Rightarrow> (NativeLocalConnectionHandle option \<times> 'w lc_ctx) option" where
  "lc_apply K op handle c =
     (case op of
        Accept \<Rightarrow> Some (snd (native_accept K handle c))
      | Disconnect \<Rightarrow> Some (snd (native_disconnect K handle c))
      | IsOpen \<Rightarrow> Some (handle, snd (native_isOpen K handle c))
      | Read_op buf n \<Rightarrow> map_option (\<lambda>(r, buf, c). (handle, c)) (native_read K handle (Some buf) n c)
      | WriteSome buf n \<Rightarrow> map_option (\<lambda>(r, c). (handle, c)) (native_writeSome K handle (Some buf) n c)
      | Write_op buf n \<Rightarrow> map_option (\<lambda>(r, c). (handle, c)) (native_write K handle (Some buf) n c)
      | Available \<Rightarrow> Some (handle, snd (native_getBytesAvailable K handle c))
      | KeepName \<Rightarrow> Some (native_keepName K handle c)
      | WaitForWork fd rd wr t \<Rightarrow> Some (handle, snd (native_waitForWork K fd rd wr t c)))"

fun lc_applies ::
  "'w lc_kernel \<Rightarrow> lc_op list \<Rightarrow> NativeLocalConnectionHandle option \<Rightarrow> 'w lc_ctx \<Rightarrow> (NativeLocalConnectionHandle option \<times> 'w lc_ctx) option" where
  "lc_applies K [] handle c = Some (handle, c)"
| "lc_applies K (op # ops) handle c = (case lc_apply K op handle c of None \<Rightarrow> None | Some (handle, c) \<Rightarrow> lc_applies K ops handle c)"

lemma holds_same: "holds fds base h c \<Longrightarrow> fds (sys c') = fds (sys c) \<Longrightarrow> holds fds base h c'"
  by (simp add: holds_def)

lemma transfer_fds:
  assumes "tracks_fds K fds"
  shows "native_read K (Some h) (Some buf) n c = Some (r1, b, c') \<Longrightarrow> fds (sys c') = fds (sys c)"
    and "native_writeSome K (Some h) (Some buf) n c = Some (r2, c') \<Longrightarrow> fds (sys c') = fds (sys c)"
    and "native_write K (Some h) (Some buf) n c = Some (r3, c') \<Longrightarrow> fds (sys c') = fds (sys c)"
proof -
  let ?Q = "\<lambda>d. fds (sys d) = fds (sys c)"
  note call = lc_tracks_call(10,12,13) [OF assms]
  show "?Q c'" if "native_read K (Some h) (Some buf) n c = Some (r1, b, c')"
    using that read_loop_keeps [where Q = ?Q, of K _ _ n "[]" c] call
    by (fastforce simp: native_read_def Let_def split: if_splits option.splits)
  show "?Q c'" if "native_writeSome K (Some h) (Some buf) n c = Some (r2, c')"
    using that writeSome_loop_keeps [where Q = ?Q, of K _ _ 0 c] call
    by (fastforce simp: native_writeSome_def Let_def split: if_splits)
  show "?Q c'" if "native_write K (Some h) (Some buf) n c = Some (r3, c')"
    using that write_loop_keeps [where Q = ?Q, of K _ _ _ 0 c] call
    by (fastforce simp: native_write_def Let_def split: if_splits)
qed

lemma accept_fds:
  assumes "tracks_fds K fds" "holds fds base h c" "native_accept K (Some h) c = (r, h', c')"
  shows "\<exists>h1. h' = Some h1 \<and> holds fds base h1 c'"
proof (cases "listenFd h < 0")
  case True
  then show ?thesis using assms by (auto simp: native_accept_def)
next
  case False
  obtain x c1 where x: "lc_call (accept K (listenFd h)) c = (x, c1)" by fastforce
  note n = newly_call [OF lc_tracks_opens(3) [OF assms(1)] x]
  then show ?thesis using assms False x
    by (cases x) (auto simp: native_accept_def Let_def newly_def holds_def owned_def)
qed

lemma apply_fds:
  assumes "tracks_fds K fds" "holds fds base h c" "lc_apply K op (Some h) c = Some (h', c')"
  shows "\<exists>h1. h' = Some h1 \<and> holds fds base h1 c'"
proof (cases op)
  case Accept
  obtain r h1 c1 where a: "native_accept K (Some h) c = (r, h1, c1)" by (metis prod_cases3)
  then show ?thesis using accept_fds [OF assms(1,2) a] assms(3) Accept by (simp add: lc_apply_def)
next
  case Disconnect
  then show ?thesis using assms by (auto simp: lc_apply_def native_disconnect_def holds_def owned_def split: if_splits)
next
  case IsOpen
  then show ?thesis using assms lc_tracks_call(11) [OF assms(1)] holds_same [OF assms(2)]
    by (fastforce simp: lc_apply_def native_isOpen_def Let_def split: if_splits prod.splits sysret.splits)
next
  case (Read_op buf n)
  then show ?thesis using assms(3) transfer_fds(1) [OF assms(1)] holds_same [OF assms(2)] by (auto simp: lc_apply_def)
next
  case (WriteSome buf n)
  then show ?thesis using assms(3) transfer_fds(2) [OF assms(1)] holds_same [OF assms(2)] by (auto simp: lc_apply_def)
next
  case (Write_op buf n)
  then show ?thesis using assms(3) transfer_fds(3) [OF assms(1)] holds_same [OF assms(2)] by (auto simp: lc_apply_def)
next
  case Available
  then show ?thesis using assms lc_tracks_call(14) [OF assms(1)] holds_same [OF assms(2)]
    by (auto simp: lc_apply_def native_getBytesAvailable_def Let_def split: if_splits prod.splits sysret.splits)
next
  case KeepName
  then show ?thesis using assms
    by (auto simp: lc_apply_def native_keepName_def Let_def holds_def owned_def split: if_splits)
next
  case (WaitForWork fd rd wr t)
  then show ?thesis using assms lc_tracks_call(13) [OF assms(1)] holds_same [OF assms(2)]
    by (auto simp: lc_apply_def native_waitForWork_def split: if_splits prod.splits sysret.splits)
qed

lemma applies_fds:
  assumes "tracks_fds K fds"
  shows "holds fds base h c \<Longrightarrow> lc_applies K ops (Some h) c = Some (h', c') \<Longrightarrow> \<exists>h1. h' = Some h1 \<and> holds fds base h1 c'"
proof (induction ops arbitrary: h c)
  case (Cons op ops)
  then obtain h1 c1 where "lc_apply K op (Some h) c = Some (h1, c1)" "lc_applies K ops h1 c1 = Some (h', c')" by (auto split: option.splits)
  then show ?case using apply_fds [OF assms Cons.prems(1)] Cons.IH by blast
qed auto

lemma lc_close_fds:
  assumes "tracks_fds K fds" "holds fds base h c"
  shows "fds (sys (native_close K (Some h) c)) = base"
  using assms by (auto simp: native_close_def Let_def holds_def owned_def)


text \<open>A system that gives the lowest descriptors free and finds every socket listening.\<close>

definition fd_lc :: "int list lc_kernel" where
  "fd_lc =
     (let open_new = (\<lambda>w. (Some (foldr max w 0 + 1), (foldr max w 0 + 1) # w))
      in \<lparr>geteuid = \<lambda>_. 0, now = \<lambda>_. 0,
          lstat = \<lambda>p w. (Ret \<lparr>st_kind = (if length p < 20 then Directory else Socket), st_uid = 0, st_mode = 448, st_ino = 1, st_dev = 1\<rparr>, w),
          mkdir_own = \<lambda>_ w. (Ret (), w), open_lock = \<lambda>_. open_new,
          fstat = \<lambda>_ w. (Some \<lparr>st_kind = Regular, st_uid = 0, st_mode = 384, st_ino = 1, st_dev = 1\<rparr>, w), flock_nb = \<lambda>_ w. (True, w),
          close_fd = \<lambda>fd w. removeAll fd w, futimes = \<lambda>_ w. w, unlink = \<lambda>_ w. w, socket = open_new, bind = \<lambda>_ _ w. (True, w),
          listen = \<lambda>_ _ w. (True, w), accept = \<lambda>_. open_new, connect = \<lambda>_ _ w. (Ret (), w), so_error = \<lambda>_ w. (Ret None, w),
          getfl = \<lambda>_ w. (Some 0, w), setfl = \<lambda>_ _ w. w, setsockopt = \<lambda>_ _ _ w. w, recv = \<lambda>_ n w. (Ret [], w), recv_peek = \<lambda>_ w. (Ret 1, w),
          send = \<lambda>_ bs _ w. (Ret (length bs), w), poll_fd = \<lambda>_ _ _ _ w. (Ret 1, w), poll_none = \<lambda>_ w. w, fionread = \<lambda>_ w. (Ret 0, w),
          sleep_ms = \<lambda>_ w. w, new_handle = \<lambda>w. (True, w), O_NONBLOCK = 2048, is_macos = True, sun_path_size = 104\<rparr>)"

lemma opens_lowest: "opens set (\<lambda>w. (Some (foldr max w 0 + 1), (foldr max w 0 + 1) # w))"
  using foldr_max_int by (fastforce simp: opens_def)

lemma fd_lc_tracks: "tracks_fds fd_lc set"
  by (auto simp: tracks_fds_def fd_lc_def Let_def keeps_def opens_lowest)

definition lc_start :: "int list lc_ctx" where
  "lc_start = \<lparr>lastError = LOCAL_CONNECTION_ERROR_NONE, testSocketBuffer = 0, sys = [0, 1, 2]\<rparr>"


section \<open>Nothing but the user's own\<close>

text \<open>
  What being the user's own means: \<open>secure\<close> of a directory and \<open>own\<close> of a socket's path, in a world. \<^verbatim>\<open>lstat\<close> tells the
  truth about both, and in a directory nobody else can enter, what is at a path stays this user's while this process
  makes its next calls.
\<close>

definition in_private :: "(string \<Rightarrow> 'w \<Rightarrow> bool) \<Rightarrow> (string \<Rightarrow> 'w \<Rightarrow> bool) \<Rightarrow> string \<Rightarrow> string \<Rightarrow> 'w \<Rightarrow> bool" where
  "in_private secure own d n w \<longleftrightarrow> secure d w \<and> own (d @ ''/'' @ n) w"

definition private_names :: "'w lc_kernel \<Rightarrow> (string \<Rightarrow> 'w \<Rightarrow> bool) \<Rightarrow> (string \<Rightarrow> 'w \<Rightarrow> bool) \<Rightarrow> bool" where
  "private_names K secure own \<longleftrightarrow>
     (\<forall>d w w' info. lstat K d w = (Ret info, w') \<longrightarrow> own_directory (geteuid K w') info \<longrightarrow> secure d w') \<and>
     (\<forall>p w w' info. lstat K p w = (Ret info, w') \<longrightarrow> own_socket (geteuid K w') info \<longrightarrow> own p w') \<and>
     (\<forall>d p w. secure d w \<longrightarrow> secure d (snd (lstat K p w))) \<and>
     (\<forall>d n w. in_private secure own d n w \<longrightarrow> in_private secure own d n (snd (socket K w))) \<and>
     (\<forall>d n fd w. in_private secure own d n w \<longrightarrow> in_private secure own d n (snd (getfl K fd w))) \<and>
     (\<forall>d n fd fl w. in_private secure own d n w \<longrightarrow> in_private secure own d n (setfl K fd fl w)) \<and>
     (\<forall>d n fd opt v w. in_private secure own d n w \<longrightarrow> in_private secure own d n (setsockopt K fd opt v w))"

lemma private_checked:
  assumes "private_names K secure own" "checkUserDirectory K d False c = (r1, c1)" "0 < r1" "checkSocketPath K (d @ ''/'' @ n) c1 = (r2, c2)" "0 < r2"
  shows "in_private secure own d n (sys c2)"
proof -
  obtain x c0 where x: "lc_call (lstat K d) c = (x, c0)" by fastforce
  obtain y c3 where y: "lc_call (lstat K (d @ ''/'' @ n)) c1 = (y, c3)" by fastforce
  from assms(2,3) x obtain info where i: "x = Ret info" "own_directory (geteuid K (sys c0)) info" "c1 = c0"
    by (cases x) (auto simp: checkUserDirectory_def judgeDirectory_def fail_as_def split: if_splits)
  with assms(1) lc_callD [OF x] have "secure d (sys c1)" unfolding private_names_def by metis
  then have "secure d (sys c3)" using assms(1) lc_callD [OF y] unfolding private_names_def by (metis snd_conv)
  moreover from assms(4,5) y obtain info2 where "y = Ret info2" "own_socket (geteuid K (sys c3)) info2" "c2 = c3"
    by (cases y) (auto simp: checkSocketPath_def fail_as_def split: if_splits)
  ultimately show ?thesis using assms(1) lc_callD [OF y] unfolding private_names_def in_private_def by metis
qed

lemma private_configured:
  assumes "private_names K secure own" "in_private secure own d n (sys c)"
  shows "lc_call (socket K) c = (x, c1) \<Longrightarrow> in_private secure own d n (sys c1)"
    and "in_private secure own d n (sys (configureConnectedSocket K fd c))"
proof -
  let ?P = "in_private secure own d n"
  note k = assms(1) [unfolded private_names_def]
  show "?P (sys c1)" if "lc_call (socket K) c = (x, c1)" using k assms(2) lc_callD [OF that] by (metis snd_conv)
  obtain y c2 where y: "lc_call (getfl K fd) c = (y, c2)" by fastforce
  have "?P (sys c2)" using k assms(2) lc_callD [OF y] by (metis snd_conv)
  then have "?P (sys (setNonBlocking K fd c))" using k y by (cases y) (simp_all add: setNonBlocking_def lc_do_def)
  moreover have "?P (sys (lc_do (setsockopt K fd opt v) c))" if "?P (sys c)" for opt v c using k that by (simp add: lc_do_def)
  ultimately show "?P (sys (configureConnectedSocket K fd c))" by (simp add: configureConnectedSocket_def Let_def)
qed

text \<open>Waiting and the loop of a connect are the same where their parts are.\<close>

lemma waitReady_transfer:
  assumes "waitReady K fd r s dl c = Some y" and "poll_fd K' = poll_fd K" "now K' = now K"
  shows "waitReady K' fd r s dl c = Some y"
proof -
  have "K = K \<longrightarrow> waitReady K' fd r s dl c = Some y"
  proof (rule waitReady.raw_induct [where P = "\<lambda>K1 fd r s dl c y. K1 = K \<longrightarrow> waitReady K' fd r s dl c = Some y", OF _ assms(1)], goal_cases)
    case (1 g K1 fd r s dl c y)
    have "clock K' = clock K" using assms(3) by (simp add: clock_def fun_eq_iff)
    moreover have "K1 = K \<Longrightarrow> g K fd r s dl c1 = Some y \<Longrightarrow> waitReady K' fd r s dl c1 = Some y" for c1 using 1(1) by blast
    ultimately show ?case using 1(2) assms(2) by (subst waitReady.simps) (auto simp: Let_def split: if_splits sysret.splits prod.splits)
  qed
  then show ?thesis by simp
qed

lemma same_answers: "(\<And>y. a = Some y \<Longrightarrow> b = Some y) \<Longrightarrow> (\<And>y. b = Some y \<Longrightarrow> a = Some y) \<Longrightarrow> b = a"
  by (cases a; cases b) auto

lemma waitReady_same:
  assumes "poll_fd K' = poll_fd K" "now K' = now K"
  shows "waitReady K' fd r s dl c = waitReady K fd r s dl c"
proof (rule same_answers)
  fix y
  show "waitReady K' fd r s dl c = Some y" if "waitReady K fd r s dl c = Some y" by (rule waitReady_transfer [OF that assms])
  show "waitReady K fd r s dl c = Some y" if "waitReady K' fd r s dl c = Some y" by (rule waitReady_transfer [OF that]) (simp_all add: assms)
qed

lemma connect_loop_transfer:
  assumes "connect_loop K d p h forever dl c = Some y"
    and "\<And>c. connect_once K' d p h c = connect_once K d p h c" "now K' = now K" "sleep_ms K' = sleep_ms K"
  shows "connect_loop K' d p h forever dl c = Some y"
proof -
  have "K = K \<longrightarrow> d = d \<longrightarrow> p = p \<longrightarrow> h = h \<longrightarrow> connect_loop K' d p h forever dl c = Some y"
  proof (rule connect_loop.raw_induct [where P = "\<lambda>K1 d1 p1 h1 forever dl c y. K1 = K \<longrightarrow> d1 = d \<longrightarrow> p1 = p \<longrightarrow> h1 = h \<longrightarrow>
        connect_loop K' d p h forever dl c = Some y", OF _ assms(1)], goal_cases)
    case (1 g K1 d1 p1 h1 forever dl c y)
    have "anotherTry K' = anotherTry K"
      using assms(3) by (simp add: anotherTry_def sliceLeft_def after_ms_def clock_def fun_eq_iff)
    moreover have "g K d p h forever dl c1 = Some y \<Longrightarrow> connect_loop K' d p h forever dl c1 = Some y" for c1 using 1(1) by blast
    ultimately show ?case using 1(2) assms(2,4)
      by (subst connect_loop.simps) (auto split: option.splits sum.splits prod.splits if_splits)
  qed
  then show ?thesis by simp
qed

lemma connect_irrelevant:
  "checkUserDirectory (K\<lparr>connect := g\<rparr>) = checkUserDirectory K" "checkSocketPath (K\<lparr>connect := g\<rparr>) = checkSocketPath K"
  "configureConnectedSocket (K\<lparr>connect := g\<rparr>) = configureConnectedSocket K" "after_ms (K\<lparr>connect := g\<rparr>) = after_ms K"
  "clock (K\<lparr>connect := g\<rparr>) = clock K" "createHandle (K\<lparr>connect := g\<rparr>) = createHandle K"
  by (cases K; intro ext; unfold checkUserDirectory_def checkSocketPath_def judgeDirectory_def configureConnectedSocket_def
      setNonBlocking_def after_ms_def clock_def createHandle_def; simp only: lc_kernel.simps)+

lemma connect_once_same:
  assumes "private_names K secure own" and "\<And>fd p w. own p w \<Longrightarrow> g fd p w = connect K fd p w"
  shows "connect_once (K\<lparr>connect := g\<rparr>) d (d @ ''/'' @ n) h c = connect_once K d (d @ ''/'' @ n) h c"
proof -
  let ?K = "K\<lparr>connect := g\<rparr>" and ?p = "d @ ''/'' @ n"
  note same = connect_irrelevant [of g K]
  have fd: "connect_fd ?K fd ?p c = connect_fd K fd ?p c" if "own ?p (sys c)" for fd c
  proof -
    have w: "waitReady ?K = waitReady K" by (intro ext waitReady_same) simp_all
    have e: "so_error ?K = so_error K" by simp
    have x: "lc_call (connect ?K fd ?p) c = lc_call (connect K fd ?p) c" using assms(2) [OF that] by (simp add: lc_call_def)
    show ?thesis unfolding connect_fd_def same w e x ..
  qed
  obtain r1 c1 where c1: "checkUserDirectory K d False c = (r1, c1)" by fastforce
  obtain r2 c2 where c2: "(if r1 > 0 then checkSocketPath K ?p c1 else (r1, c1)) = (r2, c2)" by fastforce
  obtain r3 c3 where c3: "lc_call (socket K) c2 = (r3, c3)" by fastforce
  show ?thesis
  proof (cases "r2 > 0")
    case True
    then have r1: "r1 > 0" using c2 by (auto split: if_splits)
    with c2 have c2': "checkSocketPath K ?p c1 = (r2, c2)" by simp
    note p = private_configured [OF assms(1) private_checked [OF assms(1) c1 r1 c2' True]]
    have o: "own ?p (sys (configureConnectedSocket K x c3))" for x
      using private_configured(2) [OF assms(1) p(1) [OF c3]] by (simp add: in_private_def)
    show ?thesis
    proof (cases r3)
      case (Some x)
      have "connect_fd ?K x ?p (configureConnectedSocket K x c3) = connect_fd K x ?p (configureConnectedSocket K x c3)" using fd o by blast
      then show ?thesis using c1 c2' c3 r1 True Some by (simp add: connect_once_def same split: option.split)
    qed (use c1 c2' c3 r1 True in \<open>simp add: connect_once_def same\<close>)
  next
    case False
    then show ?thesis using c1 c2 by (cases "r1 > 0") (auto simp: connect_once_def same)
  qed
qed

lemma connect_same:
  assumes "private_names K secure own" and "\<And>fd p w. own p w \<Longrightarrow> g fd p w = connect K fd p w"
  shows "native_connectWithTimeout (K\<lparr>connect := g\<rparr>) name t c = native_connectWithTimeout K name t c"
proof -
  let ?K = "K\<lparr>connect := g\<rparr>"
  have loop: "connect_loop ?K d (d @ ''/'' @ n) h forever dl c = connect_loop K d (d @ ''/'' @ n) h forever dl c" for d n h forever dl c
  proof (rule same_answers)
    fix y
    show "connect_loop ?K d (d @ ''/'' @ n) h forever dl c = Some y" if "connect_loop K d (d @ ''/'' @ n) h forever dl c = Some y"
      by (rule connect_loop_transfer [OF that]) (rule connect_once_same [OF assms], simp_all)
    show "connect_loop K d (d @ ''/'' @ n) h forever dl c = Some y" if "connect_loop ?K d (d @ ''/'' @ n) h forever dl c = Some y"
      by (rule connect_loop_transfer [OF that]) (rule connect_once_same [OF assms, symmetric], simp_all)
  qed
  have k: "geteuid ?K = geteuid K" "sun_path_size ?K = sun_path_size K" by simp_all
  show ?thesis unfolding native_connectWithTimeout_def makePipeName_posix_def connect_irrelevant Let_def k loop ..
qed



end
