(* ===== verification/Local_Names.thy ===== *)
theory Local_Names
  imports Lock_File_Protocol
begin

text \<open>
  Who has the name of a local connection on POSIX (\<^verbatim>\<open>lockName\<close>, \<^verbatim>\<open>native_createInboundPipe\<close> and \<^verbatim>\<open>native_close\<close> of
  \<^verbatim>\<open>NativeLocalConnection.cpp\<close>), as an interleaving of processes, one system call of one of them at a time.
  \<open>Local_Socket\<close> has the calls of one process. The lock file is that of \<open>Lock_File_Protocol\<close>, taken in the same
  calls; beside it is the socket's path, which only the process inside the lock touches.
\<close>

section \<open>Listeners and steps\<close>

text \<open>Where a process that has the lock is: at the start, the path cleared, the socket bound, listened on, closed.\<close>

datatype stage = Fresh | Cleared | Bound | Listening | Closed

text \<open>\<open>at_socket\<close> is the process whose socket the path names, alive or gone.\<close>

record name_state =
  lock :: lf_state
  at_socket :: "nat option"
  stages :: "nat \<Rightarrow> stage"

definition name_init :: name_state where
  "name_init = \<lparr>lock = lf_init, at_socket = None, stages = \<lambda>_. Fresh\<rparr>"

definition to_stage :: "nat \<Rightarrow> stage \<Rightarrow> name_state \<Rightarrow> name_state" where
  "to_stage p st s = s\<lparr>stages := (stages s)(p := st)\<rparr>"

text \<open>
  \<open>lock_call\<close> is a call on the lock file: of a process that is not inside the lock, or gone by one, or of a cleaner
  that takes no file in use. \<open>give_up\<close> closes the lock's descriptor and leaves the file, as a listen that
  fails does. A process that dies leaves its socket's file behind.
\<close>

inductive ln_step :: "name_state \<Rightarrow> name_state \<Rightarrow> bool" where
  lock_call:
    "lf_step True (lock s) l \<Longrightarrow> (\<And>p i. phases (lock s) p = Inside i \<Longrightarrow> phases l p = Inside i) \<Longrightarrow> ln_step s (s\<lparr>lock := l\<rparr>)"
| clear:
    "phases (lock s) p = Inside i \<Longrightarrow> stages s p = Fresh \<Longrightarrow> ln_step s (to_stage p Cleared (s\<lparr>at_socket := None\<rparr>))"
| bind_path:
    "phases (lock s) p = Inside i \<Longrightarrow> stages s p = Cleared \<Longrightarrow> at_socket s = None \<Longrightarrow>
       ln_step s (to_stage p Bound (s\<lparr>at_socket := Some p\<rparr>))"
| listen_on:
    "phases (lock s) p = Inside i \<Longrightarrow> stages s p = Bound \<Longrightarrow> ln_step s (to_stage p Listening s)"
| give_up:
    "phases (lock s) p = Inside i \<Longrightarrow> stages s p \<in> {Fresh, Cleared, Bound} \<Longrightarrow>
       ln_step s (to_stage p Fresh (s\<lparr>lock := to_phase p Outside (release p (lock s))\<rparr>))"
| close_socket:
    "phases (lock s) p = Inside i \<Longrightarrow> stages s p = Listening \<Longrightarrow> ln_step s (to_stage p Closed (s\<lparr>at_socket := None\<rparr>))"
| close_lock:
    "phases (lock s) p = Inside i \<Longrightarrow> stages s p = Closed \<Longrightarrow>
       ln_step s (to_stage p Fresh (s\<lparr>lock := to_phase p (Unlinked i) ((lock s)\<lparr>at_path := None\<rparr>)\<rparr>))"
| die_holding:
    "ln_step s (to_stage p Fresh (s\<lparr>lock := to_phase p Outside (release p (lock s))\<rparr>))"

inductive ln_reachable :: "name_state \<Rightarrow> bool" where
  begins: "ln_reachable name_init"
| goes_on: "ln_reachable s \<Longrightarrow> ln_step s s' \<Longrightarrow> ln_reachable s'"

section \<open>One listener\<close>

lemma to_stage_simps [simp]:
  "lock (to_stage p st s) = lock s" "at_socket (to_stage p st s) = at_socket s" "stages (to_stage p st s) = (stages s)(p := st)"
  by (simp_all add: to_stage_def)

text \<open>Every step is a step of the lock file, or leaves it alone.\<close>

lemma ln_refines_lf: "ln_step s s' \<Longrightarrow> lf_step True (lock s) (lock s') \<or> lock s' = lock s"
proof (induction rule: ln_step.induct)
  case (give_up s p i)
  then show ?case using lf_step.leave [of "lock s" p i Outside True] by simp
next
  case (close_lock s p i)
  then show ?case using lf_step.remove [of "lock s" p i True] by simp
qed (auto intro: lf_step.die)

definition ln_inv :: "name_state \<Rightarrow> bool" where
  "ln_inv s \<longleftrightarrow> lf_inv (lock s)
     \<and> (\<forall>p. stages s p \<noteq> Fresh \<longrightarrow> (\<exists>i. phases (lock s) p = Inside i))
     \<and> (\<forall>p. stages s p = Cleared \<longrightarrow> at_socket s = None)
     \<and> (\<forall>p. stages s p \<in> {Bound, Listening} \<longrightarrow> at_socket s = Some p)"

lemma inside_alone: "lf_inv l \<Longrightarrow> phases l p = Inside i \<Longrightarrow> phases l q = Inside j \<Longrightarrow> p = q"
  using lf_inv_inside [of l p i] lf_inv_inside [of l q j] by auto

lemma staged_alone: "ln_inv s \<Longrightarrow> phases (lock s) p = Inside i \<Longrightarrow> q \<noteq> p \<Longrightarrow> stages s q = Fresh"
  unfolding ln_inv_def using inside_alone by metis

lemma ln_inv_step:
  assumes inv: "ln_inv s" and step: "ln_step s s'"
  shows "ln_inv s'"
proof -
  have l: "lf_inv (lock s')" using ln_refines_lf [OF step] lf_inv_step inv by (auto simp: ln_inv_def)
  note i = inv [unfolded ln_inv_def]
  from step show ?thesis
  proof cases
    case (lock_call l)
    then show ?thesis using i \<open>lf_inv (lock s')\<close> unfolding ln_inv_def by simp metis
  qed (use i l staged_alone [OF inv] in \<open>auto simp: ln_inv_def split: if_splits\<close>)
qed

lemma ln_inv_reachable: "ln_reachable s \<Longrightarrow> ln_inv s"
proof (induction rule: ln_reachable.induct)
  case begins
  show ?case by (simp add: ln_inv_def name_init_def lf_inv_init)
qed (rule ln_inv_step)

section \<open>A name that is free again\<close>

lemma nobody_holds: "lf_inv l \<Longrightarrow> (\<And>p. phases l p = Outside) \<Longrightarrow> holder l i = None"
  using lf_inv_idle [of l] by (metis locks_file.simps(1) not_None_eq)

lemma lock_calls: "lf_step True (lock s) l \<Longrightarrow> (\<And>p i. phases (lock s) p \<noteq> Inside i) \<Longrightarrow> ln_step s (s\<lparr>lock := l\<rparr>)"
  by (rule ln_step.lock_call) simp_all

lemma take_lock:
  assumes "lf_inv (lock s)" and "\<And>p. phases (lock s) p = Outside"
  shows "\<exists>s'. ln_step\<^sup>*\<^sup>* s s' \<and> (\<exists>i. phases (lock s') q = Inside i) \<and> stages s' = stages s"
proof -
  obtain i l1 where l1: "lf_step True (lock s) l1" "phases l1 = (phases (lock s))(q := Opened i)" "at_path l1 = Some i" "holder l1 = holder (lock s)"
    using lf_step.open_there [of "lock s" q _ True] lf_step.open_made [of "lock s" q True] assms(2) by (cases "at_path (lock s)") fastforce+
  let ?l2 = "to_phase q (Locked i) (l1\<lparr>holder := (holder l1)(i := Some q)\<rparr>)"
  let ?l3 = "to_phase q (Inside i) ?l2"
  have l2: "lf_step True l1 ?l2" using l1 nobody_holds [OF assms] by (intro lf_step.flock_taken) simp_all
  have l3: "lf_step True ?l2 ?l3" using l1 by (intro lf_step.check_there) simp_all
  have "ln_step s (s\<lparr>lock := l1\<rparr>)" by (rule lock_calls [OF l1(1)]) (simp add: assms(2))
  moreover have "ln_step (s\<lparr>lock := l1\<rparr>) (s\<lparr>lock := ?l2\<rparr>)"
    by (rule lock_calls [of "s\<lparr>lock := l1\<rparr>" ?l2, simplified, OF l2]) (simp add: l1 assms(2))
  moreover have "ln_step (s\<lparr>lock := ?l2\<rparr>) (s\<lparr>lock := ?l3\<rparr>)"
    by (rule lock_calls [of "s\<lparr>lock := ?l2\<rparr>" ?l3, simplified, OF l3]) (simp add: l1 assms(2))
  ultimately have "ln_step\<^sup>*\<^sup>* s (s\<lparr>lock := ?l3\<rparr>)" by (meson converse_rtranclp_into_rtranclp rtranclp.rtrancl_refl)
  then show ?thesis by (intro exI [of _ "s\<lparr>lock := ?l3\<rparr>"]) simp
qed

lemma start_listening:
  assumes "phases (lock s) q = Inside i" and "stages s q = Fresh"
  shows "\<exists>s'. ln_step\<^sup>*\<^sup>* s s' \<and> stages s' q = Listening"
proof -
  let ?s1 = "to_stage q Cleared (s\<lparr>at_socket := None\<rparr>)"
  let ?s2 = "to_stage q Bound (?s1\<lparr>at_socket := Some q\<rparr>)"
  have "ln_step s ?s1" using assms by (rule ln_step.clear)
  moreover have "ln_step ?s1 ?s2" using assms by (intro ln_step.bind_path) simp_all
  moreover have "ln_step ?s2 (to_stage q Listening ?s2)" using assms by (intro ln_step.listen_on) simp_all
  ultimately have "ln_step\<^sup>*\<^sup>* s (to_stage q Listening ?s2)" by (meson converse_rtranclp_into_rtranclp rtranclp.rtrancl_refl)
  then show ?thesis by (intro exI [of _ "to_stage q Listening ?s2"]) simp
qed

text \<open>
  C31. A name has one listener. However the calls of any number of processes interleave, listening, failing to,
  closing and dying at any point, and as long as a cleaner of \<^verbatim>\<open>/tmp\<close> takes no lock file in use: no two listen on the
  name at once, the socket at the path is the listener's own, so its clients come to it, and a bind never finds the
  path taken. A name that listeners have died with is free: whoever next tries it can listen.
\<close>

theorem local_name_exclusive:
  assumes "ln_reachable s"
  shows "(\<forall>p q. stages s p = Listening \<longrightarrow> stages s q = Listening \<longrightarrow> p = q)
    \<and> (\<forall>p. stages s p = Listening \<longrightarrow> at_socket s = Some p)
    \<and> (\<forall>p. stages s p = Cleared \<longrightarrow> at_socket s = None)
    \<and> ((\<forall>p. phases (lock s) p = Outside) \<longrightarrow> (\<exists>s'. ln_step\<^sup>*\<^sup>* s s' \<and> stages s' q = Listening))"
proof (intro conjI allI impI)
  note inv = ln_inv_reachable [OF assms]
  note i = inv [unfolded ln_inv_def]
  show "at_socket s = Some p" if "stages s p = Listening" for p using i that by blast
  then show "p = r" if "stages s p = Listening" "stages s r = Listening" for p r using that by (metis option.inject)
  show "at_socket s = None" if "stages s p = Cleared" for p using i that by blast
  assume out: "\<forall>p. phases (lock s) p = Outside"
  then have "stages s q = Fresh" using i by (metis phase.distinct(5))
  then show "\<exists>s'. ln_step\<^sup>*\<^sup>* s s' \<and> stages s' q = Listening"
    using take_lock [of s q] start_listening i out by (metis rtranclp_trans)
qed

lemma reachable_steps: "ln_step\<^sup>*\<^sup>* s s' \<Longrightarrow> ln_reachable s \<Longrightarrow> ln_reachable s'"
  by (induction rule: rtranclp_induct) (auto intro: ln_reachable.goes_on)

lemma local_name_exclusive_witness:
  "\<exists>s. ln_reachable s \<and> stages s 3 = Listening \<and> at_socket s = Some 3 \<and> (\<forall>q. stages s q = Listening \<longrightarrow> q = 3)"
proof -
  have "\<forall>p. phases (lock name_init) p = Outside" by (simp add: name_init_def lf_init_def)
  with local_name_exclusive [OF ln_reachable.begins, of 3] obtain s where "ln_step\<^sup>*\<^sup>* name_init s" and l: "stages s 3 = Listening" by blast
  with reachable_steps ln_reachable.begins have "ln_reachable s" by blast
  with local_name_exclusive [OF this, of 3] l show ?thesis by blast
qed

end
