(* ===== verification/Local_Pipe.thy ===== *)
theory Local_Pipe
  imports Local_Socket
begin

text \<open>
  \<^verbatim>\<open>ipc/_internal/NativeLocalConnection.cpp\<close> on Windows: a named pipe of the user's own, and the doorbells its readers
  wait on, one event for each end of a name. The Windows API is the fields of \<open>pipe_api\<close>; \<open>last_error\<close> is what
  \<^verbatim>\<open>GetLastError()\<close> answers in a world. A handle is an \<open>int\<close>, 0 the null pointer and -1 \<^verbatim>\<open>INVALID_HANDLE_VALUE\<close>. A
  block the system allocates is known by a number, handed to \<open>local_free\<close> where the code does.
\<close>

section \<open>State\<close>

datatype win_error =
    ERROR_SUCCESS | ERROR_FILE_NOT_FOUND | ERROR_INVALID_HANDLE | ERROR_INVALID_PARAMETER | ERROR_BROKEN_PIPE
  | ERROR_PIPE_BUSY | ERROR_NO_DATA | ERROR_PIPE_NOT_CONNECTED | ERROR_MORE_DATA | ERROR_PIPE_CONNECTED
  | ERROR_TIMEOUT | ERROR_OTHER int

fun error_code :: "win_error \<Rightarrow> int" where
  "error_code ERROR_SUCCESS = 0"
| "error_code ERROR_FILE_NOT_FOUND = 2"
| "error_code ERROR_INVALID_HANDLE = 6"
| "error_code ERROR_INVALID_PARAMETER = 87"
| "error_code ERROR_BROKEN_PIPE = 109"
| "error_code ERROR_PIPE_BUSY = 231"
| "error_code ERROR_NO_DATA = 232"
| "error_code ERROR_PIPE_NOT_CONNECTED = 233"
| "error_code ERROR_MORE_DATA = 234"
| "error_code ERROR_PIPE_CONNECTED = 535"
| "error_code ERROR_TIMEOUT = 1460"
| "error_code (ERROR_OTHER n) = n"

record ProcessUser =
  sid :: bytes
  sid_text :: string

record Doorbells =
  mine :: int
  peer :: int

text \<open>
  The statics: the user once read, the events by name (one that could not be made as \<open>None\<close>, and not tried again), and
  those of each pipe.
\<close>

record 'w pipe_ctx =
  pipeError :: lc_error
  user :: "ProcessUser option"
  bellsByName :: "string \<rightharpoonup> int option"
  bellsByPipe :: "int \<rightharpoonup> Doorbells"
  win :: 'w

datatype ace = ACCESS_ALLOWED bytes | OTHER_ACE

record 'w pipe_api =
  last_error :: "'w \<Rightarrow> win_error"
  now_ns :: "'w \<Rightarrow> int"
  open_process_token :: "'w \<Rightarrow> int option \<times> 'w"
  token_size :: "int \<Rightarrow> 'w \<Rightarrow> nat \<times> 'w"
  token_user :: "int \<Rightarrow> nat \<Rightarrow> 'w \<Rightarrow> bytes option \<times> 'w"
  is_valid_sid :: "bytes \<Rightarrow> bool"
  sid_to_string :: "bytes \<Rightarrow> 'w \<Rightarrow> (string \<times> nat) option \<times> 'w"
  make_descriptor :: "string \<Rightarrow> 'w \<Rightarrow> nat option \<times> 'w"
  local_free :: "nat \<Rightarrow> 'w \<Rightarrow> 'w"
  create_event :: "nat \<Rightarrow> string \<Rightarrow> 'w \<Rightarrow> int option \<times> 'w"
  set_event :: "int \<Rightarrow> 'w \<Rightarrow> 'w"
  create_named_pipe :: "string \<Rightarrow> nat \<Rightarrow> 'w \<Rightarrow> int option \<times> 'w"
  owner_info :: "int \<Rightarrow> 'w \<Rightarrow> (bytes option \<times> nat) option \<times> 'w"
  dacl_info :: "int \<Rightarrow> 'w \<Rightarrow> (ace option list option \<times> nat) option \<times> 'w"
  system_sid :: bytes
  connect_named_pipe :: "int \<Rightarrow> 'w \<Rightarrow> bool \<times> 'w"
  disconnect_named_pipe :: "int \<Rightarrow> 'w \<Rightarrow> bool \<times> 'w"
  read_file :: "int \<Rightarrow> nat \<Rightarrow> 'w \<Rightarrow> bytes option \<times> 'w"
  write_file :: "int \<Rightarrow> bytes \<Rightarrow> 'w \<Rightarrow> nat option \<times> 'w"
  peek_named_pipe :: "int \<Rightarrow> 'w \<Rightarrow> nat option \<times> 'w"
  create_file :: "string \<Rightarrow> 'w \<Rightarrow> int option \<times> 'w"
  set_nowait :: "int \<Rightarrow> 'w \<Rightarrow> 'w"
  wait_named_pipe :: "string \<Rightarrow> int \<Rightarrow> 'w \<Rightarrow> 'w"
  wait_single :: "int \<Rightarrow> int \<Rightarrow> 'w \<Rightarrow> 'w"
  close_handle :: "int \<Rightarrow> 'w \<Rightarrow> 'w"
  sleep :: "int \<Rightarrow> 'w \<Rightarrow> 'w"

definition win_call :: "('w \<Rightarrow> 'r \<times> 'w) \<Rightarrow> 'w pipe_ctx \<Rightarrow> 'r \<times> 'w pipe_ctx" where
  "win_call f c = (case f (win c) of (r, w) \<Rightarrow> (r, c\<lparr>win := w\<rparr>))"

definition win_do :: "('w \<Rightarrow> 'w) \<Rightarrow> 'w pipe_ctx \<Rightarrow> 'w pipe_ctx" where
  "win_do f c = c\<lparr>win := f (win c)\<rparr>"

definition GetLastError :: "'w pipe_api \<Rightarrow> 'w pipe_ctx \<Rightarrow> win_error" where
  "GetLastError W c = last_error W (win c)"

definition isInvalid :: "int \<Rightarrow> bool" where
  "isInvalid pipe = (pipe = 0 \<or> pipe = - 1)"

section \<open>The user\<close>

definition no_user :: ProcessUser where
  "no_user = \<lparr>sid = [], sid_text = []\<rparr>"

definition readUser :: "'w pipe_api \<Rightarrow> 'w pipe_ctx \<Rightarrow> ProcessUser \<times> 'w pipe_ctx" where
  "readUser W c =
     (case win_call (open_process_token W) c of
        (None, c) \<Rightarrow> (no_user, c)
      | (Some token, c) \<Rightarrow>
          let (size, c) = win_call (token_size W token) c;
              (found, c) =
                (if size > 0
                 then (case win_call (token_user W token size) c of
                         (None, c) \<Rightarrow> (no_user, c)
                       | (Some s, c) \<Rightarrow>
                           if is_valid_sid W s
                           then (case win_call (sid_to_string W s) c of
                                   (None, c) \<Rightarrow> (no_user, c)
                                 | (Some (t, b), c) \<Rightarrow> (\<lparr>sid = s, sid_text = t\<rparr>, win_do (local_free W b) c))
                           else (no_user, c))
                 else (no_user, c))
          in (found, win_do (close_handle W token) c))"

definition processUser :: "'w pipe_api \<Rightarrow> 'w pipe_ctx \<Rightarrow> ProcessUser \<times> 'w pipe_ctx" where
  "processUser W c =
     (case user c of
        Some u \<Rightarrow> (u, c)
      | None \<Rightarrow> (case readUser W c of (u, c) \<Rightarrow> (u, c\<lparr>user := Some u\<rparr>)))"

text \<open>A null name is the empty one. The prefix is \<^verbatim>\<open>\\.\pipe\crossbyte-\<close>.\<close>

definition named :: "string option \<Rightarrow> string" where
  "named name = (case name of None \<Rightarrow> [] | Some n \<Rightarrow> n)"

definition pipe_prefix :: string where
  "pipe_prefix = [CHR 0x5C, CHR 0x5C] @ ''.'' @ [CHR 0x5C] @ ''pipe'' @ [CHR 0x5C] @ ''crossbyte-''"

definition makePipeName_windows :: "'w pipe_api \<Rightarrow> string option \<Rightarrow> 'w pipe_ctx \<Rightarrow> string \<times> 'w pipe_ctx" where
  "makePipeName_windows W name c =
     (case processUser W c of
        (u, c) \<Rightarrow> if sid_text u = [] then ([], c) else (pipe_prefix @ sid_text u @ ''-'' @ named name, c))"

definition own_sddl :: "ProcessUser \<Rightarrow> string" where
  "own_sddl u = ''O:'' @ sid_text u @ ''D:P(A;;GA;;;'' @ sid_text u @ '')(A;;GA;;;SY)''"

definition win_after :: "'w pipe_api \<Rightarrow> int \<Rightarrow> 'w pipe_ctx \<Rightarrow> int" where
  "win_after W ms c = now_ns W (win c) + ms * 1000000"

section \<open>Doorbells\<close>

definition bellNamed :: "'w pipe_api \<Rightarrow> string \<Rightarrow> 'w pipe_ctx \<Rightarrow> int option \<times> 'w pipe_ctx" where
  "bellNamed W name c =
     (case bellsByName c name of
        Some bell \<Rightarrow> (bell, c)
      | None \<Rightarrow>
          let (u, c) = processUser W c
          in case win_call (make_descriptor W (own_sddl u)) c of
               (None, c) \<Rightarrow> (None, c)
             | (Some descriptor, c) \<Rightarrow>
                 let (bell, c) = win_call (create_event W descriptor (''Local'' @ [CHR 0x5C] @ name)) c;
                     c = win_do (local_free W descriptor) c
                 in (bell, c\<lparr>bellsByName := (bellsByName c)(name \<mapsto> bell)\<rparr>))"

definition attachBells :: "'w pipe_api \<Rightarrow> int \<Rightarrow> string option \<Rightarrow> bool \<Rightarrow> 'w pipe_ctx \<Rightarrow> 'w pipe_ctx" where
  "attachBells W pipe name listener c =
     (let (u, c) = processUser W c
      in if sid_text u = [] \<or> isInvalid pipe then c
         else let base = ''crossbyte-'' @ sid_text u @ ''-'' @ named name;
                  (toListener, c) = bellNamed W (base @ ''-to-listener'') c;
                  (toClient, c) = bellNamed W (base @ ''-to-client'') c
              in case (toListener, toClient) of
                   (Some l, Some k) \<Rightarrow>
                     c\<lparr>bellsByPipe := (bellsByPipe c)(pipe \<mapsto>
                         \<lparr>mine = (if listener then l else k), peer = (if listener then k else l)\<rparr>)\<rparr>
                 | _ \<Rightarrow> c)"

definition bellOf :: "int \<Rightarrow> bool \<Rightarrow> 'w pipe_ctx \<Rightarrow> int option" where
  "bellOf pipe ofPeer c =
     (case bellsByPipe c pipe of None \<Rightarrow> None | Some b \<Rightarrow> Some (if ofPeer then peer b else mine b))"

definition ringPeer :: "'w pipe_api \<Rightarrow> int \<Rightarrow> 'w pipe_ctx \<Rightarrow> 'w pipe_ctx" where
  "ringPeer W pipe c = (case bellOf pipe True c of None \<Rightarrow> c | Some bell \<Rightarrow> win_do (set_event W bell) c)"

definition detachBells :: "'w pipe_api \<Rightarrow> int \<Rightarrow> 'w pipe_ctx \<Rightarrow> 'w pipe_ctx" where
  "detachBells W pipe c = (let c = ringPeer W pipe c in c\<lparr>bellsByPipe := (bellsByPipe c)(pipe := None)\<rparr>)"

section \<open>Owners\<close>

definition ownedByProcessUser :: "'w pipe_api \<Rightarrow> int \<Rightarrow> 'w pipe_ctx \<Rightarrow> bool \<times> 'w pipe_ctx" where
  "ownedByProcessUser W pipe c =
     (let (u, c) = processUser W c
      in if sid u = [] then (False, c)
         else (case win_call (owner_info W pipe) c of
                 (None, c) \<Rightarrow> (False, c)
               | (Some (owner, descriptor), c) \<Rightarrow>
                   (case owner of None \<Rightarrow> False | Some s \<Rightarrow> is_valid_sid W s \<and> s = sid u, win_do (local_free W descriptor) c)))"

text \<open>Whether an entry of the list, in turn, admits anyone but the user and SYSTEM; \<open>None\<close> is one that cannot be read.\<close>

fun admits_others :: "bytes \<Rightarrow> bytes \<Rightarrow> ace option list \<Rightarrow> bool" where
  "admits_others own_sid system [] = False"
| "admits_others own_sid system (None # aces) = True"
| "admits_others own_sid system (Some OTHER_ACE # aces) = admits_others own_sid system aces"
| "admits_others own_sid system (Some (ACCESS_ALLOWED s) # aces) =
     (if s \<noteq> own_sid \<and> s \<noteq> system then True else admits_others own_sid system aces)"

definition native_admitsOthersForTest :: "'w pipe_api \<Rightarrow> int \<Rightarrow> 'w pipe_ctx \<Rightarrow> bool \<times> 'w pipe_ctx" where
  "native_admitsOthersForTest W pipe c =
     (let (u, c) = processUser W c
      in if isInvalid pipe \<or> sid u = [] then (True, c)
         else (case ownedByProcessUser W pipe c of
                 (False, c) \<Rightarrow> (True, c)
               | (True, c) \<Rightarrow>
                   (case win_call (dacl_info W pipe) c of
                      (None, c) \<Rightarrow> (True, c)
                    | (Some (dacl, descriptor), c) \<Rightarrow>
                        (case dacl of None \<Rightarrow> True | Some aces \<Rightarrow> admits_others (sid u) (system_sid W) aces,
                         win_do (local_free W descriptor) c))))"

section \<open>Listening\<close>

definition native_createInboundPipe_windows :: "'w pipe_api \<Rightarrow> string option \<Rightarrow> 'w pipe_ctx \<Rightarrow> int \<times> 'w pipe_ctx" where
  "native_createInboundPipe_windows W name c =
     (let c = c\<lparr>pipeError := LOCAL_CONNECTION_ERROR_FAILED\<rparr>;
          (pipeName, c) = makePipeName_windows W name c
      in if pipeName = [] then (0, c)
         else let (u, c) = processUser W c
              in case win_call (make_descriptor W (own_sddl u)) c of
                   (None, c) \<Rightarrow> (0, c)
                 | (Some descriptor, c) \<Rightarrow>
                     let (pipe, c) = win_call (create_named_pipe W pipeName descriptor) c;
                         c = win_do (local_free W descriptor) c
                     in case pipe of
                          None \<Rightarrow> (0, c)
                        | Some p \<Rightarrow> (p, (attachBells W p name True c)\<lparr>pipeError := LOCAL_CONNECTION_ERROR_NONE\<rparr>))"

definition native_accept_windows :: "'w pipe_api \<Rightarrow> int \<Rightarrow> 'w pipe_ctx \<Rightarrow> bool \<times> 'w pipe_ctx" where
  "native_accept_windows W pipe c =
     (if isInvalid pipe then (False, c)
      else (case win_call (connect_named_pipe W pipe) c of
              (True, c) \<Rightarrow> (True, c)
            | (False, c) \<Rightarrow> (GetLastError W c = ERROR_PIPE_CONNECTED \<or> GetLastError W c = ERROR_NO_DATA, c)))"

definition native_disconnect_windows :: "'w pipe_api \<Rightarrow> int \<Rightarrow> 'w pipe_ctx \<Rightarrow> bool \<times> 'w pipe_ctx" where
  "native_disconnect_windows W pipe c =
     (if isInvalid pipe then (False, c) else win_call (disconnect_named_pipe W pipe) (ringPeer W pipe c))"

section \<open>Reading and writing\<close>

text \<open>
  One pass of the loop of \<^verbatim>\<open>native_read\<close>: bytes to add and go on, or an answer. A \<^verbatim>\<open>ReadFile\<close> that succeeds with nothing
  goes on with whatever error the thread last had.
\<close>

definition gone :: "win_error \<Rightarrow> bool" where
  "gone e = (e = ERROR_BROKEN_PIPE \<or> e = ERROR_INVALID_HANDLE \<or> e = ERROR_PIPE_NOT_CONNECTED)"

definition read_pass :: "'w pipe_api \<Rightarrow> int \<Rightarrow> int \<Rightarrow> nat \<Rightarrow> 'w pipe_ctx \<Rightarrow> (bytes + int) \<times> 'w pipe_ctx" where
  "read_pass W pipe deadline left c =
     (case win_call (read_file W pipe left) c of
        (r, c) \<Rightarrow>
          if r \<noteq> None \<and> r \<noteq> Some [] then (Inl (the r), c)
          else let e = GetLastError W c; late = now_ns W (win c) \<ge> deadline
               in if e = ERROR_MORE_DATA then (Inl [], c)
                  else if e = ERROR_NO_DATA
                  then (if late then (Inr (error_code ERROR_TIMEOUT), c) else (Inl [], win_do (sleep W 1) c))
                  else if gone e then (Inr (error_code e), c)
                  else if late then (Inr (if error_code e = 0 then error_code ERROR_TIMEOUT else error_code e), c)
                  else (Inl [], win_do (sleep W 1) c))"

partial_function (option) pipe_read_loop ::
  "'w pipe_api \<Rightarrow> int \<Rightarrow> int \<Rightarrow> int \<Rightarrow> bytes \<Rightarrow> 'w pipe_ctx \<Rightarrow> (int \<times> bytes \<times> 'w pipe_ctx) option" where
  "pipe_read_loop W pipe deadline bufferSize got c =
     (if int (length got) < bufferSize
      then (case read_pass W pipe deadline (nat bufferSize - length got) c of
              (Inl bs, c) \<Rightarrow> pipe_read_loop W pipe deadline bufferSize (got @ bs) c
            | (Inr code, c) \<Rightarrow> Some (code, got, c))
      else Some (0, got, if int (length got) \<ge> PIPE_BUFFER_SIZE div 2 then ringPeer W pipe c else c))"

definition native_read_windows ::
  "'w pipe_api \<Rightarrow> int \<Rightarrow> bytes option \<Rightarrow> int \<Rightarrow> 'w pipe_ctx \<Rightarrow> (int \<times> bytes option \<times> 'w pipe_ctx) option" where
  "native_read_windows W pipe buffer bufferSize c =
     (case buffer of
        None \<Rightarrow> Some (error_code ERROR_INVALID_PARAMETER, buffer, c)
      | Some buf \<Rightarrow>
          if isInvalid pipe \<or> bufferSize \<le> 0 then Some (error_code ERROR_INVALID_PARAMETER, buffer, c)
          else (case pipe_read_loop W pipe (win_after W CONNECT_TIMEOUT_MS c) bufferSize [] c of
                  None \<Rightarrow> None
                | Some (r, got, c) \<Rightarrow> map_option (\<lambda>buf. (r, Some buf, c)) (blit buf 0 got)))"

partial_function (option) pipe_writeSome_loop ::
  "'w pipe_api \<Rightarrow> int \<Rightarrow> bytes \<Rightarrow> nat \<Rightarrow> 'w pipe_ctx \<Rightarrow> (int \<times> 'w pipe_ctx) option" where
  "pipe_writeSome_loop W pipe data written c =
     (let finish = (\<lambda>c. Some (int written, if written > 0 then ringPeer W pipe c else c))
      in if written < length data
         then (case win_call (write_file W pipe (take (nat PIPE_BUFFER_SIZE) (drop written data))) c of
                 (None, c) \<Rightarrow>
                   if GetLastError W c = ERROR_NO_DATA \<or> gone (GetLastError W c)
                   then Some (if written > 0 then int written else - 1, c)
                   else finish c
               | (Some n, c) \<Rightarrow> if n = 0 then finish c else pipe_writeSome_loop W pipe data (written + n) c)
         else finish c)"

definition native_writeSome_windows ::
  "'w pipe_api \<Rightarrow> int \<Rightarrow> bytes option \<Rightarrow> int \<Rightarrow> 'w pipe_ctx \<Rightarrow> (int \<times> 'w pipe_ctx) option" where
  "native_writeSome_windows W pipe buffer bufferSize c =
     (case buffer of
        None \<Rightarrow> Some (- 1, c)
      | Some buf \<Rightarrow>
          if isInvalid pipe \<or> bufferSize < 0 then Some (- 1, c)
          else pipe_writeSome_loop W pipe (take (nat bufferSize) buf) 0 c)"

partial_function (option) pipe_write_loop ::
  "'w pipe_api \<Rightarrow> int \<Rightarrow> int \<Rightarrow> bytes \<Rightarrow> nat \<Rightarrow> 'w pipe_ctx \<Rightarrow> (bool \<times> 'w pipe_ctx) option" where
  "pipe_write_loop W pipe deadline data written c =
     (if written < length data
      then (case native_writeSome_windows W pipe (Some (drop written data)) (int (length data - written)) c of
              None \<Rightarrow> None
            | Some (n, c) \<Rightarrow>
                if n < 0 then Some (False, c)
                else let written = written + nat n
                     in if written < length data
                        then (if now_ns W (win c) \<ge> deadline then Some (False, c)
                              else pipe_write_loop W pipe deadline data written (win_do (sleep W 1) c))
                        else pipe_write_loop W pipe deadline data written c)
      else Some (True, c))"

definition native_write_windows ::
  "'w pipe_api \<Rightarrow> int \<Rightarrow> bytes option \<Rightarrow> int \<Rightarrow> 'w pipe_ctx \<Rightarrow> (bool \<times> 'w pipe_ctx) option" where
  "native_write_windows W pipe buffer bufferSize c =
     (case buffer of
        None \<Rightarrow> Some (False, c)
      | Some buf \<Rightarrow>
          if isInvalid pipe \<or> bufferSize \<le> 0 then Some (False, c)
          else pipe_write_loop W pipe (win_after W CONNECT_TIMEOUT_MS c) (take (nat bufferSize) buf) 0 c)"

definition native_close_windows :: "'w pipe_api \<Rightarrow> int \<Rightarrow> 'w pipe_ctx \<Rightarrow> 'w pipe_ctx" where
  "native_close_windows W pipe c =
     (if isInvalid pipe then c else win_do (close_handle W pipe) (detachBells W pipe c))"

section \<open>Connecting\<close>

text \<open>One try: \<open>Inl\<close> what it returns, \<open>Inr\<close> the error of one to try again.\<close>

definition open_pipe :: "'w pipe_api \<Rightarrow> string \<Rightarrow> string option \<Rightarrow> 'w pipe_ctx \<Rightarrow> (int + win_error) \<times> 'w pipe_ctx" where
  "open_pipe W pipeName name c =
     (case win_call (create_file W pipeName) c of
        (Some pipe, c) \<Rightarrow>
          (case ownedByProcessUser W pipe c of
             (False, c) \<Rightarrow> (Inl 0, (win_do (close_handle W pipe) c)\<lparr>pipeError := LOCAL_CONNECTION_ERROR_NOT_OWNED\<rparr>)
           | (True, c) \<Rightarrow>
               let c = ringPeer W pipe (attachBells W pipe name False (win_do (set_nowait W pipe) c))
               in (Inl pipe, c\<lparr>pipeError := LOCAL_CONNECTION_ERROR_NONE\<rparr>))
      | (None, c) \<Rightarrow>
          let e = GetLastError W c
          in if e \<noteq> ERROR_PIPE_BUSY \<and> e \<noteq> ERROR_FILE_NOT_FOUND then (Inl 0, c) else (Inr e, c))"

partial_function (option) pipe_connect_loop ::
  "'w pipe_api \<Rightarrow> string \<Rightarrow> string option \<Rightarrow> bool \<Rightarrow> int \<Rightarrow> 'w pipe_ctx \<Rightarrow> (int \<times> 'w pipe_ctx) option" where
  "pipe_connect_loop W pipeName name forever deadline c =
     (case open_pipe W pipeName name c of
        (Inl r, c) \<Rightarrow> Some (r, c)
      | (Inr e, c) \<Rightarrow>
          if \<not> (forever \<or> win_after W CONNECT_WAIT_SLICE_MS c < deadline) then Some (0, c)
          else if e = ERROR_PIPE_BUSY
          then pipe_connect_loop W pipeName name forever deadline (win_do (wait_named_pipe W pipeName CONNECT_WAIT_SLICE_MS) c)
          else pipe_connect_loop W pipeName name forever deadline (win_do (sleep W CONNECT_WAIT_SLICE_MS) c))"

definition native_connectWithTimeout_windows ::
  "'w pipe_api \<Rightarrow> string option \<Rightarrow> int \<Rightarrow> 'w pipe_ctx \<Rightarrow> (int \<times> 'w pipe_ctx) option" where
  "native_connectWithTimeout_windows W name timeoutMs c =
     (let c = c\<lparr>pipeError := LOCAL_CONNECTION_ERROR_FAILED\<rparr>;
          (pipeName, c) = makePipeName_windows W name c
      in if pipeName = [] then Some (0, c)
         else let forever = (timeoutMs \<le> 0)
              in pipe_connect_loop W pipeName name forever (win_after W (if forever then 0 else timeoutMs) c) c)"

definition native_connect_windows :: "'w pipe_api \<Rightarrow> string option \<Rightarrow> 'w pipe_ctx \<Rightarrow> (int \<times> 'w pipe_ctx) option" where
  "native_connect_windows W name c = native_connectWithTimeout_windows W name CONNECT_TIMEOUT_MS c"

section \<open>The rest\<close>

definition native_getBytesAvailable_windows :: "'w pipe_api \<Rightarrow> int \<Rightarrow> 'w pipe_ctx \<Rightarrow> int \<times> 'w pipe_ctx" where
  "native_getBytesAvailable_windows W pipe c =
     (if isInvalid pipe then (- 1, c)
      else (case win_call (peek_named_pipe W pipe) c of
              (Some n, c) \<Rightarrow> (int n, c)
            | (None, c) \<Rightarrow> (if GetLastError W c = ERROR_NO_DATA then 0 else if gone (GetLastError W c) then - 1 else 0, c)))"

definition native_isOpen_windows :: "'w pipe_api \<Rightarrow> int \<Rightarrow> 'w pipe_ctx \<Rightarrow> bool \<times> 'w pipe_ctx" where
  "native_isOpen_windows W pipe c =
     (if isInvalid pipe then (False, c)
      else (case win_call (peek_named_pipe W pipe) c of
              (Some _, c) \<Rightarrow> (True, c)
            | (None, c) \<Rightarrow> (GetLastError W c = ERROR_NO_DATA \<or> \<not> gone (GetLastError W c), c)))"

text \<open>The doorbell as a 32-bit number.\<close>

definition native_descriptorOf_windows :: "int \<Rightarrow> 'w pipe_ctx \<Rightarrow> int" where
  "native_descriptorOf_windows pipe c =
     (case bellOf pipe False c of None \<Rightarrow> - 1 | Some bell \<Rightarrow> signed_take_bit 31 bell)"

definition native_waitForWork_windows :: "'w pipe_api \<Rightarrow> int \<Rightarrow> int \<Rightarrow> 'w pipe_ctx \<Rightarrow> bool \<times> 'w pipe_ctx" where
  "native_waitForWork_windows W fd timeoutMs c =
     (if fd = - 1 then (False, win_do (sleep W timeoutMs) c) else (False, win_do (wait_single W fd timeoutMs) c))"

end
