(* ===== verification/Local_Pipe_Stream.thy ===== *)
theory Local_Pipe_Stream
  imports Local_Pipe Byte_Channel
begin

text \<open>
  What a local connection on Windows promises: it is a stream of bytes as the one over a Unix socket is
  (\<open>local_pipe_stream\<close>), and each end's doorbell is the one the other end rings (\<open>doorbells_paired\<close>).
\<close>

section \<open>Bytes\<close>

text \<open>
  What a byte-mode pipe is: \<open>q\<close> is what handle \<open>a\<close> has taken and \<open>b\<close> not yet given. Ringing and sleeping move nothing.
\<close>

definition stream_pipe :: "'w pipe_api \<Rightarrow> int \<Rightarrow> int \<Rightarrow> ('w \<Rightarrow> bytes) \<Rightarrow> bool" where
  "stream_pipe W a b q \<longleftrightarrow>
     (\<forall>bs w w' n. write_file W a bs w = (Some n, w') \<longrightarrow> n \<le> length bs \<and> q w' = q w @ take n bs) \<and>
     (\<forall>bs w w'. write_file W a bs w = (None, w') \<longrightarrow> q w' = q w) \<and>
     (\<forall>n w w' bs. read_file W b n w = (Some bs, w') \<longrightarrow> length bs \<le> n \<and> q w = bs @ q w') \<and>
     (\<forall>n w w'. read_file W b n w = (None, w') \<longrightarrow> q w' = q w) \<and>
     (\<forall>e w. q (set_event W e w) = q w) \<and> (\<forall>t w. q (sleep W t w) = q w)"

lemma win_callD: "win_call f c = (r, c') \<Longrightarrow> f (win c) = (r, win c')"
  by (auto simp: win_call_def split: prod.splits)

lemma stream_pipeD:
  assumes "stream_pipe W a b q"
  shows "win_call (write_file W a bs) c = (Some n, c') \<Longrightarrow> n \<le> length bs \<and> q (win c') = q (win c) @ take n bs"
    and "win_call (write_file W a bs) c = (None, c') \<Longrightarrow> q (win c') = q (win c)"
    and "win_call (read_file W b m) c = (Some bs, c') \<Longrightarrow> length bs \<le> m \<and> q (win c) = bs @ q (win c')"
    and "win_call (read_file W b m) c = (None, c') \<Longrightarrow> q (win c') = q (win c)"
    and "q (win (ringPeer W p c)) = q (win c)" "q (win (win_do (sleep W t) c)) = q (win c)"
proof -
  note d = assms [unfolded stream_pipe_def]
  show "n \<le> length bs \<and> q (win c') = q (win c) @ take n bs" if "win_call (write_file W a bs) c = (Some n, c')"
    using d win_callD [OF that] by metis
  show "q (win c') = q (win c)" if "win_call (write_file W a bs) c = (None, c')" using d win_callD [OF that] by metis
  show "length bs \<le> m \<and> q (win c) = bs @ q (win c')" if "win_call (read_file W b m) c = (Some bs, c')" using d win_callD [OF that] by metis
  show "q (win c') = q (win c)" if "win_call (read_file W b m) c = (None, c')" using d win_callD [OF that] by metis
  show "q (win (ringPeer W p c)) = q (win c)" "q (win (win_do (sleep W t) c)) = q (win c)"
    using d by (simp_all add: ringPeer_def win_do_def split: option.splits)
qed

lemma read_pass_stream:
  assumes "stream_pipe W a b q" "read_pass W b dl m c = (x, c')"
  shows "case x of Inl bs \<Rightarrow> length bs \<le> m \<and> q (win c) = bs @ q (win c') | Inr code \<Rightarrow> code \<noteq> 0 \<and> q (win c') = q (win c)"
proof -
  obtain r c1 where r: "win_call (read_file W b m) c = (r, c1)" by fastforce
  have "case r of None \<Rightarrow> q (win c1) = q (win c) | Some bs \<Rightarrow> length bs \<le> m \<and> q (win c) = bs @ q (win c1)"
    using r stream_pipeD(3,4) [OF assms(1)] by (auto split: option.splits)
  then show ?thesis using assms(2) r stream_pipeD(6) [OF assms(1)]
    by (auto simp: read_pass_def gone_def Let_def split: if_splits option.splits)
qed

lemma pipe_read_stream:
  assumes "pipe_read_loop W b dl n got c = Some y" and "stream_pipe W a b q" and "int (length got) \<le> n"
  shows "\<exists>bs. fst (snd y) = got @ bs \<and> q (win c) = bs @ q (win (snd (snd y))) \<and> int (length (got @ bs)) \<le> n
    \<and> (int (length (got @ bs)) = n \<and> fst y = 0 \<or> int (length (got @ bs)) < n \<and> fst y \<noteq> 0)"
proof -
  let ?good = "\<lambda>n got c y. \<exists>bs. fst (snd y) = got @ bs \<and> q (win c) = bs @ q (win (snd (snd y))) \<and> int (length (got @ bs)) \<le> n
    \<and> (int (length (got @ bs)) = n \<and> fst y = 0 \<or> int (length (got @ bs)) < n \<and> fst y \<noteq> 0)"
  have "W = W \<longrightarrow> b = b \<longrightarrow> int (length got) \<le> n \<longrightarrow> ?good n got c y"
  proof (rule pipe_read_loop.raw_induct [where P = "\<lambda>W' b' dl n got c y. W' = W \<longrightarrow> b' = b \<longrightarrow> int (length got) \<le> n \<longrightarrow> ?good n got c y",
        OF _ assms(1)], goal_cases)
    case (1 g W' b' dl n got c y)
    show ?case
    proof (intro impI)
      assume same: "W' = W" "b' = b" and le: "int (length got) \<le> n"
      obtain x c1 where x: "read_pass W b dl (nat n - length got) c = (x, c1)" by fastforce
      note p = read_pass_stream [OF assms(2) x]
      show "?good n got c y"
      proof (cases "int (length got) < n")
        case True
        show ?thesis
        proof (cases x)
          case (Inl bs)
          then have "g W b dl n (got @ bs) c1 = Some y" using 1(2) same x True by simp
          moreover have "int (length (got @ bs)) \<le> n" using p Inl True by auto
          ultimately have "?good n (got @ bs) c1 y" using 1(1) by blast
          then show ?thesis using p Inl by auto
        next
          case (Inr code)
          then show ?thesis using 1(2) same x True p by auto
        qed
      next
        case False
        then show ?thesis using 1(2) same le stream_pipeD(5) [OF assms(2)] by auto
      qed
    qed
  qed
  with assms(3) show ?thesis by simp
qed

abbreviation piped :: "('w \<Rightarrow> bytes) \<Rightarrow> bytes \<Rightarrow> nat \<Rightarrow> 'w pipe_ctx \<Rightarrow> nat \<Rightarrow> 'w pipe_ctx \<Rightarrow> bool" where
  "piped q \<equiv> wrote (\<lambda>c. q (win c))"

lemma pipe_writeSome_stream:
  assumes "pipe_writeSome_loop W a data i c = Some y" and "stream_pipe W a b q" and "i \<le> length data"
  shows "\<exists>k. piped q data i c k (snd y) \<and> (fst y = int k \<or> fst y = - 1 \<and> k = 0)"
proof -
  have "W = W \<longrightarrow> a = a \<longrightarrow> i \<le> length data \<longrightarrow> (\<exists>k. piped q data i c k (snd y) \<and> (fst y = int k \<or> fst y = - 1 \<and> k = 0))"
  proof (rule pipe_writeSome_loop.raw_induct [where P = "\<lambda>W' a' data i c y. W' = W \<longrightarrow> a' = a \<longrightarrow> i \<le> length data \<longrightarrow>
        (\<exists>k. piped q data i c k (snd y) \<and> (fst y = int k \<or> fst y = - 1 \<and> k = 0))", OF _ assms(1)], goal_cases)
    case (1 g W' a' data i c y)
    show ?case
    proof (intro impI)
      assume same: "W' = W" "a' = a" and le: "i \<le> length data"
      let ?bs = "take (nat PIPE_BUFFER_SIZE) (drop i data)" and ?goal = "\<exists>k. piped q data i c k (snd y) \<and> (fst y = int k \<or> fst y = - 1 \<and> k = 0)"
      obtain x c1 where x: "win_call (write_file W a ?bs) c = (x, c1)" by fastforce
      have stop: ?goal if "q (win (snd y)) = q (win c)" "fst y = int i \<or> fst y = - 1 \<and> i = 0"
        using that wrote_same [OF le, of "\<lambda>c. q (win c)" "snd y" c] by blast
      have rec: ?goal if "g W a data (i + n) c1 = Some y" "x = Some n" for n
      proof -
        note n = stream_pipeD(1) [OF assms(2) x [unfolded that(2)]]
        then have w: "piped q data i c (i + n) c1" using le by (auto simp: wrote_def slice_def min_def split: if_splits)
        then have "\<exists>k. piped q data (i + n) c1 k (snd y) \<and> (fst y = int k \<or> fst y = - 1 \<and> k = 0)"
          using 1(1) [OF that(1)] by (simp add: wrote_def)
        then show ?thesis using wrote_trans [OF w] by blast
      qed
      show ?goal
      proof (cases "i < length data")
        case True
        show ?thesis
        proof (cases x)
          case None
          then show ?thesis using 1(2) same x True stop stream_pipeD(2) [OF assms(2) x [unfolded None]] stream_pipeD(5) [OF assms(2)]
            by (auto simp: Let_def split: if_splits)
        next
          case (Some n)
          then show ?thesis using 1(2) same x True stop rec stream_pipeD(1) [OF assms(2) x [unfolded Some]] stream_pipeD(5) [OF assms(2)]
            by (auto simp: Let_def split: if_splits)
        qed
      next
        case False
        then show ?thesis using 1(2) same stop stream_pipeD(5) [OF assms(2)] by (auto simp: Let_def split: if_splits)
      qed
    qed
  qed
  with assms(3) show ?thesis by simp
qed


lemma native_writeSome_windows_stream:
  assumes "native_writeSome_windows W a (Some data) n c = Some (r, c')" and "stream_pipe W a b q" and "0 \<le> n"
  shows "- 1 \<le> r \<and> r \<le> n \<and> q (win c') = q (win c) @ take (nat r) data"
proof (cases "isInvalid a")
  case True
  then show ?thesis using assms(1,3) by (auto simp: native_writeSome_windows_def)
next
  case False
  then have "pipe_writeSome_loop W a (take (nat n) data) 0 c = Some (r, c')"
    using assms(1,3) by (auto simp: native_writeSome_windows_def)
  from pipe_writeSome_stream [OF this assms(2)] obtain k where "piped q (take (nat n) data) 0 c k c'" "r = int k \<or> r = - 1 \<and> k = 0"
    by auto
  with wrote_all [OF this(1)] assms(3) show ?thesis by auto
qed

lemma pipe_write_stream:
  assumes "pipe_write_loop W a dl data i c = Some y" and "stream_pipe W a b q" and "i \<le> length data"
  shows "\<exists>k. piped q data i c k (snd y) \<and> (fst y \<longrightarrow> k = length data)"
proof -
  have "W = W \<longrightarrow> a = a \<longrightarrow> i \<le> length data \<longrightarrow> (\<exists>k. piped q data i c k (snd y) \<and> (fst y \<longrightarrow> k = length data))"
  proof (rule pipe_write_loop.raw_induct [where P = "\<lambda>W' a' dl data i c y. W' = W \<longrightarrow> a' = a \<longrightarrow> i \<le> length data \<longrightarrow>
        (\<exists>k. piped q data i c k (snd y) \<and> (fst y \<longrightarrow> k = length data))", OF _ assms(1)], goal_cases)
    case (1 g W' a' dl data i c y)
    show ?case
    proof (intro impI)
      assume same: "W' = W" "a' = a" and le: "i \<le> length data"
      let ?goal = "\<exists>k. piped q data i c k (snd y) \<and> (fst y \<longrightarrow> k = length data)"
      show ?goal
      proof (cases "i < length data")
        case False
        then show ?thesis using 1(2) same le wrote_same [OF le, of "\<lambda>c. q (win c)" c c] by auto
      next
        case True
        then obtain n c1 where n: "native_writeSome_windows W a (Some (drop i data)) (int (length data - i)) c = Some (n, c1)"
          using 1(2) same by (auto split: option.splits)
        note s = native_writeSome_windows_stream [OF n assms(2)]
        have w: "piped q data i c (i + nat n) c'" if "q (win c') = q (win c1)" for c'
          using s le that by (auto simp: wrote_def slice_def)
        have rec: ?goal if "g W a dl data (i + nat n) c2 = Some y" "q (win c2) = q (win c1)" for c2
        proof -
          have "\<exists>k. piped q data (i + nat n) c2 k (snd y) \<and> (fst y \<longrightarrow> k = length data)"
            using 1(1) [OF that(1)] s le by auto
          then show ?thesis using wrote_trans [OF w [OF that(2)]] by blast
        qed
        show ?thesis using 1(2) same True n w [OF refl] rec [OF _ refl] rec [OF _ stream_pipeD(6) [OF assms(2)]]
          by (auto simp: Let_def split: if_splits)
      qed
    qed
  qed
  with assms(3) show ?thesis by simp
qed

lemma native_write_windows_stream:
  assumes "native_write_windows W a (Some data) n c = Some (ok, c')" and "stream_pipe W a b q" and "0 < n" "n \<le> int (length data)"
  shows "\<exists>k. k \<le> nat n \<and> q (win c') = q (win c) @ take k data \<and> (ok \<longrightarrow> k = nat n)"
proof (cases "isInvalid a")
  case True
  then show ?thesis using assms(1,3) by (intro exI [of _ 0]) (auto simp: native_write_windows_def)
next
  case False
  then have "pipe_write_loop W a (win_after W CONNECT_TIMEOUT_MS c) (take (nat n) data) 0 c = Some (ok, c')"
    using assms(1,3) by (simp add: native_write_windows_def)
  from pipe_write_stream [OF this assms(2)] obtain k where k: "piped q (take (nat n) data) 0 c k c'" "ok \<longrightarrow> k = length (take (nat n) data)"
    by auto
  have "length (take (nat n) data) = nat n" using assms(4) by simp
  with wrote_all [OF k(1)] k(2) show ?thesis by metis
qed

lemma native_read_windows_stream:
  assumes "native_read_windows W b (Some buf) n c = Some (r, buf', c')" and "stream_pipe W a b q" and "0 < n"
  shows "\<exists>got. q (win c) = got @ q (win c') \<and> buf' = Some (got @ drop (length got) buf)
    \<and> (r = 0 \<and> int (length got) = n \<or> r \<noteq> 0 \<and> int (length got) < n)"
proof (cases "isInvalid b")
  case True
  then show ?thesis using assms(1,3) by (intro exI [of _ "[]"]) (auto simp: native_read_windows_def)
next
  case False
  then obtain got bf where g: "pipe_read_loop W b (win_after W CONNECT_TIMEOUT_MS c) n [] c = Some (r, got, c')"
    "blit buf 0 got = Some bf" "buf' = Some bf"
    using assms(1,3) by (auto simp: native_read_windows_def split: option.splits)
  from pipe_read_stream [OF g(1) assms(2)] assms(3) g(2,3) show ?thesis
    by (auto simp: blit_def split: if_splits)
qed


text \<open>
  The clock runs while a call sleeps and never goes back, and a byte-mode pipe never has the rest of a message to give.
\<close>

definition pipe_runs :: "'w pipe_api \<Rightarrow> int \<Rightarrow> int \<Rightarrow> bool" where
  "pipe_runs W a b \<longleftrightarrow>
     (\<forall>t w. now_ns W w + t * 1000000 \<le> now_ns W (sleep W t w)) \<and>
     (\<forall>n w. now_ns W w \<le> now_ns W (snd (read_file W b n w))) \<and>
     (\<forall>bs w. now_ns W w \<le> now_ns W (snd (write_file W a bs w))) \<and>
     (\<forall>e w. now_ns W w \<le> now_ns W (set_event W e w)) \<and>
     (\<forall>n w w' r. read_file W b n w = (r, w') \<longrightarrow> r = None \<or> r = Some [] \<longrightarrow> last_error W w' \<noteq> ERROR_MORE_DATA)"

abbreviation wclock :: "'w pipe_api \<Rightarrow> 'w pipe_ctx \<Rightarrow> int" where
  "wclock W c \<equiv> now_ns W (win c)"

lemma pipe_runsD:
  assumes "pipe_runs W a b"
  shows "wclock W c < wclock W (win_do (sleep W 1) c)"
    and "win_call (read_file W b n) c = (r, c') \<Longrightarrow> wclock W c \<le> wclock W c'"
    and "win_call (read_file W b n) c = (r, c') \<Longrightarrow> r = None \<or> r = Some [] \<Longrightarrow> GetLastError W c' \<noteq> ERROR_MORE_DATA"
    and "win_call (write_file W a bs) c = (x, c') \<Longrightarrow> wclock W c \<le> wclock W c'"
    and "wclock W c \<le> wclock W (ringPeer W p c)"
proof -
  note d = assms [unfolded pipe_runs_def]
  show "wclock W c < wclock W (win_do (sleep W 1) c)"
    using d [THEN conjunct1, rule_format, of "win c" 1] by (simp add: win_do_def)
  show "wclock W c \<le> wclock W c'" if "win_call (read_file W b n) c = (r, c')" using d win_callD [OF that] by (metis snd_conv)
  show "GetLastError W c' \<noteq> ERROR_MORE_DATA" if "win_call (read_file W b n) c = (r, c')" "r = None \<or> r = Some []"
    using d win_callD [OF that(1)] that(2) unfolding GetLastError_def by blast
  show "wclock W c \<le> wclock W c'" if "win_call (write_file W a bs) c = (x, c')" using d win_callD [OF that] by (metis snd_conv)
  show "wclock W c \<le> wclock W (ringPeer W p c)" using d by (simp add: ringPeer_def win_do_def split: option.splits)
qed

lemma read_pass_runs:
  assumes "pipe_runs W a b" "read_pass W b dl m c = (Inl bs, c')"
  shows "wclock W c \<le> wclock W c' \<and> (bs = [] \<longrightarrow> wclock W c < dl \<and> wclock W c < wclock W c')"
proof -
  obtain r c1 where r: "win_call (read_file W b m) c = (r, c1)" by fastforce
  show ?thesis using assms(2) r pipe_runsD(2,3) [OF assms(1) r] pipe_runsD(1) [OF assms(1), of c1]
    by (cases r) (auto simp: read_pass_def Let_def split: if_splits)
qed

lemma pipe_read_returns:
  assumes "pipe_runs W a b" "stream_pipe W a b q" "int (length got) \<le> n"
  shows "\<exists>y. pipe_read_loop W b dl n got c = Some y"
  using assms(3)
proof (induction "nat (n - int (length got)) + nat (dl - wclock W c)" arbitrary: got c rule: less_induct)
  case less
  show ?case
  proof (cases "int (length got) < n")
    case False
    then show ?thesis by (subst pipe_read_loop.simps) simp
  next
    case True
    obtain x c1 where x: "read_pass W b dl (nat n - length got) c = (x, c1)" by fastforce
    show ?thesis
    proof (cases x)
      case (Inr code)
      then show ?thesis using x True by (subst pipe_read_loop.simps) simp
    next
      case (Inl bs)
      have "\<exists>y. pipe_read_loop W b dl n (got @ bs) c1 = Some y"
        using read_pass_runs [OF assms(1) x [unfolded Inl]] read_pass_stream [OF assms(2) x] Inl True
        by (intro less(1)) (cases bs; auto)+
      then show ?thesis using x Inl True by (subst pipe_read_loop.simps) simp
    qed
  qed
qed

lemma pipe_writeSome_returns:
  assumes "pipe_runs W a b" "stream_pipe W a b q"
  shows "\<exists>r c'. pipe_writeSome_loop W a data i c = Some (r, c') \<and> wclock W c \<le> wclock W c'"
proof (induction "length data - i" arbitrary: i c rule: less_induct)
  case less
  obtain x c1 where x: "win_call (write_file W a (take (nat PIPE_BUFFER_SIZE) (drop i data))) c = (x, c1)" by fastforce
  note le = pipe_runsD(4) [OF assms(1) x] and ring = pipe_runsD(5) [OF assms(1)]
  show ?case
  proof (cases "i < length data \<and> (\<exists>n. x = Some n \<and> n \<noteq> 0)")
    case False
    then show ?thesis using x le order_trans [OF le ring] ring
      by (subst pipe_writeSome_loop.simps) (cases x; auto simp: Let_def)
  next
    case True
    then obtain n where n: "x = Some n" "n \<noteq> 0" "i < length data" by blast
    then obtain r c' where "pipe_writeSome_loop W a data (i + n) c1 = Some (r, c')" "wclock W c1 \<le> wclock W c'"
      using less [of "i + n" c1] by fastforce
    then show ?thesis using x n le by (subst pipe_writeSome_loop.simps) (auto simp: Let_def)
  qed
qed


lemma pipe_write_returns:
  assumes "pipe_runs W a b" "stream_pipe W a b q" "\<not> isInvalid a" "i \<le> length data"
  shows "\<exists>y. pipe_write_loop W a dl data i c = Some y"
  using assms(4)
proof (induction "nat (dl - wclock W c) + (length data - i)" arbitrary: i c rule: less_induct)
  case less
  show ?case
  proof (cases "i < length data")
    case False
    then show ?thesis by (subst pipe_write_loop.simps) auto
  next
    case True
    let ?w = "native_writeSome_windows W a (Some (drop i data)) (int (length data - i)) c"
    obtain n c1 where n: "?w = Some (n, c1)" and le: "wclock W c \<le> wclock W c1"
      using pipe_writeSome_returns [OF assms(1,2), of "drop i data" 0 c] assms(3) by (auto simp: native_writeSome_windows_def)
    have le_n: "n \<le> int (length data - i)" using native_writeSome_windows_stream [OF n assms(2)] by simp
    have more: "\<exists>y. pipe_write_loop W a dl data (i + nat n) (win_do (sleep W 1) c1) = Some y" if "wclock W c1 < dl"
      using that le le_n less.prems pipe_runsD(1) [OF assms(1), of c1] by (intro less(1)) auto
    have last: "\<exists>y. pipe_write_loop W a dl data (i + nat n) c1 = Some y" if "\<not> i + nat n < length data"
      using that by (subst pipe_write_loop.simps) auto
    show ?thesis using n True more last by (subst pipe_write_loop.simps) (auto simp: Let_def)
  qed
qed

lemma windows_calls_return:
  assumes "pipe_runs W a b" "stream_pipe W a b q"
  shows "\<exists>r c'. native_writeSome_windows W a (Some data) n c = Some (r, c')"
    and "\<exists>ok c'. native_write_windows W a (Some data) n c = Some (ok, c')"
    and "0 < n \<Longrightarrow> n \<le> int (length buf) \<Longrightarrow> \<exists>r buf' c'. native_read_windows W b (Some buf) n c = Some (r, buf', c')"
proof -
  show "\<exists>r c'. native_writeSome_windows W a (Some data) n c = Some (r, c')"
    using pipe_writeSome_returns [OF assms, of "take (nat n) data" 0 c] by (auto simp: native_writeSome_windows_def)
  show "\<exists>ok c'. native_write_windows W a (Some data) n c = Some (ok, c')"
    using pipe_write_returns [OF assms, of 0 "take (nat n) data" "win_after W CONNECT_TIMEOUT_MS c" c]
    by (auto simp: native_write_windows_def)
  show "\<exists>r buf' c'. native_read_windows W b (Some buf) n c = Some (r, buf', c')" if n: "0 < n" "n \<le> int (length buf)"
  proof -
    obtain y where y: "pipe_read_loop W b (win_after W CONNECT_TIMEOUT_MS c) n [] c = Some y"
      using pipe_read_returns [OF assms, of "[]" n] n by fastforce
    from pipe_read_stream [OF y assms(2)] n have "length (fst (snd y)) \<le> length buf" by auto
    then show ?thesis using y n by (auto simp: native_read_windows_def blit_def split: prod.splits)
  qed
qed

text \<open>The contract of a byte channel, for any system, two handles and a pipe between them.\<close>

type_synonym 'w pipe_pair = "'w pipe_api \<times> int \<times> int \<times> ('w \<Rightarrow> bytes)"

definition pipes_ok :: "'w pipe_pair \<Rightarrow> bool" where
  "pipes_ok p = (case p of (W, a, b, q) \<Rightarrow> stream_pipe W a b q)"

definition pipes_queue :: "'w pipe_pair \<Rightarrow> 'w pipe_ctx \<Rightarrow> bytes" where
  "pipes_queue p c = (case p of (W, a, b, q) \<Rightarrow> q (win c))"

definition pipes_put :: "'w pipe_pair \<Rightarrow> bytes \<Rightarrow> 'w pipe_ctx \<Rightarrow> (int \<times> 'w pipe_ctx) option" where
  "pipes_put p data c = (case p of (W, a, b, q) \<Rightarrow> native_writeSome_windows W a (Some data) (int (length data)) c)"

definition pipes_get :: "'w pipe_pair \<Rightarrow> bytes \<Rightarrow> 'w pipe_ctx \<Rightarrow> (int \<times> bytes option \<times> 'w pipe_ctx) option" where
  "pipes_get p buf c = (case p of (W, a, b, q) \<Rightarrow> native_read_windows W b (Some buf) (int (length buf)) c)"

lemmas pipes_defs = pipes_ok_def pipes_queue_def pipes_put_def pipes_get_def

lemma pipes_get_all:
  assumes "pipes_ok p" "pipes_get p buf c = Some (0, Some buf', c')"
  shows "pipes_queue p c = buf' @ pipes_queue p c'"
proof -
  obtain W a b q where p: "p = (W, a, b, q)" by (cases p)
  have "buf \<noteq> []" using assms(2) p by (auto simp: pipes_defs native_read_windows_def)
  then obtain got where "q (win c) = got @ q (win c')" "buf' = got @ drop (length got) buf" "length got = length buf"
    using native_read_windows_stream [of W b buf "int (length buf)" c 0 "Some buf'" c' a q] assms p by (auto simp: pipes_defs)
  then show ?thesis using p by (simp add: pipes_queue_def)
qed

interpretation pipes: byte_channel pipes_ok pipes_queue pipes_put pipes_get
proof
  fix p :: "'a pipe_pair" and data c r c'
  assume "pipes_ok p" "pipes_put p data c = Some (r, c')"
  then show "pipes_queue p c' = pipes_queue p c @ take (nat r) data"
    by (cases p) (auto simp: pipes_defs dest: native_writeSome_windows_stream)
qed (rule pipes_get_all)


text \<open>
  C32. A local connection over a Windows pipe is a stream too, and its calls return. \<^verbatim>\<open>native_writeSome\<close>,
  \<^verbatim>\<open>native_write\<close> and \<^verbatim>\<open>native_read\<close> always answer; what a write answers is what the pipe took, from the front of the
  buffer, and all of it when \<^verbatim>\<open>native_write\<close> succeeds; a read takes from the front of the stream into the front of its
  buffer and nowhere else, and answers 0 exactly when it got all it was asked for. So, however writes at one end and
  reads at the other interleave, what is read is what was written, in order.
\<close>

theorem local_pipe_stream:
  assumes "stream_pipe W a b q" "pipe_runs W a b" and "0 < n" "n \<le> int (length data)"
  shows "(\<forall>c. \<exists>r c'. native_writeSome_windows W a (Some data) n c = Some (r, c')
        \<and> - 1 \<le> r \<and> r \<le> n \<and> q (win c') = q (win c) @ take (nat r) data)
    \<and> (\<forall>c. \<exists>ok c' k. native_write_windows W a (Some data) n c = Some (ok, c')
        \<and> k \<le> nat n \<and> q (win c') = q (win c) @ take k data \<and> (ok \<longrightarrow> k = nat n))
    \<and> (\<forall>c buf. n \<le> int (length buf) \<longrightarrow>
        (\<exists>r got c'. native_read_windows W b (Some buf) n c = Some (r, Some (got @ drop (length got) buf), c')
          \<and> q (win c) = got @ q (win c') \<and> int (length got) \<le> n \<and> (r = 0 \<longleftrightarrow> int (length got) = n)))
    \<and> (\<forall>ops c written got c'. exchange (\<lambda>bs. native_writeSome_windows W a (Some bs) (int (length bs)))
          (\<lambda>buf. native_read_windows W b (Some buf) (int (length buf))) ops c = Some (written, got, c') \<longrightarrow>
        q (win c) @ written = got @ q (win c'))"
proof (intro conjI allI impI, goal_cases)
  case (1 c)
  then show ?case using windows_calls_return(1) [OF assms(2,1), of data n c] native_writeSome_windows_stream [OF _ assms(1) less_imp_le [OF assms(3)]]
    by blast
next
  case (2 c)
  then show ?case using windows_calls_return(2) [OF assms(2,1), of data n c] native_write_windows_stream [OF _ assms(1,3,4)] by blast
next
  case (3 c buf)
  obtain r buf' c' where r: "native_read_windows W b (Some buf) n c = Some (r, buf', c')"
    using windows_calls_return(3) [OF assms(2,1,3) 3] by blast
  from native_read_windows_stream [OF r assms(1,3)] r show ?case by auto
next
  case (4 ops c written got c')
  have "pipes_put (W, a, b, q) = (\<lambda>bs. native_writeSome_windows W a (Some bs) (int (length bs)))"
    "pipes_get (W, a, b, q) = (\<lambda>buf. native_read_windows W b (Some buf) (int (length buf)))"
    by (simp_all add: pipes_defs fun_eq_iff)
  then show ?case using pipes.in_order [of "(W, a, b, q)" ops c written got c'] 4 assms(1) by (simp add: pipes_ok_def pipes_queue_def)
qed

text \<open>A pipe that takes and gives two bytes at a time, beside a clock; named events are numbered by a table.\<close>

type_synonym pipe_world = "bytes \<times> int"

definition bell_handle :: "string \<Rightarrow> int" where
  "bell_handle name = (if drop (length name - 6) name = ''client'' then 21 else 20)"

definition demo_pipe :: "pipe_world pipe_api" where
  "demo_pipe =
     \<lparr>last_error = \<lambda>_. ERROR_NO_DATA, now_ns = snd, open_process_token = \<lambda>w. (Some 3, w), token_size = \<lambda>_ w. (1, w),
      token_user = \<lambda>_ _ w. (Some [1], w), is_valid_sid = \<lambda>_. True, sid_to_string = \<lambda>_ w. (Some (''S-1'', 1), w),
      make_descriptor = \<lambda>_ w. (Some 2, w), local_free = \<lambda>_ w. w, create_event = \<lambda>_ name w. (Some (bell_handle name), w),
      set_event = \<lambda>_ w. w, create_named_pipe = \<lambda>_ _ w. (Some 7, w), owner_info = \<lambda>_ w. (Some (Some [1], 4), w),
      dacl_info = \<lambda>_ w. (None, w), system_sid = [18], connect_named_pipe = \<lambda>_ w. (True, w),
      disconnect_named_pipe = \<lambda>_ w. (True, w),
      read_file = \<lambda>_ n w. if fst w = [] then (None, w) else (Some (take (min n 2) (fst w)), drop (min n 2) (fst w), snd w),
      write_file = \<lambda>_ bs w. (Some (min 2 (length bs)), fst w @ take 2 bs, snd w),
      peek_named_pipe = \<lambda>_ w. (Some (length (fst w)), w), create_file = \<lambda>_ w. (Some 8, w), set_nowait = \<lambda>_ w. w,
      wait_named_pipe = \<lambda>_ _ w. w, wait_single = \<lambda>_ _ w. w, close_handle = \<lambda>_ w. w,
      sleep = \<lambda>t w. (fst w, snd w + t * 1000000)\<rparr>"

lemma demo_pipe_simps:
  "write_file demo_pipe a bs w = (Some (min 2 (length bs)), fst w @ take 2 bs, snd w)"
  "read_file demo_pipe a n w = (if fst w = [] then (None, w) else (Some (take (min n 2) (fst w)), drop (min n 2) (fst w), snd w))"
  by (simp_all add: demo_pipe_def)

definition pipe_start :: "pipe_world pipe_ctx" where
  "pipe_start = \<lparr>pipeError = LOCAL_CONNECTION_ERROR_NONE, user = None, bellsByName = \<lambda>_. None, bellsByPipe = \<lambda>_. None, win = ([], 0)\<rparr>"

lemma local_pipe_stream_witness:
  "stream_pipe demo_pipe 5 6 fst \<and> pipe_runs demo_pipe 5 6
   \<and> (\<exists>c'. exchange (\<lambda>bs. native_writeSome_windows demo_pipe 5 (Some bs) (int (length bs)))
        (\<lambda>buf. native_read_windows demo_pipe 6 (Some buf) (int (length buf))) [Put [1, 2, 3], Get 1, Put [4], Get 2] pipe_start
      = Some ([1, 2, 3, 4], [1, 2, 3], c') \<and> [] @ [1, 2, 3, 4] = [1, 2, 3] @ fst (win c'))"
proof -
  have s: "stream_pipe demo_pipe 5 6 fst" "pipe_runs demo_pipe 5 6"
    by (auto simp: stream_pipe_def pipe_runs_def demo_pipe_def min_def split: if_splits)
  obtain c' where w: "exchange (\<lambda>bs. native_writeSome_windows demo_pipe 5 (Some bs) (int (length bs)))
        (\<lambda>buf. native_read_windows demo_pipe 6 (Some buf) (int (length buf))) [Put [1, 2, 3], Get 1, Put [4], Get 2] pipe_start
      = Some ([1, 2, 3, 4], [1, 2, 3], c')"
    by (simp add: native_writeSome_windows_def native_read_windows_def isInvalid_def pipe_writeSome_loop.simps pipe_read_loop.simps read_pass_def
        win_call_def demo_pipe_simps blit_def pipe_start_def ringPeer_def bellOf_def Let_def numeral_2_eq_2 PIPE_BUFFER_SIZE_def)
  have "fst (win pipe_start) @ [1, 2, 3, 4] = [1, 2, 3] @ fst (win c')"
    by (rule local_pipe_stream [OF s, of 1 "[0]", THEN conjunct2, THEN conjunct2, THEN conjunct2, rule_format, OF _ _ w]) simp_all
  then have "[] @ [1, 2, 3, 4] = [1, 2, 3] @ fst (win c')" by (simp only: pipe_start_def pipe_ctx.simps fst_conv)
  with w s show ?thesis by blast
qed


section \<open>Doorbells\<close>

text \<open>
  The event a handle of a process is, by name: a handle made for a name is that name's event, here and in any other
  process of the session. A process keeps every bell it makes, so a handle stays what it was.
\<close>

definition events_named :: "'w pipe_api \<Rightarrow> (int \<Rightarrow> string) \<Rightarrow> bool" where
  "events_named W event \<longleftrightarrow> (\<forall>d name w h w'. create_event W d name w = (Some h, w') \<longrightarrow> event h = name)"

definition local_event :: "string \<Rightarrow> string" where
  "local_event name = ''Local'' @ [CHR 0x5C] @ name"

definition bells_ok :: "(int \<Rightarrow> string) \<Rightarrow> 'w pipe_ctx \<Rightarrow> bool" where
  "bells_ok event c \<longleftrightarrow> (\<forall>name h. bellsByName c name = Some (Some h) \<longrightarrow> event h = local_event name)"

text \<open>The event that wakes one end of a name of a user.\<close>

definition bell_event :: "ProcessUser \<Rightarrow> string option \<Rightarrow> bool \<Rightarrow> string" where
  "bell_event u name toListener =
     local_event ((''crossbyte-'' @ sid_text u @ ''-'' @ named name) @ (if toListener then ''-to-listener'' else ''-to-client''))"

lemma bell_event_inject:
  assumes "sid_text u = sid_text v"
  shows "bell_event u name l = bell_event v name' l' \<longleftrightarrow> l = l' \<and> named name = named name'"
proof -
  have "last (xs @ ''-to-listener'') \<noteq> last (ys @ ''-to-client'')" for xs ys :: string by simp
  then have "xs @ ''-to-listener'' \<noteq> ys @ ''-to-client''" for xs ys :: string by metis
  then show ?thesis using assms by (auto simp: bell_event_def local_event_def simp flip: append_assoc append_Cons)
qed

text \<open>Each bell a pipe has is the one of its end.\<close>

definition belled :: "(int \<Rightarrow> string) \<Rightarrow> string option \<Rightarrow> bool \<Rightarrow> int \<Rightarrow> 'w pipe_ctx \<Rightarrow> bool" where
  "belled event name listener p c \<longleftrightarrow>
     (\<forall>ofPeer h. bellOf p ofPeer c = Some h \<longrightarrow> (\<exists>u. user c = Some u \<and> event h = bell_event u name (listener \<noteq> ofPeer)))"

text \<open>What a call keeps of the statics: the user once read, and the pipes' bells.\<close>

abbreviation same_bells :: "'w pipe_ctx \<Rightarrow> 'w pipe_ctx \<Rightarrow> bool" where
  "same_bells c c' \<equiv> bellsByName c' = bellsByName c \<and> bellsByPipe c' = bellsByPipe c"

lemma win_call_bells: "win_call f c = (r, c') \<Longrightarrow> same_bells c c' \<and> user c' = user c"
  by (auto simp: win_call_def split: prod.splits)

lemma win_do_bells [simp]: "bellsByName (win_do f c) = bellsByName c" "bellsByPipe (win_do f c) = bellsByPipe c" "user (win_do f c) = user c"
  by (simp_all add: win_do_def)

lemma readUser_bells:
  assumes "readUser W c = (u, c')"
  shows "same_bells c c'"
  using assms unfolding readUser_def
  by (auto simp: Let_def split: prod.splits option.splits if_splits dest!: win_call_bells)

lemma processUser_bells:
  assumes "processUser W c = (u, c')"
  shows "same_bells c c' \<and> user c' = Some u"
  using assms by (auto simp: processUser_def split: option.splits prod.splits dest: readUser_bells)

lemma bellNamed_bells:
  assumes "bellNamed W name c = (bell, c')" "events_named W event" "bells_ok event c" "user c = Some u"
  shows "bells_ok event c' \<and> bellsByPipe c' = bellsByPipe c \<and> user c' = Some u \<and> (\<forall>h. bell = Some h \<longrightarrow> event h = local_event name)"
proof (cases "bellsByName c name")
  case (Some b)
  then show ?thesis using assms by (auto simp: bellNamed_def bells_ok_def)
next
  case None
  have pu: "processUser W c = (u, c)" using assms(4) by (simp add: processUser_def)
  obtain d c1 where d: "win_call (make_descriptor W (own_sddl u)) c = (d, c1)" by fastforce
  show ?thesis
  proof (cases d)
    case None
    then show ?thesis using assms \<open>bellsByName c name = None\<close> pu d win_call_bells [OF d] by (auto simp: bellNamed_def bells_ok_def)
  next
    case (Some k)
    obtain b c2 where b: "win_call (create_event W k (local_event name)) c1 = (b, c2)" by fastforce
    have "event h = local_event name" if "b = Some h" for h
      using assms(2) win_callD [OF b] that unfolding events_named_def by blast
    then show ?thesis
      using assms \<open>bellsByName c name = None\<close> pu d b Some win_call_bells [OF d] win_call_bells [OF b]
      by (auto simp: bellNamed_def bells_ok_def local_event_def Let_def split: if_splits)
  qed
qed

lemma attachBells_bells:
  assumes "events_named W event" "bells_ok event c"
  shows "bells_ok event (attachBells W p name listener c)"
    and "bellsByPipe c p = None \<Longrightarrow> belled event name listener p (attachBells W p name listener c)"
proof -
  obtain u c1 where u: "processUser W c = (u, c1)" by fastforce
  let ?base = "''crossbyte-'' @ sid_text u @ ''-'' @ named name"
  obtain l c2 where l: "bellNamed W (?base @ ''-to-listener'') c1 = (l, c2)" by fastforce
  obtain k c3 where k: "bellNamed W (?base @ ''-to-client'') c2 = (k, c3)" by fastforce
  note su = processUser_bells [OF u]
  have ok1: "bells_ok event c1" using assms(2) su by (simp add: bells_ok_def)
  note bl = bellNamed_bells [OF l assms(1) ok1 conjunct2 [OF su]]
  note bk = bellNamed_bells [OF k assms(1) conjunct1 [OF bl] bl [THEN conjunct2, THEN conjunct2, THEN conjunct1]]
  let ?c = "attachBells W p name listener c"
  have e: "?c = (if sid_text u = [] \<or> isInvalid p then c1 else case (l, k) of
       (Some l, Some k) \<Rightarrow> c3\<lparr>bellsByPipe := (bellsByPipe c3)(p \<mapsto> \<lparr>mine = if listener then l else k, peer = if listener then k else l\<rparr>)\<rparr>
     | _ \<Rightarrow> c3)"
    unfolding attachBells_def u l k Let_def prod.case ..
  show "bells_ok event ?c" unfolding e using ok1 bl bk by (auto simp: bells_ok_def split: option.splits)
  show "belled event name listener p ?c" if "bellsByPipe c p = None"
    unfolding e using su bl bk that by (auto simp: belled_def bellOf_def bell_event_def split: option.splits)
qed


lemma owned_bells:
  assumes "ownedByProcessUser W pipe c = (r, c')"
  shows "same_bells c c'"
  using assms unfolding ownedByProcessUser_def
  by (auto simp: Let_def split: prod.splits option.splits if_splits dest!: win_call_bells processUser_bells)

lemma makePipeName_bells:
  assumes "makePipeName_windows W name c = (n, c')"
  shows "same_bells c c'"
  using assms by (auto simp: makePipeName_windows_def split: prod.splits if_splits dest!: processUser_bells)

lemma ring_bells [simp]:
  "bellsByName (ringPeer W p c) = bellsByName c" "bellsByPipe (ringPeer W p c) = bellsByPipe c" "user (ringPeer W p c) = user c"
  by (simp_all add: ringPeer_def split: option.splits)

lemma belled_cong: "belled event name l p c \<Longrightarrow> bellsByPipe c' = bellsByPipe c \<Longrightarrow> user c' = user c \<Longrightarrow> belled event name l p c'"
  by (simp add: belled_def bellOf_def)

lemma bells_ok_cong: "bells_ok event c \<Longrightarrow> bellsByName c' = bellsByName c \<Longrightarrow> bells_ok event c'"
  by (simp add: bells_ok_def)

lemma inbound_bells:
  assumes "native_createInboundPipe_windows W name c = (p, c')" "events_named W event" "bells_ok event c"
  shows "bells_ok event c' \<and> (p \<noteq> 0 \<longrightarrow> bellsByPipe c p = None \<longrightarrow> belled event name True p c')"
proof -
  let ?c = "c\<lparr>pipeError := LOCAL_CONNECTION_ERROR_FAILED\<rparr>"
  obtain n c1 where n: "makePipeName_windows W name ?c = (n, c1)" by fastforce
  obtain u c2 where u: "processUser W c1 = (u, c2)" by fastforce
  obtain d c3 where d: "win_call (make_descriptor W (own_sddl u)) c2 = (d, c3)" by fastforce
  obtain h c4 where h: "win_call (create_named_pipe W n (the d)) c3 = (h, c4)" by fastforce
  let ?c5 = "win_do (local_free W (the d)) c4"
  note sn = makePipeName_bells [OF n] and su = processUser_bells [OF u] and sd = win_call_bells [OF d] and sh = win_call_bells [OF h]
  have e: "(p, c') = (if n = [] then (0, c1) else case d of None \<Rightarrow> (0, c3)
     | Some _ \<Rightarrow> (case h of None \<Rightarrow> (0, ?c5) | Some p \<Rightarrow> (p, (attachBells W p name True ?c5)\<lparr>pipeError := LOCAL_CONNECTION_ERROR_NONE\<rparr>)))"
    using assms(1) n u d h by (auto simp: native_createInboundPipe_windows_def Let_def split: option.splits)
  have ok: "bells_ok event c1" "bells_ok event c3" "bells_ok event ?c5"
    using assms(3) sn su sd sh by (auto simp: bells_ok_def)
  have eq: "bellsByPipe ?c5 = bellsByPipe c" using sn su sd sh by simp
  note at = attachBells_bells [OF assms(2) ok(3)]
  show ?thesis
  proof (cases "n = [] \<or> d = None \<or> h = None")
    case True
    then show ?thesis using e ok by (auto split: if_splits option.splits)
  next
    case False
    then have "c' = (attachBells W p name True ?c5)\<lparr>pipeError := LOCAL_CONNECTION_ERROR_NONE\<rparr>" using e by auto
    then show ?thesis using at [of p name True] eq by (auto simp: bells_ok_def belled_def bellOf_def)
  qed
qed

lemma open_pipe_bells:
  assumes "open_pipe W pn name c = (x, c')" "events_named W event" "bells_ok event c"
  shows "bells_ok event c' \<and> (case x of Inl p \<Rightarrow> p \<noteq> 0 \<longrightarrow> bellsByPipe c p = None \<longrightarrow> belled event name False p c'
    | Inr e \<Rightarrow> bellsByPipe c' = bellsByPipe c)"
proof -
  obtain r c1 where r: "win_call (create_file W pn) c = (r, c1)" by fastforce
  show ?thesis
  proof (cases r)
    case None
    then show ?thesis using assms r win_call_bells [OF r] by (auto simp: open_pipe_def Let_def bells_ok_def split: if_splits)
  next
    case (Some p)
    obtain o' c2 where o': "ownedByProcessUser W p c1 = (o', c2)" by fastforce
    let ?c3 = "win_do (set_nowait W p) c2"
    have ok: "bells_ok event ?c3" "bellsByPipe ?c3 = bellsByPipe c"
      using assms(3) win_call_bells [OF r] owned_bells [OF o'] by (auto simp: bells_ok_def)
    note at = attachBells_bells [OF assms(2) ok(1), of p name False]
    show ?thesis
    proof (cases o')
      case True
      then have "x = Inl p" "c' = (ringPeer W p (attachBells W p name False ?c3))\<lparr>pipeError := LOCAL_CONNECTION_ERROR_NONE\<rparr>"
        using assms(1) r o' Some by (auto simp: open_pipe_def Let_def)
      then show ?thesis using at ok(2) by (auto intro: belled_cong bells_ok_cong)
    next
      case False
      then show ?thesis using assms(1) r o' Some ok(1) by (auto simp: open_pipe_def bells_ok_def)
    qed
  qed
qed

lemma connect_loop_bells:
  assumes "pipe_connect_loop W pn name forever dl c = Some y" "events_named W event" "bells_ok event c"
  shows "bells_ok event (snd y) \<and> (fst y \<noteq> 0 \<longrightarrow> bellsByPipe c (fst y) = None \<longrightarrow> belled event name False (fst y) (snd y))"
proof -
  let ?P = "\<lambda>name c y. bells_ok event c \<longrightarrow>
    bells_ok event (snd y) \<and> (fst y \<noteq> 0 \<longrightarrow> bellsByPipe c (fst y) = None \<longrightarrow> belled event name False (fst y) (snd y))"
  have "W = W \<longrightarrow> ?P name c y"
  proof (rule pipe_connect_loop.raw_induct [where P = "\<lambda>W' pn name forever dl c y. W' = W \<longrightarrow> ?P name c y", OF _ assms(1)], goal_cases)
    case (1 g W' pn name forever dl c y)
    show ?case
    proof (intro impI)
      assume W': "W' = W" and ok: "bells_ok event c"
      obtain x c1 where x: "open_pipe W pn name c = (x, c1)" by fastforce
      note o1 = open_pipe_bells [OF x assms(2) ok]
      have rec: "?P name (win_do f c1) y" if "g W pn name forever dl (win_do f c1) = Some y" for f
        using 1(1) [OF that] by simp
      have ok1: "bells_ok event (win_do f c1)" for f using o1 by (auto intro: bells_ok_cong)
      show "bells_ok event (snd y) \<and> (fst y \<noteq> 0 \<longrightarrow> bellsByPipe c (fst y) = None \<longrightarrow> belled event name False (fst y) (snd y))"
      proof (cases x)
        case (Inl r)
        then show ?thesis using 1(2) W' x o1 by auto
      next
        case (Inr e)
        then show ?thesis using 1(2) W' x o1 rec ok1 by (auto split: if_splits)
      qed
    qed
  qed
  with assms(3) show ?thesis by blast
qed

lemma connect_bells:
  assumes "native_connectWithTimeout_windows W name t c = Some (p, c')" "events_named W event" "bells_ok event c"
  shows "bells_ok event c' \<and> (p \<noteq> 0 \<longrightarrow> bellsByPipe c p = None \<longrightarrow> belled event name False p c')"
proof -
  obtain n c1 where n: "makePipeName_windows W name (c\<lparr>pipeError := LOCAL_CONNECTION_ERROR_FAILED\<rparr>) = (n, c1)" by fastforce
  note sn = makePipeName_bells [OF n]
  then have ok: "bells_ok event c1" using assms(3) by (simp add: bells_ok_def)
  show ?thesis
  proof (cases "n = []")
    case True
    then show ?thesis using assms(1) n ok by (auto simp: native_connectWithTimeout_windows_def Let_def)
  next
    case False
    then have "pipe_connect_loop W n name (t \<le> 0) (win_after W (if t \<le> 0 then 0 else t) c1) c1 = Some (p, c')"
      using assms(1) n by (simp add: native_connectWithTimeout_windows_def Let_def)
    from connect_loop_bells [OF this assms(2) ok] sn show ?thesis by simp
  qed
qed


text \<open>
  C33. The doorbell a listener waits on is the one its clients ring, and the other way round. Take a listener and a
  client of the same user, in one process or two, and events the system names as it was told to: the event the
  listener waits on is the event the client rings, and the event the client waits on is the event the listener
  rings, exactly when both were opened on the same name. No end rings itself, or waits on what it rings.
\<close>

theorem doorbells_paired:
  assumes "events_named W event" "bells_ok event c" "native_createInboundPipe_windows W name c = (p, c1)" "p \<noteq> 0"
    and "bellsByPipe c p = None" "bellOf p False c1 = Some waits" "bellOf p True c1 = Some rings" "user c1 = Some u"
    and "events_named W' event'" "bells_ok event' c'" "native_connectWithTimeout_windows W' name' t c' = Some (p', c1')" "p' \<noteq> 0"
    and "bellsByPipe c' p' = None" "bellOf p' False c1' = Some waits'" "bellOf p' True c1' = Some rings'" "user c1' = Some u'"
    and "sid_text u = sid_text u'"
  shows "(event waits = event' rings' \<longleftrightarrow> named name = named name')
    \<and> (event rings = event' waits' \<longleftrightarrow> named name = named name')
    \<and> event waits \<noteq> event rings \<and> event' waits' \<noteq> event' rings'
    \<and> event waits \<noteq> event' waits' \<and> event rings \<noteq> event' rings'
    \<and> bells_ok event c1 \<and> bells_ok event' c1'"
proof -
  note l = inbound_bells [OF assms(3,1,2)] and k = connect_bells [OF assms(11,9,10)]
  have "belled event name True p c1" using l assms(4,5) by blast
  then have "event waits = bell_event u name True" "event rings = bell_event u name False"
    using assms(6-8) by (auto simp: belled_def)
  moreover have "belled event' name' False p' c1'" using k assms(12,13) by blast
  then have "event' waits' = bell_event u' name' False" "event' rings' = bell_event u' name' True"
    using assms(14-16) by (auto simp: belled_def)
  ultimately show ?thesis using l k bell_event_inject [OF assms(17)] bell_event_inject [OF refl] by simp
qed

text \<open>The pipe above, in a session whose bells are those of the name \<open>a\<close>.\<close>

definition demo_event :: "int \<Rightarrow> string" where
  "demo_event h = bell_event \<lparr>sid = [1], sid_text = ''S-1''\<rparr> (Some ''a'') (h = 20)"

definition demo_session :: "pipe_world pipe_api" where
  "demo_session = demo_pipe\<lparr>create_event := \<lambda>_ name w.
     (if name = demo_event 20 then Some 20 else if name = demo_event 21 then Some 21 else None, w)\<rparr>"

definition demo_user :: ProcessUser where
  "demo_user = \<lparr>sid = [1], sid_text = ''S-1''\<rparr>"

definition paired_by :: "int \<Rightarrow> 'w pipe_ctx \<Rightarrow> int \<Rightarrow> int \<Rightarrow> bool" where
  "paired_by p c waits rings \<longleftrightarrow> bellOf p False c = Some waits \<and> bellOf p True c = Some rings \<and> user c = Some demo_user"

lemma demo_open:
  "fst (open_pipe demo_session (pipe_prefix @ ''S-1-a'') (Some ''a'')
    (pipe_start\<lparr>user := Some demo_user, pipeError := LOCAL_CONNECTION_ERROR_FAILED\<rparr>)) = Inl 8"
  by code_simp

lemma connect_first_try: "fst (open_pipe W pn name c) = Inl r \<Longrightarrow> pipe_connect_loop W pn name forever dl c = Some (r, snd (open_pipe W pn name c))"
  by (subst pipe_connect_loop.simps) (auto split: prod.splits)

lemma demo_connect:
  "native_connectWithTimeout_windows demo_session (Some ''a'') 0 pipe_start
    = Some (8, snd (open_pipe demo_session (pipe_prefix @ ''S-1-a'') (Some ''a'')
        (pipe_start\<lparr>user := Some demo_user, pipeError := LOCAL_CONNECTION_ERROR_FAILED\<rparr>)))"
proof -
  have n: "makePipeName_windows demo_session (Some ''a'') (pipe_start\<lparr>pipeError := LOCAL_CONNECTION_ERROR_FAILED\<rparr>)
    = (pipe_prefix @ ''S-1-a'', pipe_start\<lparr>user := Some demo_user, pipeError := LOCAL_CONNECTION_ERROR_FAILED\<rparr>)"
    by (simp add: makePipeName_windows_def processUser_def readUser_def win_call_def win_do_def Let_def demo_session_def demo_pipe_def demo_user_def
        pipe_start_def named_def)
  have "pipe_prefix \<noteq> []" by (simp add: pipe_prefix_def)
  then show ?thesis using connect_first_try [OF demo_open]
    by (simp only: native_connectWithTimeout_windows_def n Let_def prod.case append_is_Nil_conv if_False simp_thms)
qed

lemma doorbells_paired_witness:
  "\<exists>c1 c1'. native_createInboundPipe_windows demo_session (Some ''a'') pipe_start = (7, c1)
    \<and> native_connectWithTimeout_windows demo_session (Some ''a'') 0 pipe_start = Some (8, c1')
    \<and> paired_by 7 c1 20 21 \<and> paired_by 8 c1' 21 20 \<and> demo_event 20 \<noteq> demo_event 21 \<and> bells_ok demo_event c1 \<and> bells_ok demo_event c1'"
proof -
  let ?c1 = "snd (native_createInboundPipe_windows demo_session (Some ''a'') pipe_start)"
    and ?c1' = "snd (open_pipe demo_session (pipe_prefix @ ''S-1-a'') (Some ''a'')
      (pipe_start\<lparr>user := Some demo_user, pipeError := LOCAL_CONNECTION_ERROR_FAILED\<rparr>))"
  have "fst (native_createInboundPipe_windows demo_session (Some ''a'') pipe_start) = 7" by code_simp
  then have c: "native_createInboundPipe_windows demo_session (Some ''a'') pipe_start = (7, ?c1)" by (simp add: prod_eq_iff)
  have l: "bellOf 7 False ?c1 = Some 20"
    "bellOf 7 True ?c1 = Some 21" "user ?c1 = Some demo_user"
    by code_simp+
  have k: "bellOf 8 False ?c1' = Some 21" "bellOf 8 True ?c1' = Some 20" "user ?c1' = Some demo_user"
    by code_simp+
  have e: "events_named demo_session demo_event"
    by (auto simp: events_named_def demo_session_def split: if_splits)
  have b: "bells_ok demo_event pipe_start" and f: "bellsByPipe pipe_start p = None" for p
    by (auto simp: bells_ok_def pipe_start_def)
  from doorbells_paired [OF e b c _ f l e b demo_connect _ f k refl] c l k demo_connect
  show ?thesis unfolding paired_by_def by auto
qed

end
