(* ===== verification/Spawn_Arguments.thy ===== *)
theory Spawn_Arguments
  imports Prelude
begin

text \<open>
  What \<^verbatim>\<open>crossbyte_spawn_start\<close> of \<^verbatim>\<open>sys/_internal/NativeSpawn.cpp\<close> makes of a program, its arguments and its
  environment: on Windows one command line and one block, on POSIX the paths \<^verbatim>\<open>execve\<close> is tried with. A Haxe string
  is the UTF-16 units or the UTF-8 bytes hxcpp has of it, \<open>None\<close> for null; a C string made of one ends at its first NUL.
\<close>

section \<open>The command line on Windows\<close>

type_synonym wstr = "u16 list"

definition BACKSLASH :: u16 where "BACKSLASH = 0x5C"
definition QUOTE :: u16 where "QUOTE = 0x22"
definition SPACE :: u16 where "SPACE = 0x20"
definition TAB :: u16 where "TAB = 0x09"

lemmas wchar_defs = BACKSLASH_def QUOTE_def SPACE_def TAB_def

definition wideOf :: "wstr option \<Rightarrow> wstr" where
  "wideOf v = (case v of None \<Rightarrow> [] | Some s \<Rightarrow> takeWhile (\<lambda>c. c \<noteq> 0) s)"

definition protect :: "u16 list" where
  "protect = [0x20, 0x09, 0x0A, 0x0B, 0x22]"

fun quoted_loop :: "wstr \<Rightarrow> nat \<Rightarrow> wstr \<Rightarrow> wstr" where
  "quoted_loop line backslashes [] = line @ replicate (backslashes * 2) BACKSLASH @ [QUOTE]"
| "quoted_loop line backslashes (c # cs) =
     (if c = BACKSLASH then quoted_loop line (backslashes + 1) cs
      else if c = QUOTE then quoted_loop (line @ replicate (backslashes * 2 + 1) BACKSLASH @ [QUOTE]) 0 cs
      else quoted_loop (line @ replicate backslashes BACKSLASH @ [c]) 0 cs)"

definition appendQuoted :: "wstr \<Rightarrow> wstr \<Rightarrow> wstr" where
  "appendQuoted line argument =
     (if argument \<noteq> [] \<and> list_all (\<lambda>c. c \<notin> set protect) argument then line @ argument
      else quoted_loop (line @ [QUOTE]) 0 argument)"

fun append_arguments :: "wstr \<Rightarrow> wstr option list \<Rightarrow> wstr" where
  "append_arguments line [] = line"
| "append_arguments line (a # as) = append_arguments (appendQuoted (line @ [SPACE]) (wideOf a)) as"

text \<open>The command line as it is handed over, with the NUL that ends it.\<close>

definition commandLine :: "wstr option \<Rightarrow> wstr option list \<Rightarrow> wstr hx" where
  "commandLine executable arguments =
     (let program = wideOf executable
      in if QUOTE \<in> set program then Inl ''Invalid command name''
         else Inr (append_arguments ([QUOTE] @ program @ [QUOTE]) arguments @ [0]))"

definition environment_block :: "wstr option list \<Rightarrow> wstr" where
  "environment_block environment =
     concat (map (\<lambda>e. wideOf e @ [0]) environment) @ (if environment = [] then [0] else []) @ [0]"

section \<open>Reading it back\<close>

text \<open>
  What \<^verbatim>\<open>CommandLineToArgvW\<close> and the C runtime are documented to do. \<open>arg quoted s\<close> is the rest of an argument, in
  quotes or not, and what follows it. Blanks end an argument outside quotes. Backslashes are themselves, unless a quote
  follows: an even number stands for half as many, and the quote opens or closes (two closing quotes in a row mean
  something else); an odd number stands for half as many and a quote. The program's name, in quotes, ends at the
  next quote.
\<close>

definition blank :: "u16 \<Rightarrow> bool" where
  "blank c = (c = SPACE \<or> c = TAB)"

definition ended :: "wstr \<Rightarrow> bool" where
  "ended s = (s = [] \<or> blank (hd s))"

definition reads_usual :: "(bool \<Rightarrow> wstr \<Rightarrow> wstr \<times> wstr) \<Rightarrow> (wstr \<Rightarrow> wstr list) \<Rightarrow> (wstr \<Rightarrow> wstr list) \<Rightarrow> bool" where
  "reads_usual arg args argv \<longleftrightarrow>
     (\<forall>s. ended s \<longrightarrow> arg False s = ([], s)) \<and>
     (\<forall>q c s. c \<noteq> BACKSLASH \<longrightarrow> c \<noteq> QUOTE \<longrightarrow> q \<or> \<not> blank c \<longrightarrow> arg q (c # s) = apfst ((#) c) (arg q s)) \<and>
     (\<forall>q n s. s = [] \<or> hd s \<noteq> QUOTE \<and> hd s \<noteq> BACKSLASH \<longrightarrow>
        arg q (replicate n BACKSLASH @ s) = apfst ((@) (replicate n BACKSLASH)) (arg q s)) \<and>
     (\<forall>n s. arg False (replicate (2 * n) BACKSLASH @ QUOTE # s) = apfst ((@) (replicate n BACKSLASH)) (arg True s)) \<and>
     (\<forall>n s. s = [] \<or> hd s \<noteq> QUOTE \<longrightarrow>
        arg True (replicate (2 * n) BACKSLASH @ QUOTE # s) = apfst ((@) (replicate n BACKSLASH)) (arg False s)) \<and>
     (\<forall>q n s. arg q (replicate (2 * n + 1) BACKSLASH @ QUOTE # s) = apfst ((@) (replicate n BACKSLASH @ [QUOTE])) (arg q s)) \<and>
     args [] = [] \<and> (\<forall>c s. blank c \<longrightarrow> args (c # s) = args s) \<and>
     (\<forall>s. \<not> ended s \<longrightarrow> args s = fst (arg False s) # args (snd (arg False s))) \<and>
     (\<forall>p s. QUOTE \<notin> set p \<longrightarrow> ended s \<longrightarrow> argv (QUOTE # p @ QUOTE # s) = p # args s)"

text \<open>A block of variables: each ended by a NUL, up to an empty one.\<close>

definition reads_block :: "(wstr \<Rightarrow> wstr list) \<Rightarrow> bool" where
  "reads_block vars \<longleftrightarrow>
     (\<forall>s. vars (0 # s) = []) \<and> (\<forall>e s. e \<noteq> [] \<longrightarrow> 0 \<notin> set e \<longrightarrow> vars (e @ 0 # s) = e # vars s)"

section \<open>Round trips\<close>

text \<open>What \<open>quoted_loop\<close> adds to the line.\<close>

definition quoted_tail :: "nat \<Rightarrow> wstr \<Rightarrow> wstr" where
  "quoted_tail n cs = quoted_loop [] n cs"

lemma quoted_loop_line: "quoted_loop line n cs = line @ quoted_loop [] n cs"
proof (induction cs arbitrary: line n)
  case (Cons c cs)
  have "quoted_loop (line @ x) m cs = line @ quoted_loop x m cs" for x m
    using Cons.IH [of "line @ x" m] Cons.IH [of x m] by simp
  then show ?case using Cons.IH [of line "n + 1"] by simp
qed simp

lemma quoted_tail_simps:
  "quoted_tail n [] = replicate (2 * n) BACKSLASH @ [QUOTE]"
  "quoted_tail n (c # cs) =
     (if c = BACKSLASH then quoted_tail (n + 1) cs
      else if c = QUOTE then replicate (2 * n + 1) BACKSLASH @ [QUOTE] @ quoted_tail 0 cs
      else replicate n BACKSLASH @ [c] @ quoted_tail 0 cs)"
  using quoted_loop_line [of "replicate (2 * n + 1) BACKSLASH @ [QUOTE]" 0 cs] quoted_loop_line [of "replicate n BACKSLASH @ [c]" 0 cs]
  by (simp_all add: quoted_tail_def mult.commute)

lemma ended_hd: "ended s \<Longrightarrow> s = [] \<or> hd s \<noteq> QUOTE \<and> hd s \<noteq> BACKSLASH"
  by (auto simp: ended_def blank_def wchar_defs)

lemma not_quote: "QUOTE \<noteq> BACKSLASH" "BACKSLASH \<noteq> QUOTE" "\<not> blank QUOTE" "\<not> blank BACKSLASH" "blank SPACE"
  by (simp_all add: blank_def wchar_defs)

lemma arg_quoted:
  assumes "reads_usual arg args argv" "ended s"
  shows "arg True (quoted_tail n cs @ s) = (replicate n BACKSLASH @ cs, s)"
proof (induction cs arbitrary: n)
  case Nil
  have "arg True (replicate (2 * n) BACKSLASH @ QUOTE # s) = apfst ((@) (replicate n BACKSLASH)) (arg False s)"
    using assms(1) ended_hd [OF assms(2)] unfolding reads_usual_def by blast
  then show ?case using assms unfolding reads_usual_def by (simp add: quoted_tail_simps)
next
  case (Cons c cs)
  consider "c = BACKSLASH" | "c = QUOTE" | "c \<noteq> BACKSLASH" "c \<noteq> QUOTE" by blast
  then show ?case
  proof cases
    case 1
    then show ?thesis using Cons [of "n + 1"] by (simp add: quoted_tail_simps replicate_append_same)
  next
    case 2
    have "arg True (replicate (2 * n + 1) BACKSLASH @ QUOTE # quoted_tail 0 cs @ s)
        = apfst ((@) (replicate n BACKSLASH @ [QUOTE])) (arg True (quoted_tail 0 cs @ s))"
      using assms(1) unfolding reads_usual_def by blast
    then show ?thesis using 2 Cons [of 0] not_quote by (simp add: quoted_tail_simps)
  next
    case 3
    have "arg True (replicate n BACKSLASH @ c # quoted_tail 0 cs @ s) = apfst ((@) (replicate n BACKSLASH)) (arg True (c # quoted_tail 0 cs @ s))"
      using assms(1) 3 unfolding reads_usual_def by (metis list.sel(1))
    moreover have "arg True (c # quoted_tail 0 cs @ s) = apfst ((#) c) (arg True (quoted_tail 0 cs @ s))"
      using assms(1) 3 unfolding reads_usual_def by metis
    ultimately show ?thesis using 3 Cons [of 0] by (simp add: quoted_tail_simps)
  qed
qed

text \<open>An argument as it is, when nothing in it needs quotes. Its backslashes stand alone: no quote follows them.\<close>

lemma arg_plain:
  assumes "reads_usual arg args argv" "ended s" "list_all (\<lambda>c. c \<notin> set protect) cs"
  shows "arg False (replicate n BACKSLASH @ cs @ s) = (replicate n BACKSLASH @ cs, s)"
  using assms(3)
proof (induction cs arbitrary: n)
  case Nil
  have "arg False (replicate n BACKSLASH @ s) = apfst ((@) (replicate n BACKSLASH)) (arg False s)"
    using assms(1) ended_hd [OF assms(2)] unfolding reads_usual_def by blast
  then show ?case using assms unfolding reads_usual_def by simp
next
  case (Cons c cs)
  show ?case
  proof (cases "c = BACKSLASH")
    case True
    then show ?thesis using Cons.IH [of "n + 1"] Cons.prems by (simp add: replicate_append_same replicate_app_Cons_same)
  next
    case False
    with Cons.prems have c: "c \<noteq> BACKSLASH" "c \<noteq> QUOTE" "\<not> blank c" by (auto simp: protect_def blank_def wchar_defs)
    have "arg False (replicate n BACKSLASH @ c # cs @ s) = apfst ((@) (replicate n BACKSLASH)) (arg False (c # cs @ s))"
      using assms(1) c unfolding reads_usual_def by (metis list.sel(1))
    moreover have "arg False (c # cs @ s) = apfst ((#) c) (arg False (cs @ s))"
      using assms(1) c unfolding reads_usual_def by metis
    ultimately show ?thesis using Cons.IH [of 0] Cons.prems by simp
  qed
qed


definition arguments_tail :: "wstr option list \<Rightarrow> wstr" where
  "arguments_tail as = concat (map (\<lambda>a. SPACE # appendQuoted [] (wideOf a)) as)"

lemma appendQuoted_line: "appendQuoted line a = line @ appendQuoted [] a"
  using quoted_loop_line [of "line @ [QUOTE]" 0 a] quoted_loop_line [of "[QUOTE]" 0 a] by (simp add: appendQuoted_def)

lemma append_arguments_line: "append_arguments line as = line @ arguments_tail as"
proof (induction as arbitrary: line)
  case (Cons a as)
  show ?case using Cons.IH [of "appendQuoted (line @ [SPACE]) (wideOf a)"] appendQuoted_line [of "line @ [SPACE]" "wideOf a"]
    by (simp add: arguments_tail_def)
qed (simp add: arguments_tail_def)

lemma ended_arguments: "ended (arguments_tail as)"
  by (cases as) (simp_all add: arguments_tail_def ended_def not_quote)

lemma arg_appended:
  assumes "reads_usual arg args argv" "ended s"
  shows "arg False (appendQuoted [] a @ s) = (a, s)" and "\<not> ended (appendQuoted [] a @ s)"
proof -
  show "arg False (appendQuoted [] a @ s) = (a, s)"
  proof (cases "a \<noteq> [] \<and> list_all (\<lambda>c. c \<notin> set protect) a")
    case True
    then show ?thesis using arg_plain [OF assms, of a 0] by (simp add: appendQuoted_def)
  next
    case False
    then have "appendQuoted [] a = QUOTE # quoted_tail 0 a"
      using quoted_loop_line [of "[QUOTE]" 0 a] by (auto simp: appendQuoted_def quoted_tail_def)
    moreover have "arg False (replicate (2 * 0) BACKSLASH @ QUOTE # quoted_tail 0 a @ s) = apfst ((@) (replicate 0 BACKSLASH)) (arg True (quoted_tail 0 a @ s))"
      using assms(1) unfolding reads_usual_def by blast
    ultimately show ?thesis using arg_quoted [OF assms, of 0 a] by simp
  qed
  show "\<not> ended (appendQuoted [] a @ s)"
    using quoted_loop_line [of "[QUOTE]" 0 a] not_quote
    by (cases a) (auto simp: appendQuoted_def ended_def protect_def blank_def wchar_defs)
qed

lemma args_read:
  assumes "reads_usual arg args argv"
  shows "args (arguments_tail as) = map wideOf as"
proof (induction as)
  case Nil
  then show ?case using assms by (simp add: arguments_tail_def reads_usual_def)
next
  case (Cons a as)
  let ?s = "appendQuoted [] (wideOf a) @ arguments_tail as"
  have "args (arguments_tail (a # as)) = args ?s"
    using assms not_quote(5) by (simp add: arguments_tail_def reads_usual_def)
  also have "\<dots> = fst (arg False ?s) # args (snd (arg False ?s))"
    using arg_appended(2) [OF assms ended_arguments [of as], of "wideOf a"] assms unfolding reads_usual_def by blast
  finally show ?case using arg_appended(1) [OF assms ended_arguments [of as], of "wideOf a"] Cons by simp
qed

lemma wideOf_no_nul: "0 \<notin> set (wideOf v)"
  by (auto simp: wideOf_def dest: set_takeWhileD split: option.splits)

lemma quoted_loop_no_nul: "0 \<notin> set line \<Longrightarrow> 0 \<notin> set cs \<Longrightarrow> 0 \<notin> set (quoted_loop line n cs)"
  by (induction line n cs rule: quoted_loop.induct) (auto simp: wchar_defs)

lemma append_arguments_no_nul: "0 \<notin> set line \<Longrightarrow> 0 \<notin> set (append_arguments line as)"
proof (induction line as rule: append_arguments.induct)
  case (2 line a as)
  have "0 \<notin> set (appendQuoted (line @ [SPACE]) (wideOf a))"
    using 2(2) wideOf_no_nul [of a] quoted_loop_no_nul [of "line @ [SPACE, QUOTE]" "wideOf a" 0] by (auto simp: appendQuoted_def wchar_defs)
  then show ?case using 2(1) by simp
qed simp

lemma block_read:
  assumes "reads_block vars" "\<forall>e \<in> set env. wideOf e \<noteq> []"
  shows "vars (environment_block env) = map wideOf env"
proof (cases "env = []")
  case True
  then show ?thesis using assms(1) by (simp add: environment_block_def reads_block_def)
next
  case False
  have "vars (concat (map (\<lambda>e. wideOf e @ [0]) env) @ [0]) = map wideOf env"
    using assms(2)
  proof (induction env)
    case Nil
    then show ?case using assms(1) by (simp add: reads_block_def)
  next
    case (Cons e env)
    then show ?case using assms(1) wideOf_no_nul [of e] by (simp add: reads_block_def)
  qed
  with False show ?thesis by (simp add: environment_block_def)
qed

text \<open>
  C34. On Windows a child gets the arguments it was given. Whatever the arguments are, empty or with blanks, quotes and
  backslashes in any order, a program that reads its command line by the documented rules gets its own name and exactly
  those arguments; a name with a quote is refused. And a child that is given an environment gets exactly its variables.
\<close>

theorem spawn_command_line:
  assumes "reads_usual arg args argv" "reads_block vars"
  shows "(if QUOTE \<in> set (wideOf executable) then commandLine executable arguments = Inl ''Invalid command name''
      else \<exists>line. commandLine executable arguments = Inr line
        \<and> argv (takeWhile (\<lambda>c. c \<noteq> 0) line) = wideOf executable # map wideOf arguments)
    \<and> ((\<forall>e \<in> set environment. wideOf e \<noteq> []) \<longrightarrow> vars (environment_block environment) = map wideOf environment)"
proof (intro conjI impI)
  let ?p = "wideOf executable"
  let ?line = "append_arguments ([QUOTE] @ ?p @ [QUOTE]) arguments"
  show "if QUOTE \<in> set ?p then commandLine executable arguments = Inl ''Invalid command name''
      else \<exists>line. commandLine executable arguments = Inr line \<and> argv (takeWhile (\<lambda>c. c \<noteq> 0) line) = ?p # map wideOf arguments"
  proof (cases "QUOTE \<in> set ?p")
    case False
    have "0 \<notin> set ?line" using wideOf_no_nul [of executable] by (intro append_arguments_no_nul) (auto simp: QUOTE_def)
    then have "takeWhile (\<lambda>c. c \<noteq> 0) (?line @ [0]) = ?line" by (subst takeWhile_append2) auto
    also have "\<dots> = QUOTE # ?p @ QUOTE # arguments_tail arguments"
      using append_arguments_line [of "[QUOTE] @ ?p @ [QUOTE]" arguments] by simp
    also have "argv \<dots> = ?p # args (arguments_tail arguments)"
      using assms(1) False ended_arguments [of arguments] unfolding reads_usual_def by blast
    finally show ?thesis using False args_read [OF assms(1)] by (simp add: commandLine_def Let_def)
  qed (simp add: commandLine_def)
qed (rule block_read [OF assms(2)])


text \<open>A reader of that kind, with the backslashes it has seen counted.\<close>

fun usual_arg :: "nat \<Rightarrow> bool \<Rightarrow> wstr \<Rightarrow> wstr \<times> wstr" where
  "usual_arg n q [] = (replicate n BACKSLASH, [])"
| "usual_arg n q (c # s) =
     (if c = BACKSLASH then usual_arg (n + 1) q s
      else if c = QUOTE
      then (if odd n then apfst ((@) (replicate (n div 2) BACKSLASH @ [QUOTE])) (usual_arg 0 q s)
            else apfst ((@) (replicate (n div 2) BACKSLASH)) (usual_arg 0 (\<not> q) s))
      else if \<not> q \<and> blank c then (replicate n BACKSLASH, c # s)
      else apfst ((@) (replicate n BACKSLASH @ [c])) (usual_arg 0 q s))"

lemma usual_arg_rest: "length (snd (usual_arg n q s)) \<le> length s"
  by (induction n q s rule: usual_arg.induct) (auto intro: le_SucI)

function usual_args :: "wstr \<Rightarrow> wstr list" where
  "usual_args s =
     (case s of
        [] \<Rightarrow> []
      | c # cs \<Rightarrow> if blank c then usual_args cs else fst (usual_arg 0 False s) # usual_args (snd (usual_arg 0 False s)))"
  by pat_completeness auto
termination
proof (relation "measure length")
  fix s c cs assume "s = c # cs" "\<not> blank c"
  then show "(snd (usual_arg 0 False s), s) \<in> measure length"
    using usual_arg_rest [of 0 False cs] usual_arg_rest [of 1 False cs] usual_arg_rest [of 0 True cs] by (auto simp: less_Suc_eq_le)
qed auto

declare usual_args.simps [simp del]

definition usual_argv :: "wstr \<Rightarrow> wstr list" where
  "usual_argv s =
     (let t = tl s in takeWhile (\<lambda>c. c \<noteq> QUOTE) t # usual_args (tl (dropWhile (\<lambda>c. c \<noteq> QUOTE) t)))"

fun block_vars :: "wstr \<Rightarrow> wstr \<Rightarrow> wstr list" where
  "block_vars acc [] = []"
| "block_vars acc (c # s) =
     (if c \<noteq> 0 then block_vars (acc @ [c]) s else if acc = [] then [] else acc # block_vars [] s)"

lemma block_vars_entry: "0 \<notin> set e \<Longrightarrow> block_vars acc (e @ 0 # s) = (if acc @ e = [] then [] else (acc @ e) # block_vars [] s)"
  by (induction e arbitrary: acc) auto

lemma usual_backslashes: "usual_arg m q (replicate n BACKSLASH @ s) = usual_arg (m + n) q s"
  by (induction n arbitrary: m) auto

lemma usual_pending: "s = [] \<or> hd s \<noteq> QUOTE \<and> hd s \<noteq> BACKSLASH \<Longrightarrow> usual_arg n q s = apfst ((@) (replicate n BACKSLASH)) (usual_arg 0 q s)"
  by (cases s) (auto simp: apfst_def map_prod_def split: prod.splits)

lemma usual_reads: "reads_usual (usual_arg 0) usual_args usual_argv"
  unfolding reads_usual_def
proof (intro conjI allI impI, goal_cases)
  case (1 s)
  then show ?case by (cases s) (auto simp: ended_def blank_def wchar_defs)
next
  case (3 q n s)
  then show ?case using usual_backslashes [of 0 q n s] usual_pending [of s n q] by simp
next
  case (9 s)
  then obtain c cs where "s = c # cs" "\<not> blank c" by (cases s) (auto simp: ended_def)
  then show ?case by (subst usual_args.simps) (simp del: usual_arg.simps)
next
  case (10 p s)
  then have "takeWhile (\<lambda>c. c \<noteq> QUOTE) (p @ QUOTE # s) = p" "dropWhile (\<lambda>c. c \<noteq> QUOTE) (p @ QUOTE # s) = QUOTE # s"
    by (auto simp: takeWhile_tail dropWhile_append3)
  then show ?case by (simp add: usual_argv_def)
qed (auto simp: usual_backslashes not_quote usual_args.simps)

lemma block_vars_reads: "reads_block (block_vars [])"
  by (simp add: reads_block_def block_vars_entry)

definition tricky :: "wstr option list" where
  "tricky = [Some [0x61, 0x20, 0x5C], Some [], Some [0x5C, 0x22, 0x62], Some [0x2F, 0x63], Some [0x5C, 0x5C]]"

lemma spawn_command_line_witness:
  "QUOTE \<notin> set (wideOf (Some [0x70]))
   \<and> (\<exists>line. commandLine (Some [0x70]) tricky = Inr line \<and> usual_argv (takeWhile (\<lambda>c. c \<noteq> 0) line) = [0x70] # map wideOf tricky)
   \<and> block_vars [] (environment_block [Some [0x61, 0x3D], Some [0x62, 0x3D, 0x63]]) = [[0x61, 0x3D], [0x62, 0x3D, 0x63]]"
proof -
  have p: "wideOf (Some [0x70]) = [0x70]" "QUOTE \<notin> set [0x70]" by code_simp+
  have e: "map wideOf [Some [0x61, 0x3D], Some [0x62, 0x3D, 0x63]] = [[0x61, 0x3D], [0x62, 0x3D, 0x63]]" by code_simp
  from spawn_command_line [OF usual_reads block_vars_reads, of "Some [0x70]" tricky "[Some [0x61, 0x3D], Some [0x62, 0x3D, 0x63]]"] p e
  show ?thesis by auto
qed


section \<open>Finding the program on POSIX\<close>

definition utf8Of :: "string option \<Rightarrow> string" where
  "utf8Of v = (case v of None \<Rightarrow> [] | Some s \<Rightarrow> takeWhile (\<lambda>c. c \<noteq> CHR 0x00) s)"

abbreviation COLON :: char where "COLON \<equiv> CHR 0x3A"
abbreviation SLASH :: char where "SLASH \<equiv> CHR 0x2F"

definition path_candidate :: "string \<Rightarrow> string \<Rightarrow> string" where
  "path_candidate name entry = (if entry = [] then ''.'' else entry) @ [SLASH] @ name"

text \<open>The loop over \<open>PATH\<close>, with what is left of it.\<close>

function path_loop :: "string \<Rightarrow> string \<Rightarrow> string list" where
  "path_loop name search =
     (let entry = takeWhile (\<lambda>c. c \<noteq> COLON) search
      in path_candidate name entry # (if COLON \<in> set search then path_loop name (drop (length entry + 1) search) else []))"
  by pat_completeness auto
termination
  by (relation "measure (length \<circ> snd)") (auto intro: diff_less length_pos_if_in_set)

declare path_loop.simps [simp del]

definition candidates :: "string \<Rightarrow> string option \<Rightarrow> string list" where
  "candidates name path =
     (if SLASH \<in> set name then [name]
      else path_loop name (case path of None \<Rightarrow> ''/usr/local/bin:/usr/bin:/bin'' | Some p \<Rightarrow> p))"

text \<open>What the child sends back when it cannot be replaced: the step that failed and its error.\<close>

datatype spawn_step = STEP_DIRECTORY | STEP_EXEC

record ChildFailure =
  failed_step :: spawn_step
  failed_error :: errno

text \<open>How the child ends: as another program, at a path, or with a report, and exit code 127.\<close>

datatype child_end = Replaced string | Reported ChildFailure

fun exec_loop :: "(string \<Rightarrow> 'w \<Rightarrow> errno option \<times> 'w) \<Rightarrow> errno \<Rightarrow> bool \<Rightarrow> string list \<Rightarrow> 'w \<Rightarrow> child_end \<times> 'w" where
  "exec_loop execve latest denied [] w =
     (Reported \<lparr>failed_step = STEP_EXEC, failed_error = (if denied \<and> (latest = ENOENT \<or> latest = ENOTDIR) then EACCES else latest)\<rparr>, w)"
| "exec_loop execve latest denied (p # ps) w =
     (case execve p w of
        (None, w) \<Rightarrow> (Replaced p, w)
      | (Some e, w) \<Rightarrow>
          if e = EACCES then exec_loop execve e True ps w
          else if e \<noteq> ENOENT \<and> e \<noteq> ENOTDIR
          then (Reported \<lparr>failed_step = STEP_EXEC, failed_error = (if denied \<and> (e = ENOENT \<or> e = ENOTDIR) then EACCES else e)\<rparr>, w)
          else exec_loop execve e denied ps w)"

text \<open>The entries of a search path: what is between its colons.\<close>

fun joined :: "string list \<Rightarrow> string" where
  "joined [] = []"
| "joined [e] = e"
| "joined (e # es) = e @ [COLON] @ joined es"

lemma drop_past_colon:
  assumes "COLON \<in> set s"
  shows "s = takeWhile (\<lambda>c. c \<noteq> COLON) s @ [COLON] @ drop (length (takeWhile (\<lambda>c. c \<noteq> COLON) s) + 1) s"
proof -
  let ?t = "takeWhile (\<lambda>c. c \<noteq> COLON) s"
  obtain ys zs where s: "s = ys @ COLON # zs" "COLON \<notin> set ys" using split_list_first [OF assms] by blast
  then have "\<forall>c \<in> set ys. c \<noteq> COLON" by metis
  then have "?t = ys" unfolding s(1) by (subst takeWhile_append2) auto
  with s show ?thesis by simp
qed

lemma path_loop_entries:
  "\<exists>es. es \<noteq> [] \<and> (\<forall>e \<in> set es. COLON \<notin> set e) \<and> joined es = search \<and> path_loop name search = map (path_candidate name) es"
proof (induction name search rule: path_loop.induct)
  case (1 name search)
  let ?e = "takeWhile (\<lambda>c. c \<noteq> COLON) search"
  have e: "COLON \<notin> set ?e" by (auto dest: set_takeWhileD)
  show ?case
  proof (cases "COLON \<in> set search")
    case False
    then have "\<forall>c \<in> set search. c \<noteq> COLON" by metis
    then have "?e = search" by (subst takeWhile_eq_all_conv)
    then have "path_loop name search = [path_candidate name search]" using False by (subst path_loop.simps) (simp only: Let_def if_False)
    with False show ?thesis by (intro exI [of _ "[search]"]) simp
  next
    case True
    from 1 [OF refl True] obtain es where es: "es \<noteq> []" "\<forall>e \<in> set es. COLON \<notin> set e" "joined es = drop (length ?e + 1) search"
      "path_loop name (drop (length ?e + 1) search) = map (path_candidate name) es" by blast
    then have "joined (?e # es) = search" using drop_past_colon [OF True] by (cases es) simp_all
    with es e True show ?thesis by (intro exI [of _ "?e # es"]) (simp add: path_loop.simps [of name search])
  qed
qed

definition passed_over :: "errno option \<Rightarrow> bool" where
  "passed_over r = (r = Some ENOENT \<or> r = Some ENOTDIR \<or> r = Some EACCES)"

lemma exec_loop_answers:
  assumes "\<And>p w. fst (execve p w) = ans p"
  shows "fst (exec_loop execve latest denied ps w) =
    (case find (\<lambda>p. \<not> passed_over (ans p)) ps of
       Some p \<Rightarrow> (case ans p of None \<Rightarrow> Replaced p | Some e \<Rightarrow> Reported \<lparr>failed_step = STEP_EXEC, failed_error = e\<rparr>)
     | None \<Rightarrow> Reported \<lparr>failed_step = STEP_EXEC, failed_error =
         (let l = (if ps = [] then latest else the (ans (last ps)))
          in if (denied \<or> Some EACCES \<in> ans ` set ps) \<and> (l = ENOENT \<or> l = ENOTDIR) then EACCES else l)\<rparr>)"
proof (induction ps arbitrary: latest denied w)
  case (Cons p ps)
  obtain r w1 where r: "execve p w = (r, w1)" by fastforce
  with assms [of p w] have a: "ans p = r" by simp
  show ?case
  proof (cases "passed_over r")
    case False
    then show ?thesis using r a by (auto simp: passed_over_def split: option.splits)
  next
    case True
    then consider "r = Some ENOENT" | "r = Some ENOTDIR" | "r = Some EACCES" unfolding passed_over_def by blast
    then show ?thesis
    proof cases
      case 1
      then show ?thesis using r a Cons [of ENOENT denied w1] by (simp add: passed_over_def cong: option.case_cong)
    next
      case 2
      then show ?thesis using r a Cons [of ENOTDIR denied w1] by (simp add: passed_over_def cong: option.case_cong)
    next
      case 3
      then show ?thesis using r a Cons [of EACCES True w1] by (simp add: passed_over_def cong: option.case_cong)
    qed
  qed
qed (simp add: Let_def)


text \<open>
  C37. On POSIX a program is looked for as the shell looks. A name with a slash is the path; otherwise each entry of
  \<open>PATH\<close> is tried in turn, an empty one as the current directory, and a process with no \<open>PATH\<close> looks in a fixed one. The
  child becomes the first candidate that is there and may be run, or ends with that candidate's own error when it is
  there and cannot; when every candidate is missing or may not be run, it reports \<open>EACCES\<close> if any was there, else that the
  last was missing.
\<close>

theorem spawn_finds_program:
  assumes "\<And>p w. fst (execve p w) = ans p"
  shows "(SLASH \<in> set name \<longrightarrow> candidates name path = [name])
    \<and> (SLASH \<notin> set name \<longrightarrow> (\<exists>es. es \<noteq> [] \<and> (\<forall>e \<in> set es. COLON \<notin> set e)
        \<and> joined es = (case path of None \<Rightarrow> ''/usr/local/bin:/usr/bin:/bin'' | Some p \<Rightarrow> p)
        \<and> candidates name path = map (\<lambda>e. (if e = [] then ''.'' else e) @ ''/'' @ name) es))
    \<and> fst (exec_loop execve ENOENT False (candidates name path) w) =
       (case find (\<lambda>p. ans p \<notin> {Some ENOENT, Some ENOTDIR, Some EACCES}) (candidates name path) of
          Some p \<Rightarrow> (case ans p of None \<Rightarrow> Replaced p | Some e \<Rightarrow> Reported \<lparr>failed_step = STEP_EXEC, failed_error = e\<rparr>)
        | None \<Rightarrow> Reported \<lparr>failed_step = STEP_EXEC, failed_error =
            (if Some EACCES \<in> ans ` set (candidates name path) then EACCES else the (ans (last (candidates name path))))\<rparr>)"
proof (intro conjI impI)
  let ?cs = "candidates name path" and ?search = "case path of None \<Rightarrow> ''/usr/local/bin:/usr/bin:/bin'' | Some p \<Rightarrow> p"
  have entry: "path_candidate name = (\<lambda>e. (if e = [] then ''.'' else e) @ ''/'' @ name)" by (simp add: path_candidate_def fun_eq_iff)
  obtain es where es: "es \<noteq> []" "\<forall>e \<in> set es. COLON \<notin> set e" "joined es = ?search" "path_loop name ?search = map (path_candidate name) es"
    using path_loop_entries [of ?search name] by blast
  show "SLASH \<in> set name \<Longrightarrow> ?cs = [name]" by (simp add: candidates_def)
  show "\<exists>es. es \<noteq> [] \<and> (\<forall>e \<in> set es. COLON \<notin> set e) \<and> joined es = ?search \<and> ?cs = map (\<lambda>e. (if e = [] then ''.'' else e) @ ''/'' @ name) es"
    if "SLASH \<notin> set name" using es that unfolding candidates_def entry by auto
  have ne: "?cs \<noteq> []" using es by (auto simp: candidates_def)
  have p: "(\<lambda>p. \<not> passed_over (ans p)) = (\<lambda>p. ans p \<notin> {Some ENOENT, Some ENOTDIR, Some EACCES})"
    by (auto simp: passed_over_def fun_eq_iff)
  have last: "the (ans (last ?cs)) \<in> {ENOENT, ENOTDIR, EACCES}" if "find (\<lambda>p. \<not> passed_over (ans p)) ?cs = None"
    using that last_in_set [OF ne] by (auto simp: find_None_iff passed_over_def)
  show "fst (exec_loop execve ENOENT False ?cs w) =
       (case find (\<lambda>p. ans p \<notin> {Some ENOENT, Some ENOTDIR, Some EACCES}) ?cs of
          Some p \<Rightarrow> (case ans p of None \<Rightarrow> Replaced p | Some e \<Rightarrow> Reported \<lparr>failed_step = STEP_EXEC, failed_error = e\<rparr>)
        | None \<Rightarrow> Reported \<lparr>failed_step = STEP_EXEC, failed_error =
            (if Some EACCES \<in> ans ` set ?cs then EACCES else the (ans (last ?cs)))\<rparr>)"
    unfolding p [symmetric] exec_loop_answers [OF assms]
    using last ne by (auto simp: Let_def split: option.splits)
qed

text \<open>\<open>sh\<close>, in the second of two directories; the first has one that may not be run.\<close>

definition demo_answer :: "string \<Rightarrow> errno option" where
  "demo_answer p = (if p = ''/bin/sh'' then None else if p = ''/a/sh'' then Some EACCES else Some ENOENT)"

definition demo_execve :: "string \<Rightarrow> unit \<Rightarrow> errno option \<times> unit" where
  "demo_execve p w = (demo_answer p, w)"

lemma spawn_finds_program_witness:
  "candidates ''sh'' (Some ''/a::/bin'') = [''/a/sh'', ''./sh'', ''/bin/sh'']
   \<and> fst (exec_loop demo_execve ENOENT False (candidates ''sh'' (Some ''/a::/bin'')) ()) = Replaced ''/bin/sh''
   \<and> fst (exec_loop demo_execve ENOENT False (candidates ''sh'' (Some ''/a:'')) ()) = Reported \<lparr>failed_step = STEP_EXEC, failed_error = EACCES\<rparr>"
proof -
  have e: "fst (demo_execve p w) = demo_answer p" for p w by (simp add: demo_execve_def)
  have c: "candidates ''sh'' (Some ''/a::/bin'') = [''/a/sh'', ''./sh'', ''/bin/sh'']" "candidates ''sh'' (Some ''/a:'') = [''/a/sh'', ''./sh'']"
    by code_simp+
  show ?thesis
    using spawn_finds_program [where execve = demo_execve and ans = demo_answer, OF e, where name = "''sh''" and path = "Some ''/a::/bin''" and w = "()", THEN conjunct2, THEN conjunct2]
      spawn_finds_program [where execve = demo_execve and ans = demo_answer, OF e, where name = "''sh''" and path = "Some ''/a:''" and w = "()", THEN conjunct2, THEN conjunct2]
    unfolding c by (simp add: demo_answer_def del: exec_loop.simps)
qed

end
