(* ===== verification/Spawn_Child.thy ===== *)
theory Spawn_Child
  imports Spawn_Arguments
begin

text \<open>
  \<^verbatim>\<open>sys/_internal/NativeSpawn.cpp\<close> on POSIX: a child started over three pipes and a fourth it reports a failure on, and
  what is done with it after. The system calls are the fields of \<open>spawn_kernel\<close>. \<open>fork\<close> is given what the child does, a
  program over its own calls that ends with the child replaced or with a report, and answers the parent; the child's
  descriptors are its own copies and not the parent's.
\<close>

section \<open>State\<close>

record ChildState =
  is_open :: bool
  waited :: bool
  outRead :: int
  errRead :: int
  inWrite :: int
  pid :: int

definition new_state :: ChildState where
  "new_state = \<lparr>is_open = True, waited = False, outRead = - 1, errRead = - 1, inWrite = - 1, pid = - 1\<rparr>"

record 'w spawn_kernel =
  pipe2_cloexec :: "'w \<Rightarrow> (int \<times> int) sysret \<times> 'w"
  pipe_plain :: "'w \<Rightarrow> (int \<times> int) sysret \<times> 'w"
  getfd :: "int \<Rightarrow> 'w \<Rightarrow> int \<times> 'w"
  setfd :: "int \<Rightarrow> int \<Rightarrow> 'w \<Rightarrow> 'w"
  close_end :: "int \<Rightarrow> 'w \<Rightarrow> 'w"
  ignore_sigpipe :: "'w \<Rightarrow> 'w"
  getenv_path :: "'w \<Rightarrow> string option"
  own_environment :: "'w \<Rightarrow> string list"
  fork :: "('w \<Rightarrow> child_end \<times> 'w) \<Rightarrow> 'w \<Rightarrow> int sysret \<times> 'w"
  dup2 :: "int \<Rightarrow> int \<Rightarrow> 'w \<Rightarrow> 'w"
  default_sigpipe :: "'w \<Rightarrow> 'w"
  chdir :: "string \<Rightarrow> 'w \<Rightarrow> errno option \<times> 'w"
  execve :: "string \<Rightarrow> string list \<Rightarrow> string list \<Rightarrow> 'w \<Rightarrow> errno option \<times> 'w"
  read_report :: "int \<Rightarrow> 'w \<Rightarrow> ChildFailure option sysret \<times> 'w"
  read_end :: "int \<Rightarrow> nat \<Rightarrow> 'w \<Rightarrow> bytes sysret \<times> 'w"
  write_end :: "int \<Rightarrow> bytes \<Rightarrow> 'w \<Rightarrow> nat sysret \<times> 'w"
  waitpid :: "int \<Rightarrow> 'w \<Rightarrow> (int \<times> nat) sysret \<times> 'w"
  waitpid_nohang :: "int \<Rightarrow> 'w \<Rightarrow> 'w"
  kill_term :: "int \<Rightarrow> 'w \<Rightarrow> 'w"
  strerror :: "errno \<Rightarrow> string"
  is_linux :: bool

record 'w spawn_ctx =
  sigpipeIgnored :: bool
  host :: 'w

definition sp_call :: "('w \<Rightarrow> 'r \<times> 'w) \<Rightarrow> 'w spawn_ctx \<Rightarrow> 'r \<times> 'w spawn_ctx" where
  "sp_call f c = (case f (host c) of (r, w) \<Rightarrow> (r, c\<lparr>host := w\<rparr>))"

definition sp_do :: "('w \<Rightarrow> 'w) \<Rightarrow> 'w spawn_ctx \<Rightarrow> 'w spawn_ctx" where
  "sp_do f c = c\<lparr>host := f (host c)\<rparr>"

definition sp_retry :: "('w \<Rightarrow> 'r sysret \<times> 'w) \<Rightarrow> 'w spawn_ctx \<Rightarrow> ('r sysret \<times> 'w spawn_ctx) option" where
  "sp_retry f c = retry (sp_call f) interrupted c"

section \<open>Pipes\<close>

definition FD_CLOEXEC :: int where
  "FD_CLOEXEC = 1"

definition setCloseOnExec :: "'w spawn_kernel \<Rightarrow> int \<Rightarrow> 'w spawn_ctx \<Rightarrow> 'w spawn_ctx" where
  "setCloseOnExec K fd c =
     (case sp_call (getfd K fd) c of (fl, c) \<Rightarrow> if fl \<ge> 0 then sp_do (setfd K fd (fl OR FD_CLOEXEC)) c else c)"

definition plainPipe :: "'w spawn_kernel \<Rightarrow> 'w spawn_ctx \<Rightarrow> (int \<times> int) sysret \<times> 'w spawn_ctx" where
  "plainPipe K c =
     (case sp_call (pipe_plain K) c of
        (Err e, c) \<Rightarrow> (Err e, c)
      | (Ret (a, b), c) \<Rightarrow> (Ret (a, b), setCloseOnExec K b (setCloseOnExec K a c)))"

definition makePipe :: "'w spawn_kernel \<Rightarrow> 'w spawn_ctx \<Rightarrow> (int \<times> int) sysret \<times> 'w spawn_ctx" where
  "makePipe K c =
     (if is_linux K
      then (case sp_call (pipe2_cloexec K) c of
              (Ret ends, c) \<Rightarrow> (Ret ends, c)
            | (Err e, c) \<Rightarrow> if e \<noteq> ENOSYS then (Err e, c) else plainPipe K c)
      else plainPipe K c)"

text \<open>The ends are left at -1 by a pipe that is closed, or was never made.\<close>

definition closePipe :: "'w spawn_kernel \<Rightarrow> int \<times> int \<Rightarrow> 'w spawn_ctx \<Rightarrow> 'w spawn_ctx" where
  "closePipe K ends c =
     (case ends of
        (a, b) \<Rightarrow>
          let c = (if a \<ge> 0 then sp_do (close_end K a) c else c)
          in if b \<ge> 0 then sp_do (close_end K b) c else c)"

abbreviation no_pipe :: "int \<times> int" where
  "no_pipe \<equiv> (- 1, - 1)"

text \<open>The pipes of one start, made in turn: input, output, error, report.\<close>

record spawn_pipes =
  inputEnds :: "int \<times> int"
  outputEnds :: "int \<times> int"
  errorEnds :: "int \<times> int"
  reportEnds :: "int \<times> int"

definition make_pipes :: "'w spawn_kernel \<Rightarrow> 'w spawn_ctx \<Rightarrow> errno option \<times> spawn_pipes \<times> 'w spawn_ctx" where
  "make_pipes K c =
     (case makePipe K c of
        (Err e, c) \<Rightarrow> (Some e, \<lparr>inputEnds = no_pipe, outputEnds = no_pipe, errorEnds = no_pipe, reportEnds = no_pipe\<rparr>, c)
      | (Ret i, c) \<Rightarrow>
     (case makePipe K c of
        (Err e, c) \<Rightarrow> (Some e, \<lparr>inputEnds = i, outputEnds = no_pipe, errorEnds = no_pipe, reportEnds = no_pipe\<rparr>, c)
      | (Ret u, c) \<Rightarrow>
     (case makePipe K c of
        (Err e, c) \<Rightarrow> (Some e, \<lparr>inputEnds = i, outputEnds = u, errorEnds = no_pipe, reportEnds = no_pipe\<rparr>, c)
      | (Ret r, c) \<Rightarrow>
     (case makePipe K c of
        (Err e, c) \<Rightarrow> (Some e, \<lparr>inputEnds = i, outputEnds = u, errorEnds = r, reportEnds = no_pipe\<rparr>, c)
      | (Ret p, c) \<Rightarrow> (None, \<lparr>inputEnds = i, outputEnds = u, errorEnds = r, reportEnds = p\<rparr>, c)))))"

definition close_pipes :: "'w spawn_kernel \<Rightarrow> spawn_pipes \<Rightarrow> 'w spawn_ctx \<Rightarrow> 'w spawn_ctx" where
  "close_pipes K ps c = closePipe K (reportEnds ps) (closePipe K (errorEnds ps) (closePipe K (outputEnds ps) (closePipe K (inputEnds ps) c)))"

section \<open>Starting\<close>

definition child_main ::
  "'w spawn_kernel \<Rightarrow> spawn_pipes \<Rightarrow> string option \<Rightarrow> string list \<Rightarrow> string list \<Rightarrow> string list \<Rightarrow> 'w \<Rightarrow> child_end \<times> 'w" where
  "child_main K ps directory paths argv envp w =
     (let w = dup2 K (fst (inputEnds ps)) 0 w;
          w = dup2 K (snd (outputEnds ps)) 1 w;
          w = dup2 K (snd (errorEnds ps)) 2 w;
          w = default_sigpipe K w
      in case directory of
           None \<Rightarrow> exec_loop (\<lambda>p. execve K p argv envp) ENOENT False paths w
         | Some d \<Rightarrow>
             (case chdir K d w of
                (Some e, w) \<Rightarrow> (Reported \<lparr>failed_step = STEP_DIRECTORY, failed_error = e\<rparr>, w)
              | (None, w) \<Rightarrow> exec_loop (\<lambda>p. execve K p argv envp) ENOENT False paths w))"

text \<open>
  The parent's side of a fork that worked: whether the child was replaced, or what it reported. A report that is not
  all there is none.
\<close>

definition await_child ::
  "'w spawn_kernel \<Rightarrow> int \<Rightarrow> spawn_pipes \<Rightarrow> 'w spawn_ctx \<Rightarrow> (ChildFailure option \<times> spawn_pipes \<times> 'w spawn_ctx) option" where
  "await_child K child ps c =
     (let c = sp_do (close_end K (snd (reportEnds ps))) c;
          ps = ps\<lparr>reportEnds := (fst (reportEnds ps), - 1)\<rparr>
      in case sp_retry (read_report K (fst (reportEnds ps))) c of
           None \<Rightarrow> None
         | Some (Ret (Some f), c) \<Rightarrow>
             (case sp_retry (waitpid K child) c of
                None \<Rightarrow> None
              | Some (_, c) \<Rightarrow> Some (Some f, ps, c))
         | Some (_, c) \<Rightarrow> Some (None, ps, c))"

definition message600 :: "string \<Rightarrow> string" where
  "message600 s = take 599 s"

definition child_failed :: "'w spawn_kernel \<Rightarrow> string \<Rightarrow> string \<Rightarrow> ChildFailure \<Rightarrow> string" where
  "child_failed K directory name f =
     message600 (case failed_step f of
       STEP_DIRECTORY \<Rightarrow> ''Could not enter the working directory '' @ directory @ '': '' @ strerror K (failed_error f)
     | STEP_EXEC \<Rightarrow> ''Could not run '' @ name @ '': '' @ strerror K (failed_error f))"

definition not_started :: "'w spawn_kernel \<Rightarrow> errno \<Rightarrow> string" where
  "not_started K e = message600 (''Could not start the process: '' @ strerror K e)"

text \<open>The pipes, the fork and what is kept of them.\<close>

definition start_child ::
  "'w spawn_kernel \<Rightarrow> string \<Rightarrow> string option \<Rightarrow> string list \<Rightarrow> string list \<Rightarrow> string list \<Rightarrow> 'w spawn_ctx
    \<Rightarrow> (ChildState hx \<times> 'w spawn_ctx) option" where
  "start_child K name directory paths argv envp c =
     (case make_pipes K c of
        (Some e, ps, c) \<Rightarrow> Some (Inl (not_started K e), close_pipes K ps c)
      | (None, ps, c) \<Rightarrow>
          (case sp_call (fork K (child_main K ps directory paths argv envp)) c of
             (Err e, c) \<Rightarrow> Some (Inl (not_started K e), close_pipes K ps c)
           | (Ret child, c) \<Rightarrow>
               (case await_child K child ps c of
                  None \<Rightarrow> None
                | Some (Some f, ps, c) \<Rightarrow>
                    Some (Inl (child_failed K (case directory of None \<Rightarrow> [] | Some d \<Rightarrow> d) name f), close_pipes K ps c)
                | Some (None, ps, c) \<Rightarrow>
                    let c = sp_do (close_end K (fst (inputEnds ps))) c;
                        c = sp_do (close_end K (snd (outputEnds ps))) c;
                        c = sp_do (close_end K (snd (errorEnds ps))) c;
                        st = new_state\<lparr>pid := child, inWrite := snd (inputEnds ps), outRead := fst (outputEnds ps), errRead := fst (errorEnds ps)\<rparr>
                    in Some (Inr st, close_pipes K (ps\<lparr>inputEnds := no_pipe, outputEnds := no_pipe, errorEnds := no_pipe\<rparr>) c))))"

definition crossbyte_spawn_start ::
  "'w spawn_kernel \<Rightarrow> string option \<Rightarrow> string option list option \<Rightarrow> string option \<Rightarrow> string option list option \<Rightarrow> 'w spawn_ctx
    \<Rightarrow> (ChildState hx \<times> 'w spawn_ctx) option" where
  "crossbyte_spawn_start K executable arguments directory environment c =
     (if executable = None \<or> executable = Some [] then Some (Inl ''No executable to start'', c)
      else let c = (if \<not> sigpipeIgnored c then (sp_do (ignore_sigpipe K) c)\<lparr>sigpipeIgnored := True\<rparr> else c);
               values = utf8Of executable # map utf8Of (case arguments of None \<Rightarrow> [] | Some as \<Rightarrow> as);
               name = hd values;
               paths = candidates name (getenv_path K (host c));
               envp = (case environment of None \<Rightarrow> own_environment K (host c) | Some es \<Rightarrow> map utf8Of es)
           in start_child K name (map_option (\<lambda>d. utf8Of (Some d)) directory) paths values envp c)"

section \<open>Afterwards\<close>

text \<open>A handle that is not a child's, or whose child was freed, is \<open>None\<close>.\<close>

definition stateOf :: "ChildState option \<Rightarrow> ChildState hx" where
  "stateOf handle = (case handle of None \<Rightarrow> Inl ''Invalid process'' | Some st \<Rightarrow> Inr st)"

definition closeAll :: "'w spawn_kernel \<Rightarrow> ChildState \<Rightarrow> 'w spawn_ctx \<Rightarrow> ChildState \<times> 'w spawn_ctx" where
  "closeAll K st c =
     (if \<not> is_open st then (st, c)
      else let c = (if outRead st \<ge> 0 then sp_do (close_end K (outRead st)) c else c);
               c = (if errRead st \<ge> 0 then sp_do (close_end K (errRead st)) c else c);
               c = (if inWrite st \<ge> 0 then sp_do (close_end K (inWrite st)) c else c);
               c = (if \<not> waited st \<and> pid st > 0 then sp_do (waitpid_nohang K (pid st)) c else c)
           in (st\<lparr>is_open := False, outRead := - 1, errRead := - 1, inWrite := - 1\<rparr>, c))"

text \<open>What the collector does with a handle: it is freed, and no state after.\<close>

definition finalize :: "'w spawn_kernel \<Rightarrow> ChildState option \<Rightarrow> 'w spawn_ctx \<Rightarrow> ChildState option \<times> 'w spawn_ctx" where
  "finalize K handle c = (case handle of None \<Rightarrow> (None, c) | Some st \<Rightarrow> (None, snd (closeAll K st c)))"

definition crossbyte_spawn_read ::
  "'w spawn_kernel \<Rightarrow> ChildState option \<Rightarrow> bool \<Rightarrow> bytes option \<Rightarrow> int \<Rightarrow> int \<Rightarrow> 'w spawn_ctx
    \<Rightarrow> ((int \<times> bytes option) hx \<times> 'w spawn_ctx) option" where
  "crossbyte_spawn_read K handle fromError buffer offset len c =
     (case stateOf handle of
        Inl e \<Rightarrow> Some (Inl e, c)
      | Inr st \<Rightarrow>
          (case buffer of
             None \<Rightarrow> Some (Inr (0, buffer), c)
           | Some buf \<Rightarrow>
               if offset < 0 \<or> len \<le> 0 \<or> offset > int (length buf) \<or> len > int (length buf) - offset then Some (Inr (0, buffer), c)
               else let fd = (if fromError then errRead st else outRead st)
                    in if fd < 0 then Some (Inr (0, buffer), c)
                       else (case sp_retry (read_end K fd (nat len)) c of
                               None \<Rightarrow> None
                             | Some (Err _, c) \<Rightarrow> Some (Inr (0, buffer), c)
                             | Some (Ret bs, c) \<Rightarrow>
                                 map_option (\<lambda>buf. (Inr (int (length bs), Some buf), c)) (blit buf (nat offset) bs))))"

definition crossbyte_spawn_write ::
  "'w spawn_kernel \<Rightarrow> ChildState option \<Rightarrow> bytes option \<Rightarrow> int \<Rightarrow> int \<Rightarrow> 'w spawn_ctx \<Rightarrow> (int hx \<times> 'w spawn_ctx) option" where
  "crossbyte_spawn_write K handle buffer offset len c =
     (case stateOf handle of
        Inl e \<Rightarrow> Some (Inl e, c)
      | Inr st \<Rightarrow>
          (case buffer of
             None \<Rightarrow> Some (Inr (- 1), c)
           | Some buf \<Rightarrow>
               if bad_span offset len (int (length buf)) then Some (Inr (- 1), c)
               else if len = 0 then Some (Inr 0, c)
               else if inWrite st < 0 then Some (Inr (- 1), c)
               else (case sp_retry (write_end K (inWrite st) (slice (nat offset) (nat len) buf)) c of
                       None \<Rightarrow> None
                     | Some (Err _, c) \<Rightarrow> Some (Inr (- 1), c)
                     | Some (Ret n, c) \<Rightarrow> Some (Inr (int n), c))))"

definition crossbyte_spawn_close_input :: "'w spawn_kernel \<Rightarrow> ChildState option \<Rightarrow> 'w spawn_ctx \<Rightarrow> ChildState hx \<times> 'w spawn_ctx" where
  "crossbyte_spawn_close_input K handle c =
     (case stateOf handle of
        Inl e \<Rightarrow> (Inl e, c)
      | Inr st \<Rightarrow>
          if inWrite st \<ge> 0 then (Inr (st\<lparr>inWrite := - 1\<rparr>), sp_do (close_end K (inWrite st)) c) else (Inr st, c))"

definition crossbyte_spawn_kill :: "'w spawn_kernel \<Rightarrow> ChildState option \<Rightarrow> 'w spawn_ctx \<Rightarrow> ChildState hx \<times> 'w spawn_ctx" where
  "crossbyte_spawn_kill K handle c =
     (case stateOf handle of
        Inl e \<Rightarrow> (Inl e, c)
      | Inr st \<Rightarrow> if \<not> is_open st \<or> waited st then (Inr st, c) else (Inr st, sp_do (kill_term K (pid st)) c))"

definition WIFEXITED :: "nat \<Rightarrow> bool" where
  "WIFEXITED status = (status mod 128 = 0)"

definition WEXITSTATUS :: "nat \<Rightarrow> nat" where
  "WEXITSTATUS status = (status div 256) mod 256"

definition WIFSIGNALED :: "nat \<Rightarrow> bool" where
  "WIFSIGNALED status = (status mod 128 \<noteq> 0 \<and> status mod 128 \<noteq> 127)"

definition WTERMSIG :: "nat \<Rightarrow> nat" where
  "WTERMSIG status = status mod 128"

definition wait_code :: "int \<Rightarrow> (int \<times> nat) sysret \<Rightarrow> int" where
  "wait_code p r =
     (case r of
        Err _ \<Rightarrow> 0
      | Ret (got, status) \<Rightarrow>
          if got \<noteq> p then 0
          else if WIFEXITED status then int (WEXITSTATUS status)
          else if WIFSIGNALED status then 128 + int (WTERMSIG status)
          else 0)"

definition crossbyte_spawn_wait ::
  "'w spawn_kernel \<Rightarrow> ChildState option \<Rightarrow> 'w spawn_ctx \<Rightarrow> ((int \<times> ChildState) hx \<times> 'w spawn_ctx) option" where
  "crossbyte_spawn_wait K handle c =
     (case stateOf handle of
        Inl e \<Rightarrow> Some (Inl e, c)
      | Inr st \<Rightarrow>
          if \<not> is_open st then Some (Inl ''Process closed'', c)
          else (case sp_retry (waitpid K (pid st)) c of
                  None \<Rightarrow> None
                | Some (r, c) \<Rightarrow> Some (Inr (wait_code (pid st) r, st\<lparr>waited := True\<rparr>), c)))"

definition crossbyte_spawn_pid :: "ChildState option \<Rightarrow> int hx" where
  "crossbyte_spawn_pid handle = (case stateOf handle of Inl e \<Rightarrow> Inl e | Inr st \<Rightarrow> Inr (pid st))"

definition crossbyte_spawn_close :: "'w spawn_kernel \<Rightarrow> ChildState option \<Rightarrow> 'w spawn_ctx \<Rightarrow> ChildState hx \<times> 'w spawn_ctx" where
  "crossbyte_spawn_close K handle c =
     (case stateOf handle of
        Inl e \<Rightarrow> (Inl e, c)
      | Inr st \<Rightarrow> (case closeAll K st c of (st, c) \<Rightarrow> (Inr st, c)))"

end
