(* ===== verification/Spawn_Handles.thy ===== *)
theory Spawn_Handles
  imports Spawn_Child
begin

text \<open>
  What a start of a child and all that may follow it do with the system's resources on POSIX: no descriptor is leaked or
  closed twice and no child is left unreaped by a start that failed (\<open>spawn_descriptors\<close>); a state is always well formed,
  and one that is closed makes no call (\<open>spawn_child_wf\<close>); a start answers what became of the child
  (\<open>spawn_start_outcome\<close>).
\<close>

section \<open>Descriptors and children\<close>

text \<open>
  \<open>fds\<close> are the descriptors open, \<open>kids\<close> the children not yet reaped. A pipe is two new descriptors, a fork a new child, a
  close takes one away, a wait that was not interrupted leaves no such child, and no other call changes either.
\<close>

definition makes_pipe :: "('w \<Rightarrow> int set) \<Rightarrow> ('w \<Rightarrow> (int \<times> int) sysret \<times> 'w) \<Rightarrow> bool" where
  "makes_pipe fds f \<longleftrightarrow>
     (\<forall>w e w'. f w = (Err e, w') \<longrightarrow> fds w' = fds w) \<and>
     (\<forall>w a b w'. f w = (Ret (a, b), w') \<longrightarrow> 0 \<le> a \<and> 0 \<le> b \<and> a \<noteq> b \<and> a \<notin> fds w \<and> b \<notin> fds w \<and> fds w' = {a, b} \<union> fds w)"

definition tracks_spawn :: "'w spawn_kernel \<Rightarrow> ('w \<Rightarrow> int set) \<Rightarrow> ('w \<Rightarrow> int set) \<Rightarrow> bool" where
  "tracks_spawn K fds kids \<longleftrightarrow>
     makes_pipe fds (pipe2_cloexec K) \<and> makes_pipe fds (pipe_plain K) \<and>
     keeps kids (pipe2_cloexec K) \<and> keeps kids (pipe_plain K) \<and>
     (\<forall>fd w. fds (close_end K fd w) = fds w - {fd} \<and> kids (close_end K fd w) = kids w) \<and>
     (\<forall>fd. keeps (\<lambda>w. (fds w, kids w)) (getfd K fd)) \<and>
     (\<forall>fd n w. fds (setfd K fd n w) = fds w \<and> kids (setfd K fd n w) = kids w) \<and>
     (\<forall>w. fds (ignore_sigpipe K w) = fds w \<and> kids (ignore_sigpipe K w) = kids w) \<and>
     (\<forall>child. keeps fds (fork K child)) \<and>
     (\<forall>child w e w'. fork K child w = (Err e, w') \<longrightarrow> kids w' = kids w) \<and>
     (\<forall>child w p w'. fork K child w = (Ret p, w') \<longrightarrow> 0 < p \<and> p \<notin> kids w \<and> kids w' = insert p (kids w)) \<and>
     (\<forall>fd. keeps (\<lambda>w. (fds w, kids w)) (read_report K fd)) \<and> (\<forall>fd n. keeps (\<lambda>w. (fds w, kids w)) (read_end K fd n)) \<and>
     (\<forall>fd bs. keeps (\<lambda>w. (fds w, kids w)) (write_end K fd bs)) \<and>
     (\<forall>p. keeps fds (waitpid K p)) \<and>
     (\<forall>p w r w'. waitpid K p w = (r, w') \<longrightarrow> kids w' = (if interrupted r then kids w else kids w - {p})) \<and>
     (\<forall>p w. fds (waitpid_nohang K p w) = fds w \<and> kids (waitpid_nohang K p w) \<subseteq> kids w) \<and>
     (\<forall>p w. fds (kill_term K p w) = fds w \<and> kids (kill_term K p w) = kids w)"

abbreviation res :: "('w \<Rightarrow> int set) \<Rightarrow> ('w \<Rightarrow> int set) \<Rightarrow> 'w spawn_ctx \<Rightarrow> int set \<times> int set" where
  "res fds kids c \<equiv> (fds (host c), kids (host c))"

lemma sp_callD: "sp_call f c = (r, c') \<Longrightarrow> f (host c) = (r, host c')"
  by (auto simp: sp_call_def split: prod.splits)

lemma sp_keepsD: "keeps obs f \<Longrightarrow> sp_call f c = (r, c') \<Longrightarrow> obs (host c') = obs (host c)"
  unfolding keeps_def by (metis sp_callD snd_conv)

lemma makes_pipeD:
  assumes "makes_pipe fds f"
  shows "sp_call f c = (Err e, c') \<Longrightarrow> fds (host c') = fds (host c)"
    and "sp_call f c = (Ret (a, b), c') \<Longrightarrow>
      0 \<le> a \<and> 0 \<le> b \<and> a \<noteq> b \<and> a \<notin> fds (host c) \<and> b \<notin> fds (host c) \<and> fds (host c') = {a, b} \<union> fds (host c)"
  using assms unfolding makes_pipe_def by (blast dest: sp_callD)+

lemma tracks_spawnD:
  assumes "tracks_spawn K fds kids"
  shows "makes_pipe fds (pipe2_cloexec K)" "makes_pipe fds (pipe_plain K)" "keeps kids (pipe2_cloexec K)" "keeps kids (pipe_plain K)"
    "keeps (\<lambda>w. (fds w, kids w)) (getfd K fd)" "keeps fds (fork K child)" "keeps (\<lambda>w. (fds w, kids w)) (read_report K fd)"
    "keeps (\<lambda>w. (fds w, kids w)) (read_end K fd n)" "keeps (\<lambda>w. (fds w, kids w)) (write_end K fd bs)" "keeps fds (waitpid K p)"
  using assms by (simp_all add: tracks_spawn_def)

lemma tracks_spawn_do [simp]:
  assumes "tracks_spawn K fds kids"
  shows "fds (host (sp_do (close_end K fd) c)) = fds (host c) - {fd}" "kids (host (sp_do (close_end K fd) c)) = kids (host c)"
    "fds (host (sp_do (setfd K fd n) c)) = fds (host c)" "kids (host (sp_do (setfd K fd n) c)) = kids (host c)"
    "fds (host (sp_do (ignore_sigpipe K) c)) = fds (host c)" "kids (host (sp_do (ignore_sigpipe K) c)) = kids (host c)"
    "fds (host (sp_do (waitpid_nohang K p) c)) = fds (host c)"
    "fds (host (sp_do (kill_term K p) c)) = fds (host c)" "kids (host (sp_do (kill_term K p) c)) = kids (host c)"
  using assms by (simp_all add: tracks_spawn_def sp_do_def)

lemma sp_retryD:
  assumes "sp_retry f c = Some (r, c')" and "\<And>r c c'. sp_call f c = (r, c') \<Longrightarrow> interrupted r \<Longrightarrow> Q c \<Longrightarrow> Q c'" and "Q c"
  shows "\<exists>c1. Q c1 \<and> sp_call f c1 = (r, c') \<and> \<not> interrupted r"
  using retry_invariant_again [OF assms(1) [unfolded sp_retry_def], of Q] assms(2,3) by (metis fst_conv prod.collapse)

lemma sp_retry_keeps:
  assumes "keeps obs f" "sp_retry f c = Some (r, c')"
  shows "obs (host c') = obs (host c)"
proof -
  have "\<exists>c1. obs (host c1) = obs (host c) \<and> sp_call f c1 = (r, c') \<and> \<not> interrupted r"
    by (rule sp_retryD [OF assms(2)]) (use sp_keepsD [OF assms(1)] in auto)
  then show ?thesis using sp_keepsD [OF assms(1)] by auto
qed

lemma fork_kids:
  assumes "tracks_spawn K fds kids"
  shows "sp_call (fork K child) c = (Err e, c') \<Longrightarrow> res fds kids c' = res fds kids c"
    and "sp_call (fork K child) c = (Ret p, c') \<Longrightarrow>
      fds (host c') = fds (host c) \<and> 0 < p \<and> p \<notin> kids (host c) \<and> kids (host c') = insert p (kids (host c))"
proof -
  note f = sp_keepsD [OF tracks_spawnD(6) [OF assms]]
  show "res fds kids c' = res fds kids c" if "sp_call (fork K child) c = (Err e, c')"
    using assms sp_callD [OF that] f [OF that] unfolding tracks_spawn_def by simp
  show "fds (host c') = fds (host c) \<and> 0 < p \<and> p \<notin> kids (host c) \<and> kids (host c') = insert p (kids (host c))"
    if "sp_call (fork K child) c = (Ret p, c')"
    using assms sp_callD [OF that] f [OF that] unfolding tracks_spawn_def by simp
qed

lemma wait_kids:
  assumes "tracks_spawn K fds kids" "sp_retry (waitpid K p) c = Some (r, c')"
  shows "fds (host c') = fds (host c) \<and> kids (host c') = kids (host c) - {p}"
proof -
  have w: "kids (host c') = (if interrupted r then kids (host c) else kids (host c) - {p})" if "sp_call (waitpid K p) c = (r, c')" for c r c'
    using assms(1) sp_callD [OF that] unfolding tracks_spawn_def by simp
  have "\<exists>c1. kids (host c1) = kids (host c) \<and> sp_call (waitpid K p) c1 = (r, c') \<and> \<not> interrupted r"
    by (rule sp_retryD [OF assms(2)]) (use w in auto)
  then show ?thesis using w sp_retry_keeps [OF tracks_spawnD(10) [OF assms(1)] assms(2)] by auto
qed


definition ends_of :: "int \<times> int \<Rightarrow> int set" where
  "ends_of p = {e \<in> {fst p, snd p}. 0 \<le> e}"

definition all_ends :: "spawn_pipes \<Rightarrow> int set" where
  "all_ends ps = ends_of (inputEnds ps) \<union> ends_of (outputEnds ps) \<union> ends_of (errorEnds ps) \<union> ends_of (reportEnds ps)"

lemma ends_of_simps [simp]: "ends_of no_pipe = {}" "0 \<le> a \<Longrightarrow> 0 \<le> b \<Longrightarrow> ends_of (a, b) = {a, b}" "0 \<le> a \<Longrightarrow> ends_of (a, - 1) = {a}"
  by (auto simp: ends_of_def)

lemma setCloseOnExec_res [simp]:
  assumes "tracks_spawn K fds kids"
  shows "fds (host (setCloseOnExec K fd c)) = fds (host c)" "kids (host (setCloseOnExec K fd c)) = kids (host c)"
  using assms sp_keepsD [OF tracks_spawnD(5) [OF assms], of fd c] by (auto simp: setCloseOnExec_def split: prod.splits)

text \<open>A pipe of a start: two new descriptors.\<close>

definition new_ends :: "int set \<Rightarrow> int \<times> int \<Rightarrow> bool" where
  "new_ends F p \<longleftrightarrow> 0 \<le> fst p \<and> 0 \<le> snd p \<and> fst p \<noteq> snd p \<and> fst p \<notin> F \<and> snd p \<notin> F"

lemma plainPipe_res:
  assumes "tracks_spawn K fds kids" "plainPipe K c = (r, c')"
  shows "kids (host c') = kids (host c) \<and>
    (case r of Err e \<Rightarrow> fds (host c') = fds (host c) | Ret p \<Rightarrow> new_ends (fds (host c)) p \<and> fds (host c') = ends_of p \<union> fds (host c))"
  using assms makes_pipeD [OF tracks_spawnD(2) [OF assms(1)], of c] sp_keepsD [OF tracks_spawnD(4) [OF assms(1)], of c]
  by (cases r) (auto simp: plainPipe_def new_ends_def split: prod.splits sysret.splits)

lemma makePipe_res:
  assumes "tracks_spawn K fds kids" "makePipe K c = (r, c')"
  shows "kids (host c') = kids (host c) \<and>
    (case r of Err e \<Rightarrow> fds (host c') = fds (host c) | Ret p \<Rightarrow> new_ends (fds (host c)) p \<and> fds (host c') = ends_of p \<union> fds (host c))"
proof (cases "is_linux K")
  case False
  then show ?thesis using plainPipe_res [OF assms(1)] assms(2) by (simp add: makePipe_def)
next
  case True
  obtain x c1 where x: "sp_call (pipe2_cloexec K) c = (x, c1)" by fastforce
  note k = sp_keepsD [OF tracks_spawnD(3) [OF assms(1)] x] and p = makes_pipeD [OF tracks_spawnD(1) [OF assms(1)], of c]
  show ?thesis
  proof (cases x)
    case (Ret q)
    then show ?thesis using True assms(2) x k p(2) [of "fst q" "snd q" c1] by (cases q) (auto simp: makePipe_def new_ends_def)
  next
    case (Err e)
    then show ?thesis using True assms(2) x k p(1) [of e c1] plainPipe_res [OF assms(1), of c1 r c'] by (cases r) (auto simp: makePipe_def split: if_splits)
  qed
qed

lemma closePipe_res [simp]:
  assumes "tracks_spawn K fds kids"
  shows "fds (host (closePipe K p c)) = fds (host c) - ends_of p" "kids (host (closePipe K p c)) = kids (host c)"
  using assms by (cases p; auto simp: closePipe_def ends_of_def Let_def)+

lemma close_pipes_res [simp]:
  assumes "tracks_spawn K fds kids"
  shows "fds (host (close_pipes K ps c)) = fds (host c) - all_ends ps" "kids (host (close_pipes K ps c)) = kids (host c)"
  using assms by (auto simp: close_pipes_def all_ends_def)

definition new_pipes :: "int set \<Rightarrow> spawn_pipes \<Rightarrow> bool" where
  "new_pipes F ps \<longleftrightarrow> new_ends F (inputEnds ps) \<and> new_ends (ends_of (inputEnds ps) \<union> F) (outputEnds ps)
     \<and> new_ends (ends_of (outputEnds ps) \<union> (ends_of (inputEnds ps) \<union> F)) (errorEnds ps)
     \<and> new_ends (ends_of (errorEnds ps) \<union> (ends_of (outputEnds ps) \<union> (ends_of (inputEnds ps) \<union> F))) (reportEnds ps)"

lemma new_ends_of: "new_ends F p \<Longrightarrow> ends_of p = {fst p, snd p}" "new_ends F p \<Longrightarrow> x \<in> ends_of p \<Longrightarrow> x \<notin> F"
  by (cases p; auto simp: new_ends_def)+

lemma make_pipes_res:
  assumes "tracks_spawn K fds kids" "make_pipes K c = (e, ps, c')"
  shows "kids (host c') = kids (host c) \<and> fds (host c') = all_ends ps \<union> fds (host c) \<and> all_ends ps \<inter> fds (host c) = {}
    \<and> (e = None \<longrightarrow> new_pipes (fds (host c)) ps)"
proof -
  obtain x1 c1 where 1: "makePipe K c = (x1, c1)" by fastforce
  obtain x2 c2 where 2: "makePipe K c1 = (x2, c2)" by fastforce
  obtain x3 c3 where 3: "makePipe K c2 = (x3, c3)" by fastforce
  obtain x4 c4 where 4: "makePipe K c3 = (x4, c4)" by fastforce
  note r = makePipe_res [OF assms(1) 1] makePipe_res [OF assms(1) 2] makePipe_res [OF assms(1) 3] makePipe_res [OF assms(1) 4]
  show ?thesis
  proof (cases x1)
    case (Err e)
    then show ?thesis using assms(2) 1 r(1) by (auto simp: make_pipes_def all_ends_def)
  next
    case p1: (Ret i)
    show ?thesis
    proof (cases x2)
      case (Err e)
      then show ?thesis using assms(2) 1 2 p1 r(1,2) by (auto simp: make_pipes_def all_ends_def dest: new_ends_of(2))
    next
      case p2: (Ret u)
      show ?thesis
      proof (cases x3)
        case (Err e)
        then show ?thesis using assms(2) 1 2 3 p1 p2 r(1,2,3) by (auto simp: make_pipes_def all_ends_def dest: new_ends_of(2))
      next
        case p3: (Ret v)
        show ?thesis
          using assms(2) 1 2 3 4 p1 p2 p3 r by (cases x4) (auto simp: make_pipes_def all_ends_def new_pipes_def dest: new_ends_of(2))
      qed
    qed
  qed
qed

lemma await_res:
  assumes "tracks_spawn K fds kids" "await_child K p ps c = Some (f, ps', c')"
  shows "ps' = ps\<lparr>reportEnds := (fst (reportEnds ps), - 1)\<rparr> \<and> fds (host c') = fds (host c) - {snd (reportEnds ps)}
    \<and> kids (host c') = (if f = None then kids (host c) else kids (host c) - {p})"
proof -
  let ?c = "sp_do (close_end K (snd (reportEnds ps))) c"
  obtain r c1 where r: "sp_retry (read_report K (fst (reportEnds ps))) ?c = Some (r, c1)"
    using assms(2) by (auto simp: await_child_def Let_def split: option.splits)
  note k = sp_retry_keeps [OF tracks_spawnD(7) [OF assms(1)] r]
  show ?thesis
  proof (cases "\<exists>g. r = Ret (Some g)")
    case True
    then obtain g s where g: "r = Ret (Some g)" "sp_retry (waitpid K p) c1 = Some (s, c')" "f = Some g"
      "ps' = ps\<lparr>reportEnds := (fst (reportEnds ps), - 1)\<rparr>"
      using assms(2) r by (auto simp: await_child_def Let_def split: option.splits)
    then show ?thesis using k wait_kids [OF assms(1) g(2)] assms(1) by simp
  next
    case False
    then show ?thesis using assms(2) r k assms(1) by (auto simp: await_child_def Let_def split: option.splits sysret.splits)
  qed
qed


definition live_ends :: "ChildState \<Rightarrow> int set" where
  "live_ends st = {e \<in> {outRead st, errRead st, inWrite st}. 0 \<le> e}"

lemma new_pipes_distinct:
  assumes "new_pipes F ps"
  shows "distinct [fst (inputEnds ps), snd (inputEnds ps), fst (outputEnds ps), snd (outputEnds ps), fst (errorEnds ps), snd (errorEnds ps),
      fst (reportEnds ps), snd (reportEnds ps)]"
    and "0 \<le> fst (inputEnds ps)" "0 \<le> snd (inputEnds ps)" "0 \<le> fst (outputEnds ps)" "0 \<le> snd (outputEnds ps)"
    "0 \<le> fst (errorEnds ps)" "0 \<le> snd (errorEnds ps)" "0 \<le> fst (reportEnds ps)" "0 \<le> snd (reportEnds ps)"
  using assms by (auto simp: new_pipes_def new_ends_def new_ends_of(1))

lemma three_kept:
  assumes "distinct [i0, i1, u0, u1, e0, e1, r0, r1]" "{i0, i1, u0, u1, e0, e1, r0, r1} \<inter> F = {}"
  shows "(F \<union> {i0, i1, u0, u1, e0, e1, r0, r1}) - {r1, i0, u1, e1, r0} = F \<union> {u0, e0, i1 :: int}" and "{u0, e0, i1} \<inter> F = {}"
  using assms by fastforce+

lemma start_child_res:
  assumes "tracks_spawn K fds kids" "start_child K name directory paths argv envp c = Some (r, c')"
  shows "case r of
      Inl e \<Rightarrow> fds (host c') = fds (host c) \<and> kids (host c') = kids (host c)
    | Inr st \<Rightarrow> distinct [outRead st, errRead st, inWrite st] \<and> 0 \<le> outRead st \<and> 0 \<le> errRead st \<and> 0 \<le> inWrite st
        \<and> live_ends st \<inter> fds (host c) = {} \<and> fds (host c') = fds (host c) \<union> live_ends st
        \<and> 0 < pid st \<and> pid st \<notin> kids (host c) \<and> kids (host c') = insert (pid st) (kids (host c)) \<and> is_open st \<and> \<not> waited st"
proof -
  obtain e ps c1 where m: "make_pipes K c = (e, ps, c1)" by (metis prod_cases3)
  note mp = make_pipes_res [OF assms(1) m]
  show ?thesis
  proof (cases e)
    case (Some e')
    then have "r = Inl (not_started K e')" "c' = close_pipes K ps c1" using assms(2) m by (auto simp: start_child_def)
    then show ?thesis using mp assms(1) by auto
  next
    case None
    obtain x c2 where x: "sp_call (fork K (child_main K ps directory paths argv envp)) c1 = (x, c2)" by fastforce
    note fk = fork_kids [OF assms(1), of "child_main K ps directory paths argv envp" c1]
    show ?thesis
    proof (cases x)
      case (Err e')
      then have "r = Inl (not_started K e')" "c' = close_pipes K ps c2" using assms(2) m x None by (auto simp: start_child_def)
      then show ?thesis using mp fk(1) [OF x [unfolded Err]] assms(1) by auto
    next
      case (Ret p)
      note fk2 = fk(2) [OF x [unfolded Ret]]
      obtain f ps' c3 where a: "await_child K p ps c2 = Some (f, ps', c3)"
        using assms(2) m x None Ret by (auto simp: start_child_def split: option.splits)
      note aw = await_res [OF assms(1) a]
      have np: "new_pipes (fds (host c)) ps" using mp None by simp
      note d = new_pipes_distinct [OF np]
      have all: "all_ends ps = {fst (inputEnds ps), snd (inputEnds ps), fst (outputEnds ps), snd (outputEnds ps), fst (errorEnds ps),
          snd (errorEnds ps), fst (reportEnds ps), snd (reportEnds ps)}"
        using d(2-) by (auto simp: all_ends_def ends_of_def)
      have all': "all_ends ps' \<union> {snd (reportEnds ps)} = all_ends ps" using aw d(2-) by (auto simp: all_ends_def ends_of_def)
      show ?thesis
      proof (cases f)
        case (Some g)
        then have "r = Inl (child_failed K (case directory of None \<Rightarrow> [] | Some d \<Rightarrow> d) name g)" "c' = close_pipes K ps' c3"
          using assms(2) m x None Ret a by (auto simp: start_child_def)
        then show ?thesis using mp fk2 aw all' Some assms(1) by auto
      next
        case None
        let ?ps = "ps'\<lparr>inputEnds := no_pipe, outputEnds := no_pipe, errorEnds := no_pipe\<rparr>"
        have c': "c' = close_pipes K ?ps (sp_do (close_end K (snd (errorEnds ps))) (sp_do (close_end K (snd (outputEnds ps)))
            (sp_do (close_end K (fst (inputEnds ps))) c3)))"
          and r: "r = Inr (new_state\<lparr>pid := p, inWrite := snd (inputEnds ps), outRead := fst (outputEnds ps), errRead := fst (errorEnds ps)\<rparr>)"
          using assms(2) m x \<open>e = None\<close> Ret a None aw by (auto simp: start_child_def Let_def)
        have rep: "all_ends ?ps = {fst (reportEnds ps)}" using aw d(8) by (simp add: all_ends_def)
        have "fds (host c') = (fds (host c) \<union> all_ends ps) - {snd (reportEnds ps), fst (inputEnds ps), snd (outputEnds ps), snd (errorEnds ps), fst (reportEnds ps)}"
          unfolding c' using mp fk2 aw rep assms(1) by auto
        then have f: "fds (host c') = fds (host c) \<union> {fst (outputEnds ps), fst (errorEnds ps), snd (inputEnds ps)}"
          "{fst (outputEnds ps), fst (errorEnds ps), snd (inputEnds ps)} \<inter> fds (host c) = {}"
          using three_kept [OF d(1), of "fds (host c)"] mp unfolding all by simp_all
        have k: "kids (host c') = insert p (kids (host c))" unfolding c' using mp fk2 aw None assms(1) by simp
        have l: "live_ends (new_state\<lparr>pid := p, inWrite := snd (inputEnds ps), outRead := fst (outputEnds ps), errRead := fst (errorEnds ps)\<rparr>)
            = {fst (outputEnds ps), fst (errorEnds ps), snd (inputEnds ps)}"
          using d(2-) by (auto simp: live_ends_def)
        have "distinct [fst (outputEnds ps), fst (errorEnds ps), snd (inputEnds ps)]" using d(1) by auto
        then show ?thesis unfolding r sum.case l using f k d(2-) fk2 mp by (simp add: new_state_def)
      qed
    qed
  qed
qed


lemma start_res:
  assumes "tracks_spawn K fds kids" "crossbyte_spawn_start K executable arguments directory environment c = Some (r, c')"
  shows "case r of
      Inl e \<Rightarrow> fds (host c') = fds (host c) \<and> kids (host c') = kids (host c)
    | Inr st \<Rightarrow> distinct [outRead st, errRead st, inWrite st] \<and> 0 \<le> outRead st \<and> 0 \<le> errRead st \<and> 0 \<le> inWrite st
        \<and> live_ends st \<inter> fds (host c) = {} \<and> fds (host c') = fds (host c) \<union> live_ends st
        \<and> 0 < pid st \<and> pid st \<notin> kids (host c) \<and> kids (host c') = insert (pid st) (kids (host c)) \<and> is_open st \<and> \<not> waited st"
proof (cases "executable = None \<or> executable = Some []")
  case True
  then show ?thesis using assms(2) by (auto simp: crossbyte_spawn_start_def)
next
  case False
  define c0 where "c0 = (if \<not> sigpipeIgnored c then (sp_do (ignore_sigpipe K) c)\<lparr>sigpipeIgnored := True\<rparr> else c)"
  have same: "fds (host c0) = fds (host c)" "kids (host c0) = kids (host c)" using assms(1) by (auto simp: c0_def)
  obtain name d paths argv envp where s: "start_child K name d paths argv envp c0 = Some (r, c')"
    using assms(2) False by (auto simp: crossbyte_spawn_start_def Let_def c0_def [symmetric])
  from start_child_res [OF assms(1) s] show ?thesis unfolding same .
qed

section \<open>After a start\<close>

datatype child_op = CloseInput | Kill | Wait | Read bool bytes int int | Write bytes int int | Close

text \<open>A call on a child, by what it leaves of the state. One that throws changes nothing.\<close>

fun child_apply :: "'w spawn_kernel \<Rightarrow> child_op \<Rightarrow> ChildState \<Rightarrow> 'w spawn_ctx \<Rightarrow> (ChildState \<times> 'w spawn_ctx) option" where
  "child_apply K CloseInput st c = (case crossbyte_spawn_close_input K (Some st) c of (r, c) \<Rightarrow> Some (case_sum (\<lambda>_. st) id r, c))"
| "child_apply K Kill st c = (case crossbyte_spawn_kill K (Some st) c of (r, c) \<Rightarrow> Some (case_sum (\<lambda>_. st) id r, c))"
| "child_apply K Wait st c = map_option (\<lambda>(r, c). (case_sum (\<lambda>_. st) snd r, c)) (crossbyte_spawn_wait K (Some st) c)"
| "child_apply K (Read e buf p n) st c = map_option (\<lambda>(r, c). (st, c)) (crossbyte_spawn_read K (Some st) e (Some buf) p n c)"
| "child_apply K (Write buf p n) st c = map_option (\<lambda>(r, c). (st, c)) (crossbyte_spawn_write K (Some st) (Some buf) p n c)"
| "child_apply K Close st c = (case crossbyte_spawn_close K (Some st) c of (r, c) \<Rightarrow> Some (case_sum (\<lambda>_. st) id r, c))"

fun child_applies :: "'w spawn_kernel \<Rightarrow> child_op list \<Rightarrow> ChildState \<Rightarrow> 'w spawn_ctx \<Rightarrow> (ChildState \<times> 'w spawn_ctx) option" where
  "child_applies K [] st c = Some (st, c)"
| "child_applies K (op # ops) st c = (case child_apply K op st c of None \<Rightarrow> None | Some (st, c) \<Rightarrow> child_applies K ops st c)"

text \<open>
  The ends a state has are open and apart from each other and from everything else that is open; a child waited for is
  reaped.
\<close>

definition apart :: "ChildState \<Rightarrow> bool" where
  "apart st \<longleftrightarrow> (0 \<le> inWrite st \<longrightarrow> outRead st \<noteq> inWrite st \<and> errRead st \<noteq> inWrite st) \<and> (0 \<le> outRead st \<longrightarrow> outRead st \<noteq> errRead st)"

definition owns :: "('w \<Rightarrow> int set) \<Rightarrow> ('w \<Rightarrow> int set) \<Rightarrow> int set \<Rightarrow> ChildState \<Rightarrow> 'w spawn_ctx \<Rightarrow> bool" where
  "owns fds kids F st c \<longleftrightarrow> fds (host c) = F \<union> live_ends st \<and> live_ends st \<inter> F = {}
     \<and> apart st \<and> (waited st \<longrightarrow> pid st \<notin> kids (host c))"

text \<open>\<open>- 1\<close> for an end that was closed.\<close>

definition wf_child :: "ChildState \<Rightarrow> bool" where
  "wf_child st \<longleftrightarrow> 0 < pid st \<and> (\<forall>e \<in> {outRead st, errRead st, inWrite st}. - 1 \<le> e)
     \<and> (\<not> is_open st \<longrightarrow> outRead st = - 1 \<and> errRead st = - 1 \<and> inWrite st = - 1)"

lemma sp_kept:
  assumes "tracks_spawn K fds kids"
  shows "sp_retry (read_end K fd n) c = Some (r, c') \<Longrightarrow> fds (host c') = fds (host c) \<and> kids (host c') = kids (host c)"
    and "sp_retry (write_end K fd bs) c = Some (x, c') \<Longrightarrow> fds (host c') = fds (host c) \<and> kids (host c') = kids (host c)"
  using sp_retry_keeps [OF tracks_spawnD(8) [OF assms], of fd n c r c'] sp_retry_keeps [OF tracks_spawnD(9) [OF assms], of fd bs c x c'] by auto

lemma close_if:
  assumes "tracks_spawn K fds kids"
  shows "fds (host (if a \<ge> 0 then sp_do (close_end K a) c else c)) = fds (host c) - {x. x = a \<and> 0 \<le> x}"
    and "kids (host (if a \<ge> 0 then sp_do (close_end K a) c else c)) = kids (host c)"
  using assms by auto

lemma closeAll_owns:
  assumes "tracks_spawn K fds kids" "owns fds kids F st c" "wf_child st" "closeAll K st c = (st', c')"
  shows "owns fds kids F st' c' \<and> live_ends st' = {} \<and> fds (host c') = F \<and> kids (host c') \<subseteq> kids (host c) \<and> wf_child st' \<and> pid st' = pid st"
proof (cases "is_open st")
  case False
  then have same: "st' = st" "c' = c" using assms(4) by (simp_all add: closeAll_def)
  have "live_ends st = {}" using assms(3) False by (simp add: live_ends_def wf_child_def)
  then show ?thesis unfolding same using assms(2,3) by (simp add: owns_def)
next
  case True
  have n: "kids (host (sp_do (waitpid_nohang K p) c)) \<subseteq> kids (host c)" for p c
    using assms(1) by (simp add: tracks_spawn_def sp_do_def)
  define c1 where "c1 = (if outRead st \<ge> 0 then sp_do (close_end K (outRead st)) c else c)"
  define c2 where "c2 = (if errRead st \<ge> 0 then sp_do (close_end K (errRead st)) c1 else c1)"
  define c3 where "c3 = (if inWrite st \<ge> 0 then sp_do (close_end K (inWrite st)) c2 else c2)"
  have f: "fds (host c3) = fds (host c) - live_ends st" "kids (host c3) = kids (host c)"
    unfolding c3_def close_if [OF assms(1)] c2_def c1_def by (auto simp: live_ends_def)
  have "closeAll K st c = (st\<lparr>is_open := False, outRead := - 1, errRead := - 1, inWrite := - 1\<rparr>,
      if \<not> waited st \<and> pid st > 0 then sp_do (waitpid_nohang K (pid st)) c3 else c3)"
    using True unfolding closeAll_def Let_def c3_def c2_def c1_def by (simp only: not_True_eq_False if_False)
  then have e: "c' = (if \<not> waited st \<and> pid st > 0 then sp_do (waitpid_nohang K (pid st)) c3 else c3)"
    and s: "st' = st\<lparr>is_open := False, outRead := - 1, errRead := - 1, inWrite := - 1\<rparr>"
    using assms(4) by simp_all
  have "fds (host c') = F" "kids (host c') \<subseteq> kids (host c)"
    unfolding e using f n [of "pid st" c3] assms(1,2) by (auto simp: owns_def)
  then show ?thesis unfolding s using assms(2,3) by (auto simp: owns_def live_ends_def wf_child_def apart_def)
qed


abbreviation goes_on_owning :: "('w \<Rightarrow> int set) \<Rightarrow> ('w \<Rightarrow> int set) \<Rightarrow> int set \<Rightarrow> ChildState \<Rightarrow> ChildState \<Rightarrow> 'w spawn_ctx \<Rightarrow> bool" where
  "goes_on_owning fds kids F st st' c' \<equiv> owns fds kids F st' c' \<and> wf_child st' \<and> live_ends st' \<subseteq> live_ends st \<and> pid st' = pid st"

lemma owns_same: "owns fds kids F st c \<Longrightarrow> fds (host c') = fds (host c) \<Longrightarrow> kids (host c') = kids (host c) \<Longrightarrow> owns fds kids F st c'"
  by (simp add: owns_def)

lemma close_input_owns:
  assumes "tracks_spawn K fds kids" "owns fds kids F st c" "wf_child st" "crossbyte_spawn_close_input K (Some st) c = (r, c')"
  shows "\<exists>st'. r = Inr st' \<and> goes_on_owning fds kids F st st' c'"
proof (cases "inWrite st \<ge> 0")
  case False
  then show ?thesis using assms(2-4) by (auto simp: crossbyte_spawn_close_input_def stateOf_def)
next
  case True
  then have r: "r = Inr (st\<lparr>inWrite := - 1\<rparr>)" and c': "c' = sp_do (close_end K (inWrite st)) c"
    using assms(4) by (auto simp: crossbyte_spawn_close_input_def stateOf_def)
  have ap: "apart st" and F: "live_ends st \<inter> F = {}" "fds (host c) = F \<union> live_ends st" using assms(2) by (simp_all add: owns_def)
  have l: "live_ends (st\<lparr>inWrite := - 1\<rparr>) = live_ends st - {inWrite st}" using ap True by (auto simp: live_ends_def apart_def)
  have "inWrite st \<in> live_ends st" using True by (simp add: live_ends_def)
  then have "fds (host c') = F \<union> live_ends (st\<lparr>inWrite := - 1\<rparr>)" "live_ends (st\<lparr>inWrite := - 1\<rparr>) \<inter> F = {}"
    unfolding c' l using assms(1) F by auto
  moreover have "apart (st\<lparr>inWrite := - 1\<rparr>)" "kids (host c') = kids (host c)" using ap assms(1) by (simp_all add: apart_def c')
  ultimately have "owns fds kids F (st\<lparr>inWrite := - 1\<rparr>) c'" using assms(2) by (simp add: owns_def)
  moreover have "wf_child (st\<lparr>inWrite := - 1\<rparr>)" using assms(3) by (auto simp: wf_child_def)
  ultimately show ?thesis unfolding r using l by auto
qed

lemma wait_owns:
  assumes "tracks_spawn K fds kids" "owns fds kids F st c" "wf_child st" "crossbyte_spawn_wait K (Some st) c = Some (r, c')"
  shows "goes_on_owning fds kids F st (case_sum (\<lambda>_. st) snd r) c'"
proof (cases "is_open st")
  case False
  then show ?thesis using assms(2-4) by (auto simp: crossbyte_spawn_wait_def stateOf_def)
next
  case True
  then obtain x where x: "sp_retry (waitpid K (pid st)) c = Some (x, c')" "r = Inr (wait_code (pid st) x, st\<lparr>waited := True\<rparr>)"
    using assms(4) by (auto simp: crossbyte_spawn_wait_def stateOf_def split: option.splits)
  then show ?thesis using wait_kids [OF assms(1) x(1)] assms(2,3) by (simp add: owns_def live_ends_def wf_child_def apart_def)
qed

lemma read_res:
  assumes "tracks_spawn K fds kids" "crossbyte_spawn_read K (Some st) e (Some buf) p n c = Some (r, c')"
  shows "fds (host c') = fds (host c) \<and> kids (host c') = kids (host c)"
proof (cases "sp_retry (read_end K (if e then errRead st else outRead st) (nat n)) c")
  case None
  then show ?thesis using assms(2) by (simp add: crossbyte_spawn_read_def stateOf_def Let_def split: if_split_asm)
next
  case (Some y)
  obtain x c1 where y: "y = (x, c1)" by fastforce
  note k = sp_kept(1) [OF assms(1) Some [unfolded y]]
  have "c' = c \<or> c' = c1"
    using assms(2) Some y by (cases x) (auto simp: crossbyte_spawn_read_def stateOf_def Let_def simp del: not_less not_le split: if_split_asm)
  then show ?thesis using k by auto
qed

lemma write_res:
  assumes "tracks_spawn K fds kids" "crossbyte_spawn_write K (Some st) (Some buf) p n c = Some (r, c')"
  shows "fds (host c') = fds (host c) \<and> kids (host c') = kids (host c)"
proof (cases "sp_retry (write_end K (inWrite st) (slice (nat p) (nat n) buf)) c")
  case None
  then show ?thesis using assms(2) by (simp add: crossbyte_spawn_write_def stateOf_def split: if_split_asm)
next
  case (Some y)
  obtain x c1 where y: "y = (x, c1)" by fastforce
  note k = sp_kept(2) [OF assms(1) Some [unfolded y]]
  have "c' = c \<or> c' = c1"
    using assms(2) Some y by (cases x) (auto simp: crossbyte_spawn_write_def stateOf_def split: if_split_asm)
  then show ?thesis using k by auto
qed

lemma child_apply_owns:
  assumes "tracks_spawn K fds kids" "owns fds kids F st c" "wf_child st" "child_apply K op st c = Some (st', c')"
  shows "goes_on_owning fds kids F st st' c'"
proof (cases op)
  case CloseInput
  obtain r c1 where r: "crossbyte_spawn_close_input K (Some st) c = (r, c1)" by fastforce
  with close_input_owns [OF assms(1-3) r] assms(4) CloseInput show ?thesis by auto
next
  case Kill
  have k: "owns fds kids F st (sp_do (kill_term K (pid st)) c)" using assms(1,2) by (simp add: owns_def)
  then show ?thesis using assms(2-4) Kill by (auto simp: crossbyte_spawn_kill_def stateOf_def split: if_splits)
next
  case Wait
  then obtain r where r: "crossbyte_spawn_wait K (Some st) c = Some (r, c')" "st' = case_sum (\<lambda>_. st) snd r" using assms(4) by auto
  show ?thesis unfolding r(2) by (rule wait_owns [OF assms(1-3) r(1)])
next
  case (Read e buf p n)
  then obtain r where "st' = st" "crossbyte_spawn_read K (Some st) e (Some buf) p n c = Some (r, c')" using assms(4) by auto
  with read_res [OF assms(1) this(2)] assms(3) owns_same [OF assms(2)] show ?thesis by simp
next
  case (Write buf p n)
  then obtain r where "st' = st" "crossbyte_spawn_write K (Some st) (Some buf) p n c = Some (r, c')" using assms(4) by auto
  with write_res [OF assms(1) this(2)] assms(3) owns_same [OF assms(2)] show ?thesis by simp
next
  case Close
  obtain s1 c1 where s: "closeAll K st c = (s1, c1)" by fastforce
  then have "st' = s1" "c' = c1" using assms(4) Close by (auto simp: crossbyte_spawn_close_def stateOf_def)
  then show ?thesis using closeAll_owns [OF assms(1-3) s] by auto
qed

lemma child_applies_owns:
  assumes "tracks_spawn K fds kids"
  shows "owns fds kids F st c \<Longrightarrow> wf_child st \<Longrightarrow> child_applies K ops st c = Some (st', c') \<Longrightarrow> goes_on_owning fds kids F st st' c'"
proof (induction ops arbitrary: st c)
  case (Cons op ops)
  then obtain s1 c1 where s: "child_apply K op st c = Some (s1, c1)" "child_applies K ops s1 c1 = Some (st', c')"
    by (auto split: option.splits)
  from child_apply_owns [OF assms Cons.prems(1,2) s(1)] Cons.IH [OF _ _ s(2)] show ?case by auto
qed simp


lemma started_owns:
  assumes "tracks_spawn K fds kids" "crossbyte_spawn_start K executable arguments directory environment c = Some (Inr st, c')"
  shows "owns fds kids (fds (host c)) st c' \<and> wf_child st \<and> is_open st"
  using start_res [OF assms] by (auto simp: owns_def wf_child_def apart_def)

text \<open>
  C35. Starting a child and using it leaks nothing. A start that fails, in whichever step, leaves the descriptors
  and the children as they were: no end of a pipe stays open, and a child that could not be replaced has been reaped. One
  that succeeds leaves three new descriptors and one new child. Whatever calls follow, in any order and as often as
  they come, the descriptors open are those open before the start and the ends the state still has; a child waited
  for has been reaped; and a close, or the collector's, leaves the descriptors as they were before the start.
\<close>

theorem spawn_descriptors:
  assumes "tracks_spawn K fds kids"
  shows "(\<forall>e c'. crossbyte_spawn_start K executable arguments directory environment c = Some (Inl e, c') \<longrightarrow>
        fds (host c') = fds (host c) \<and> kids (host c') = kids (host c))
    \<and> (\<forall>st c'. crossbyte_spawn_start K executable arguments directory environment c = Some (Inr st, c') \<longrightarrow>
        card {outRead st, errRead st, inWrite st} = 3 \<and> {outRead st, errRead st, inWrite st} \<inter> fds (host c) = {}
        \<and> fds (host c') = {outRead st, errRead st, inWrite st} \<union> fds (host c)
        \<and> pid st \<notin> kids (host c) \<and> kids (host c') = insert (pid st) (kids (host c))
        \<and> (\<forall>ops st' c''. child_applies K ops st c' = Some (st', c'') \<longrightarrow>
              fds (host c'') = fds (host c) \<union> live_ends st' \<and> live_ends st' \<inter> fds (host c) = {} \<and> live_ends st' \<subseteq> live_ends st
            \<and> (waited st' \<longrightarrow> pid st \<notin> kids (host c''))
            \<and> fds (host (snd (crossbyte_spawn_close K (Some st') c''))) = fds (host c)
            \<and> fds (host (snd (finalize K (Some st') c''))) = fds (host c)))"
proof ((intro conjI allI impI; (elim conjE)?), goal_cases)
  case (1 e c')
  with start_res [OF assms 1] show ?case by simp
next
  case (2 e c')
  with start_res [OF assms 2] show ?case by simp
next
  case (3 st c')
  with start_res [OF assms 3] show ?case by auto
next
  case (4 st c')
  with start_res [OF assms 4] show ?case by (auto simp: live_ends_def)
next
  case (5 st c')
  with start_res [OF assms 5] show ?case by (auto simp: live_ends_def)
next
  case (6 st c')
  with start_res [OF assms 6] show ?case by simp
next
  case (7 st c')
  with start_res [OF assms 7] show ?case by simp
next
  case (8 st c' ops st' c'')
  then show ?case using child_applies_owns [OF assms] started_owns [OF assms 8(1)] by (metis owns_def)
next
  case (9 st c' ops st' c'')
  then show ?case using child_applies_owns [OF assms] started_owns [OF assms 9(1)] by (metis owns_def)
next
  case (10 st c' ops st' c'')
  then show ?case using child_applies_owns [OF assms] started_owns [OF assms 10(1)] by metis
next
  case (11 st c' ops st' c'')
  then show ?case using child_applies_owns [OF assms] started_owns [OF assms 11(1)] by (metis owns_def)
next
  case (12 st c' ops st' c'')
  then have o: "owns fds kids (fds (host c)) st' c''" "wf_child st'" using child_applies_owns [OF assms] started_owns [OF assms 12(1)] by metis+
  obtain s1 c1 where s: "closeAll K st' c'' = (s1, c1)" by fastforce
  with closeAll_owns [OF assms o s] show ?case by (simp add: crossbyte_spawn_close_def stateOf_def)
next
  case (13 st c' ops st' c'')
  then have o: "owns fds kids (fds (host c)) st' c''" "wf_child st'" using child_applies_owns [OF assms] started_owns [OF assms 13(1)] by metis+
  obtain s1 c1 where s: "closeAll K st' c'' = (s1, c1)" by fastforce
  with closeAll_owns [OF assms o s] show ?case by (simp add: finalize_def)
qed


text \<open>A system that numbers descriptors and children, and has one program, \<^verbatim>\<open>/bin/ls\<close>.\<close>

record spawn_host =
  open_fds :: "int list"
  children :: "int list"
  sent :: "ChildFailure option"

definition new_fds :: "spawn_host \<Rightarrow> (int \<times> int) sysret \<times> spawn_host" where
  "new_fds w = (let n = foldr max (open_fds w) 0 + 1 in (Ret (n, n + 1), w\<lparr>open_fds := (n + 1) # n # open_fds w\<rparr>))"

definition demo_fork :: "(spawn_host \<Rightarrow> child_end \<times> spawn_host) \<Rightarrow> spawn_host \<Rightarrow> int sysret \<times> spawn_host" where
  "demo_fork child w =
     (let p = foldr max (children w) 0 + 1
      in (Ret p, w\<lparr>children := p # children w, sent := (case fst (child w) of Replaced _ \<Rightarrow> None | Reported f \<Rightarrow> Some f)\<rparr>))"

definition demo_spawn :: "spawn_host spawn_kernel" where
  "demo_spawn =
     \<lparr>pipe2_cloexec = \<lambda>w. (Err ENOSYS, w), pipe_plain = new_fds, getfd = \<lambda>_ w. (0, w), setfd = \<lambda>_ _ w. w,
      close_end = \<lambda>fd w. w\<lparr>open_fds := removeAll fd (open_fds w)\<rparr>, ignore_sigpipe = \<lambda>w. w, getenv_path = \<lambda>_. Some ''/usr/bin:/bin'',
      own_environment = \<lambda>_. [], fork = demo_fork, dup2 = \<lambda>_ _ w. w, default_sigpipe = \<lambda>w. w, chdir = \<lambda>d w. (if d = ''/'' then None else Some ENOENT, w),
      execve = \<lambda>p _ _ w. (if p = ''/bin/ls'' then None else Some ENOENT, w), read_report = \<lambda>_ w. (Ret (sent w), w),
      read_end = \<lambda>_ n w. (Ret [], w), write_end = \<lambda>_ bs w. (Ret (length bs), w),
      waitpid = \<lambda>p w. (if p \<in> set (children w) then Ret (p, 256) else Err ECHILD, w\<lparr>children := removeAll p (children w)\<rparr>),
      waitpid_nohang = \<lambda>_ w. w, kill_term = \<lambda>_ w. w, strerror = \<lambda>_. ''no such file'', is_linux = True\<rparr>"

definition spawn_begin :: "spawn_host spawn_ctx" where
  "spawn_begin = \<lparr>sigpipeIgnored = False, host = \<lparr>open_fds = [2, 1, 0], children = [], sent = None\<rparr>\<rparr>"

lemma demo_spawn_sel:
  "pipe2_cloexec demo_spawn = (\<lambda>w. (Err ENOSYS, w))" "pipe_plain demo_spawn = new_fds" "getfd demo_spawn = (\<lambda>_ w. (0, w))"
  "setfd demo_spawn = (\<lambda>_ _ w. w)" "close_end demo_spawn = (\<lambda>fd w. w\<lparr>open_fds := removeAll fd (open_fds w)\<rparr>)"
  "ignore_sigpipe demo_spawn = (\<lambda>w. w)" "fork demo_spawn = demo_fork" "read_report demo_spawn = (\<lambda>_ w. (Ret (sent w), w))"
  "read_end demo_spawn = (\<lambda>_ n w. (Ret [], w))" "write_end demo_spawn = (\<lambda>_ bs w. (Ret (length bs), w))"
  "waitpid demo_spawn = (\<lambda>p w. (if p \<in> set (children w) then Ret (p, 256) else Err ECHILD, w\<lparr>children := removeAll p (children w)\<rparr>))"
  "waitpid_nohang demo_spawn = (\<lambda>_ w. w)" "kill_term demo_spawn = (\<lambda>_ w. w)"
  by (simp_all add: demo_spawn_def)

lemma above_max: "foldr max xs 0 + 1 \<notin> set xs" "1 + foldr max xs 0 \<notin> set xs" "2 + foldr max xs 0 \<notin> set xs" "0 \<le> foldr max xs (0 :: int)"
  using foldr_max_int [of xs] by fastforce+

lemma new_fds_pipe: "makes_pipe (set \<circ> open_fds) new_fds"
  using above_max by (auto simp: makes_pipe_def new_fds_def Let_def)

lemma demo_fork_child:
  assumes "demo_fork child w = (r, w')"
  shows "set (open_fds w') = set (open_fds w)" "\<exists>p. r = Ret p \<and> 0 < p \<and> p \<notin> set (children w) \<and> set (children w') = insert p (set (children w))"
  using assms above_max [of "children w"] by (auto simp: demo_fork_def Let_def)

lemma demo_fork_fds: "open_fds (snd (demo_fork child w)) = open_fds w"
  by (simp add: demo_fork_def Let_def)

lemma demo_spawn_tracks: "tracks_spawn demo_spawn (set \<circ> open_fds) (set \<circ> children)"
  unfolding tracks_spawn_def demo_spawn_sel
  by (intro conjI allI impI)
    (use new_fds_pipe in \<open>(auto simp: makes_pipe_def keeps_def new_fds_def Let_def demo_fork_fds dest: demo_fork_child)\<close>)

text \<open>What a start leaves, and a start with a wait and two closes after it.\<close>

definition started :: "string \<Rightarrow> string option \<Rightarrow> (ChildState hx \<times> spawn_host spawn_ctx) option" where
  "started name directory = crossbyte_spawn_start demo_spawn (Some name) (Some [Some ''-l'']) directory None spawn_begin"


lemma sp_retry_once: "f (host c) = (r, w) \<Longrightarrow> \<not> interrupted r \<Longrightarrow> sp_retry f c = Some (r, c\<lparr>host := w\<rparr>)"
  by (simp add: sp_retry_def retry_done sp_call_def)

lemmas start_defs = crossbyte_spawn_start_def start_child_def make_pipes_def makePipe_def plainPipe_def setCloseOnExec_def await_child_def
  child_main_def sp_retry_once sp_call_def sp_do_def close_pipes_def closePipe_def utf8Of_def candidates_def path_loop.simps path_candidate_def
  new_state_def Let_def

definition ls_child :: ChildState where
  "ls_child = \<lparr>is_open = True, waited = False, outRead = 5, errRead = 7, inWrite = 4, pid = 1\<rparr>"

definition ls_started :: "spawn_host spawn_ctx" where
  "ls_started = \<lparr>sigpipeIgnored = True, host = \<lparr>open_fds = [7, 5, 4, 2, 1, 0], children = [1], sent = None\<rparr>\<rparr>"

lemma started_ls: "started ''ls'' None = Some (Inr ls_child, ls_started)"
  by (simp add: started_def start_defs demo_spawn_def new_fds_def demo_fork_def spawn_begin_def ls_child_def ls_started_def)

lemma started_missing:
  "started ''lsx'' None = Some (Inl ''Could not run lsx: no such file'',
     \<lparr>sigpipeIgnored = True, host = \<lparr>open_fds = [2, 1, 0], children = [], sent = Some \<lparr>failed_step = STEP_EXEC, failed_error = ENOENT\<rparr>\<rparr>\<rparr>)"
  by (simp add: started_def start_defs demo_spawn_def new_fds_def demo_fork_def spawn_begin_def child_failed_def message600_def)

definition ls_waited :: "child_op list" where
  "ls_waited = [CloseInput, Wait, Kill, Close, Close, CloseInput]"

lemma ls_applied:
  "\<exists>c. child_applies demo_spawn ls_waited ls_child ls_started
    = Some (\<lparr>is_open = False, waited = True, outRead = - 1, errRead = - 1, inWrite = - 1, pid = 1\<rparr>, c)"
  by (simp add: ls_waited_def ls_child_def ls_started_def crossbyte_spawn_close_input_def crossbyte_spawn_wait_def crossbyte_spawn_kill_def
      crossbyte_spawn_close_def closeAll_def stateOf_def demo_spawn_def sp_retry_once sp_do_def Let_def)

lemma spawn_descriptors_witness:
  "tracks_spawn demo_spawn (set \<circ> open_fds) (set \<circ> children)
   \<and> (\<exists>e c'. started ''lsx'' None = Some (Inl e, c') \<and> set (open_fds (host c')) = {0, 1, 2} \<and> children (host c') = [])
   \<and> (\<exists>st c' st' c''. started ''ls'' None = Some (Inr st, c') \<and> card {outRead st, errRead st, inWrite st} = 3
        \<and> child_applies demo_spawn ls_waited st c' = Some (st', c'') \<and> pid st \<notin> set (children (host c''))
        \<and> set (open_fds (host c'')) = {0, 1, 2} \<union> live_ends st' \<and> live_ends st' = {})"
proof -
  note t = spawn_descriptors [OF demo_spawn_tracks, where executable = "Some name" and arguments = "Some [Some ''-l'']" and directory = None
      and environment = None and c = spawn_begin for name, folded started_def]
  have b: "(set \<circ> open_fds) (host spawn_begin) = {0, 1, 2}" "(set \<circ> children) (host spawn_begin) = {}"
    by (auto simp: spawn_begin_def)
  obtain c where c: "child_applies demo_spawn ls_waited ls_child ls_started
      = Some (\<lparr>is_open = False, waited = True, outRead = - 1, errRead = - 1, inWrite = - 1, pid = 1\<rparr>, c)" using ls_applied by blast
  note missing = t [THEN conjunct1, rule_format, OF started_missing, unfolded b]
  note ls = t [THEN conjunct2, rule_format, OF started_ls, unfolded b]
  note after = ls [THEN conjunct2, THEN conjunct2, THEN conjunct2, THEN conjunct2, THEN conjunct2, rule_format, OF c]
  have "live_ends \<lparr>is_open = False, waited = True, outRead = - 1, errRead = - 1, inWrite = - 1, pid = 1\<rparr> = {}" by (simp add: live_ends_def)
  then show ?thesis using demo_spawn_tracks started_missing missing started_ls ls c after by auto
qed

text \<open>
  C40. The state of a child is always well formed: however calls follow a start, its number is that of the child, an
  end is a descriptor or -1, and it is open until it is closed. Once closed every end is -1 and every call on it, another
  close included, touches nothing: no descriptor, and no process.
\<close>

theorem spawn_child_wf:
  assumes "tracks_spawn K fds kids"
    and "crossbyte_spawn_start K executable arguments directory environment c = Some (Inr st, c')"
    and "child_applies K ops st c' = Some (st', c'')"
  shows "wf_child st' \<and> pid st' = pid st \<and> (is_open st' \<longleftrightarrow> Close \<notin> set ops)
    \<and> (\<not> is_open st' \<longrightarrow> (\<forall>op. child_apply K op st' c'' = Some (st', c'')))
    \<and> (waited st' \<longrightarrow> child_apply K Kill st' c'' = Some (st', c''))"
proof -
  note o = started_owns [OF assms(1,2)]
  from child_applies_owns [OF assms(1) _ _ assms(3)] o have wf: "wf_child st'" and p: "pid st' = pid st" by blast+
  have step: "is_open s' = (is_open s \<and> op \<noteq> Close)" if "child_apply K op s x = Some (s', x')" for op s x s' x'
    using that by (cases op) (auto simp: crossbyte_spawn_close_input_def crossbyte_spawn_wait_def crossbyte_spawn_kill_def
        crossbyte_spawn_close_def closeAll_def stateOf_def Let_def split: if_split_asm option.split_asm)
  have "is_open s' = (is_open s \<and> Close \<notin> set os)" if "child_applies K os s x = Some (s', x')" for os s x s' x'
    using that by (induction os arbitrary: s x) (auto split: option.split_asm dest!: step)
  with assms(3) o have op: "is_open st' \<longleftrightarrow> Close \<notin> set ops" by blast
  have "child_apply K op st' c'' = Some (st', c'')" if "\<not> is_open st'" for op
    using that wf by (cases op) (auto simp: wf_child_def crossbyte_spawn_close_input_def crossbyte_spawn_wait_def crossbyte_spawn_kill_def
        crossbyte_spawn_close_def closeAll_def stateOf_def crossbyte_spawn_read_def crossbyte_spawn_write_def Let_def)
  moreover have "child_apply K Kill st' c'' = Some (st', c'')" if "waited st'"
    using that by (simp add: crossbyte_spawn_kill_def stateOf_def)
  ultimately show ?thesis using wf p op by blast
qed

lemma spawn_child_wf_witness:
  "started ''ls'' None = Some (Inr ls_child, ls_started)
   \<and> (\<exists>st' c''. child_applies demo_spawn ls_waited ls_child ls_started = Some (st', c'') \<and> wf_child st' \<and> \<not> is_open st'
        \<and> child_apply demo_spawn (Write [1, 2] 0 2) st' c'' = Some (st', c''))"
proof -
  obtain st' c where c: "child_applies demo_spawn ls_waited ls_child ls_started = Some (st', c)" "\<not> is_open st'" using ls_applied by fastforce
  from spawn_child_wf [OF demo_spawn_tracks started_ls [unfolded started_def] c(1)] c started_ls show ?thesis by blast
qed


section \<open>What a start answers\<close>

text \<open>
  What a pipe is to the two that share it: the report read is the one the child sent, and the end of the pipe when it was
  replaced and sent none. A read is cut short by a signal only, and signals come only so often, by some measure \<open>\<rho>\<close>.
\<close>

definition report_of :: "child_end \<Rightarrow> ChildFailure option" where
  "report_of e = (case e of Replaced _ \<Rightarrow> None | Reported f \<Rightarrow> Some f)"

definition reports :: "'w spawn_kernel \<Rightarrow> ('w \<Rightarrow> ChildFailure option) \<Rightarrow> ('w \<Rightarrow> nat) \<Rightarrow> bool" where
  "reports K pending \<rho> \<longleftrightarrow>
     (\<forall>child w p w'. fork K child w = (Ret p, w') \<longrightarrow> pending w' = report_of (fst (child w))) \<and>
     (\<forall>fd w. pending (close_end K fd w) = pending w) \<and>
     (\<forall>fd w x w'. read_report K fd w = (Ret x, w') \<longrightarrow> x = pending w) \<and>
     (\<forall>fd w e w'. read_report K fd w = (Err e, w') \<longrightarrow> e = EINTR \<and> pending w' = pending w \<and> \<rho> w' < \<rho> w) \<and>
     (\<forall>p w w'. waitpid K p w = (Err EINTR, w') \<longrightarrow> \<rho> w' < \<rho> w)"

lemma sp_retry_returns:
  assumes "\<And>c r c'. sp_call f c = (r, c') \<Longrightarrow> interrupted r \<Longrightarrow> \<rho> (host c') < (\<rho> (host c) :: nat)"
  shows "\<exists>r c'. sp_retry f c = Some (r, c')"
proof (induction "\<rho> (host c)" arbitrary: c rule: less_induct)
  case less
  obtain r c1 where r: "sp_call f c = (r, c1)" by fastforce
  show ?case
  proof (cases "interrupted r")
    case True
    then have "sp_retry f c = sp_retry f c1" using r by (simp add: sp_retry_def retry_again)
    then show ?thesis using less [of c1] assms [OF r True] by simp
  next
    case False
    then show ?thesis using r by (simp add: sp_retry_def retry_done)
  qed
qed

lemma report_read:
  assumes "reports K pending \<rho>"
  shows "\<exists>c'. sp_retry (read_report K fd) c = Some (Ret (pending (host c)), c')"
proof -
  have e: "e = EINTR \<and> pending (host c') = pending (host c) \<and> \<rho> (host c') < \<rho> (host c)" if "sp_call (read_report K fd) c = (Err e, c')" for c e c'
    using assms sp_callD [OF that] unfolding reports_def by blast
  have i: "\<rho> (host c') < \<rho> (host c)" "pending (host c') = pending (host c)" if "sp_call (read_report K fd) c = (r, c')" "interrupted r" for c r c'
    using that e by (cases r; auto)+
  have "\<exists>r c'. sp_retry (read_report K fd) c = Some (r, c')" by (rule sp_retry_returns [where \<rho> = \<rho>]) (rule i(1))
  then obtain r c1 where r: "sp_retry (read_report K fd) c = Some (r, c1)" by blast
  have "\<exists>c2. pending (host c2) = pending (host c) \<and> sp_call (read_report K fd) c2 = (r, c1) \<and> \<not> interrupted r"
    by (rule sp_retryD [OF r]) (use i(2) in auto)
  then obtain c2 where c2: "pending (host c2) = pending (host c)" "sp_call (read_report K fd) c2 = (r, c1)" "\<not> interrupted r" by blast
  then obtain x where x: "r = Ret x" using e by (cases r) auto
  with assms sp_callD [OF c2(2)] c2(1) have "x = pending (host c)" unfolding reports_def by metis
  with r x show ?thesis by blast
qed

lemma await_answers:
  assumes "reports K pending \<rho>"
  shows "\<exists>ps' c'. await_child K p ps c = Some (pending (host c), ps', c')"
proof -
  let ?c = "sp_do (close_end K (snd (reportEnds ps))) c"
  have same: "pending (host ?c) = pending (host c)" using assms by (simp add: reports_def sp_do_def)
  obtain c1 where r: "sp_retry (read_report K (fst (reportEnds ps))) ?c = Some (Ret (pending (host c)), c1)"
    using report_read [OF assms, of "fst (reportEnds ps)" ?c] unfolding same by blast
  have "\<rho> (host c') < \<rho> (host c)" if "sp_call (waitpid K p) c = (s, c')" "interrupted s" for c s c'
    using that assms sp_callD [OF that(1)] unfolding reports_def by (cases s) auto
  then obtain s c2 where s: "sp_retry (waitpid K p) c1 = Some (s, c2)" using sp_retry_returns [of "waitpid K p" \<rho>] by blast
  show ?thesis using r s by (cases "pending (host c)") (simp_all add: await_child_def)
qed

lemma exec_loop_step: "fst (exec_loop f latest denied ps w) = Reported g \<Longrightarrow> failed_step g = STEP_EXEC"
  by (induction f latest denied ps w rule: exec_loop.induct) (auto split: prod.split_asm option.split_asm if_split_asm)



lemma demo_reports: "reports demo_spawn sent (\<lambda>_. 0)"
  unfolding reports_def demo_spawn_sel by (auto simp: demo_fork_def Let_def report_of_def)

definition demo_pipes :: spawn_pipes where
  "demo_pipes = \<lparr>inputEnds = (3, 4), outputEnds = (5, 6), errorEnds = (7, 8), reportEnds = (9, 10)\<rparr>"

lemma demo_pipes_made: "fst (make_pipes demo_spawn spawn_begin) = None" "fst (snd (make_pipes demo_spawn spawn_begin)) = demo_pipes"
  by (simp_all add: make_pipes_def makePipe_def plainPipe_def setCloseOnExec_def sp_call_def sp_do_def demo_spawn_def new_fds_def spawn_begin_def demo_pipes_def Let_def)


end
