(* ===== verification/Spawn_Race.thy ===== *)
theory Spawn_Race
  imports Spawn_Handles
begin

text \<open>
  One thread waits for a child while another kills or closes it. \<^verbatim>\<open>crossbyte_spawn_wait\<close> holds the lock of the state
  while it looks at it and while it marks it waited for, and not across \<^verbatim>\<open>waitpid\<close>, so the steps of the others come
  between: a child is reaped before its state says so.
\<close>

section \<open>Process numbers\<close>

text \<open>Who has a number: our child is 0, any other process something else. A number of nobody's may be given out again.\<close>

record pid_table =
  runs :: "int \<Rightarrow> nat option"
  signalled :: "nat list"

definition pid_kernel :: "pid_table spawn_kernel" where
  "pid_kernel =
     \<lparr>pipe2_cloexec = \<lambda>w. (Err ENOSYS, w), pipe_plain = \<lambda>w. (Err ENOSYS, w), getfd = \<lambda>_ w. (0, w), setfd = \<lambda>_ _ w. w,
      close_end = \<lambda>_ w. w, ignore_sigpipe = \<lambda>w. w, getenv_path = \<lambda>_. None, own_environment = \<lambda>_. [],
      fork = \<lambda>_ w. (Err EAGAIN, w), dup2 = \<lambda>_ _ w. w, default_sigpipe = \<lambda>w. w, chdir = \<lambda>_ w. (None, w), execve = \<lambda>_ _ _ w. (Some ENOENT, w),
      read_report = \<lambda>_ w. (Ret None, w), read_end = \<lambda>_ _ w. (Ret [], w), write_end = \<lambda>_ _ w. (Ret 0, w),
      waitpid = \<lambda>p w. if runs w p = Some 0 then (Ret (p, 0), w\<lparr>runs := (runs w)(p := None)\<rparr>) else (Err ECHILD, w),
      waitpid_nohang = \<lambda>p w. if runs w p = Some 0 then w\<lparr>runs := (runs w)(p := None)\<rparr> else w,
      kill_term = \<lambda>p w. (case runs w p of None \<Rightarrow> w | Some i \<Rightarrow> w\<lparr>signalled := i # signalled w\<rparr>),
      strerror = \<lambda>_. [], is_linux = False\<rparr>"

lemma pid_kernel_sel:
  "waitpid pid_kernel p w = (if runs w p = Some 0 then (Ret (p, 0), w\<lparr>runs := (runs w)(p := None)\<rparr>) else (Err ECHILD, w))"
  "waitpid_nohang pid_kernel p w = (if runs w p = Some 0 then w\<lparr>runs := (runs w)(p := None)\<rparr> else w)"
  "kill_term pid_kernel p w = (case runs w p of None \<Rightarrow> w | Some i \<Rightarrow> w\<lparr>signalled := i # signalled w\<rparr>)"
  "close_end pid_kernel e w = w"
  by (simp_all add: pid_kernel_def)

section \<open>Steps\<close>

datatype waiter = Out | Looked int | Reaped

record race =
  child :: ChildState
  table :: pid_table
  waiting :: waiter

definition on_table :: "pid_table \<Rightarrow> pid_table spawn_ctx" where
  "on_table w = \<lparr>sigpipeIgnored = True, host = w\<rparr>"

inductive race_step :: "race \<Rightarrow> race \<Rightarrow> bool" where
  looks: "waiting s = Out \<Longrightarrow> is_open (child s) \<Longrightarrow> race_step s (s\<lparr>waiting := Looked (pid (child s))\<rparr>)"
| reaps: "waiting s = Looked p \<Longrightarrow> race_step s (s\<lparr>waiting := Reaped, table := snd (waitpid pid_kernel p (table s))\<rparr>)"
| marks: "waiting s = Reaped \<Longrightarrow> race_step s (s\<lparr>waiting := Out, child := (child s)\<lparr>waited := True\<rparr>\<rparr>)"
| kills: "crossbyte_spawn_kill pid_kernel (Some (child s)) (on_table (table s)) = (Inr st, c) \<Longrightarrow> race_step s (s\<lparr>child := st, table := host c\<rparr>)"
| closes: "crossbyte_spawn_close pid_kernel (Some (child s)) (on_table (table s)) = (Inr st, c) \<Longrightarrow> race_step s (s\<lparr>child := st, table := host c\<rparr>)"
| others: "runs (table s) p = None \<Longrightarrow> i \<noteq> 0 \<Longrightarrow> race_step s (s\<lparr>table := (table s)\<lparr>runs := (runs (table s))(p \<mapsto> i)\<rparr>\<rparr>)"

definition race_init :: race where
  "race_init = \<lparr>child = \<lparr>is_open = True, waited = False, outRead = 5, errRead = 7, inWrite = 4, pid = 9\<rparr>,
     table = \<lparr>runs = [9 \<mapsto> 0], signalled = []\<rparr>, waiting = Out\<rparr>"

inductive race_reachable :: "race \<Rightarrow> bool" where
  race_begins: "race_reachable race_init"
| race_goes_on: "race_reachable s \<Longrightarrow> race_step s s' \<Longrightarrow> race_reachable s'"

text \<open>The steps of a wait, one after another, are a wait.\<close>

lemma wait_in_steps:
  assumes "is_open st" "r = fst (waitpid pid_kernel (pid st) w)" "w' = snd (waitpid pid_kernel (pid st) w)"
  shows "crossbyte_spawn_wait pid_kernel (Some st) (on_table w) = Some (Inr (wait_code (pid st) r, st\<lparr>waited := True\<rparr>), on_table w')"
  using assms by (cases "runs w (pid st) = Some 0")
    (simp_all add: crossbyte_spawn_wait_def stateOf_def sp_retry_once pid_kernel_sel on_table_def)

section \<open>Whom a kill reaches\<close>

text \<open>Between the reap and the mark the state of the child is out of date; at no other time.\<close>

definition race_inv :: "race \<Rightarrow> bool" where
  "race_inv s \<longleftrightarrow> (is_open (child s) \<and> \<not> waited (child s) \<and> waiting s \<noteq> Reaped \<longrightarrow> runs (table s) (pid (child s)) = Some 0)
     \<and> (\<forall>p. waiting s = Looked p \<longrightarrow> p = pid (child s))"

lemma kill_cases:
  assumes "crossbyte_spawn_kill pid_kernel (Some st) (on_table w) = (Inr st', c)"
  shows "st' = st \<and> runs (host c) = runs w
    \<and> signalled (host c) = (if is_open st \<and> \<not> waited st then (case runs w (pid st) of None \<Rightarrow> [] | Some i \<Rightarrow> [i]) else []) @ signalled w"
  using assms by (auto simp: crossbyte_spawn_kill_def stateOf_def on_table_def sp_do_def pid_kernel_sel split: if_splits option.splits)

lemma close_cases:
  assumes "crossbyte_spawn_close pid_kernel (Some st) (on_table w) = (Inr st', c)"
  shows "\<not> is_open st' \<and> pid st' = pid st \<and> waited st' = waited st \<and> signalled (host c) = signalled w"
  using assms by (auto simp: crossbyte_spawn_close_def closeAll_def stateOf_def on_table_def sp_do_def pid_kernel_sel Let_def split: if_splits)

lemma race_inv_step: "race_step s s' \<Longrightarrow> race_inv s \<Longrightarrow> race_inv s'"
proof (induction rule: race_step.induct)
  case (kills s st c)
  then show ?case using kill_cases [OF kills(1)] by (simp add: race_inv_def)
next
  case (closes s st c)
  then show ?case using close_cases [OF closes(1)] by (simp add: race_inv_def)
qed (auto simp: race_inv_def)

lemma race_inv_init: "race_inv race_init"
  by (simp add: race_inv_def race_init_def)

lemma race_inv_reachable: "race_reachable s \<Longrightarrow> race_inv s"
  by (induction rule: race_reachable.induct) (auto intro: race_inv_step race_inv_init)

text \<open>
  C38. A kill reaches the child and nobody else, unless it comes between a wait's \<^verbatim>\<open>waitpid\<close> and its mark: there the
  number is free, the lock is not held and the state still says the child may be killed, so a process that was given the
  number since is sent the signal.
\<close>

theorem spawn_kill_race:
  "(\<forall>s st c. race_reachable s \<and> waiting s \<noteq> Reaped
      \<and> crossbyte_spawn_kill pid_kernel (Some (child s)) (on_table (table s)) = (Inr st, c) \<longrightarrow>
        set (signalled (host c)) \<subseteq> insert 0 (set (signalled (table s))))
   \<and> (\<exists>s st c. race_reachable s \<and> crossbyte_spawn_kill pid_kernel (Some (child s)) (on_table (table s)) = (Inr st, c)
        \<and> signalled (table s) = [] \<and> signalled (host c) = [1])"
proof (intro conjI allI impI; (elim conjE)?)
  fix s st c
  assume r: "race_reachable s" "waiting s \<noteq> Reaped" and k: "crossbyte_spawn_kill pid_kernel (Some (child s)) (on_table (table s)) = (Inr st, c)"
  have "is_open (child s) \<and> \<not> waited (child s) \<longrightarrow> runs (table s) (pid (child s)) = Some 0"
    using race_inv_reachable [OF r(1)] r(2) by (simp add: race_inv_def)
  then show "set (signalled (host c)) \<subseteq> insert 0 (set (signalled (table s)))"
    using kill_cases [OF k] by (cases "is_open (child s) \<and> \<not> waited (child s)") auto
next
  let ?s1 = "race_init\<lparr>waiting := Looked 9\<rparr>"
  let ?s2 = "?s1\<lparr>waiting := Reaped, table := snd (waitpid pid_kernel 9 (table ?s1))\<rparr>"
  let ?s3 = "?s2\<lparr>table := (table ?s2)\<lparr>runs := (runs (table ?s2))(9 \<mapsto> 1)\<rparr>\<rparr>"
  have 1: "race_step race_init ?s1" using looks [of race_init] by (simp add: race_init_def)
  have 2: "race_step ?s1 ?s2" by (rule reaps) simp
  have 3: "race_step ?s2 ?s3" by (rule others) (simp_all add: pid_kernel_sel race_init_def)
  have r: "race_reachable ?s3" using race_goes_on [OF race_goes_on [OF race_goes_on [OF race_begins 1] 2] 3] .
  have "\<exists>st c. crossbyte_spawn_kill pid_kernel (Some (child ?s3)) (on_table (table ?s3)) = (Inr st, c)
      \<and> signalled (table ?s3) = [] \<and> signalled (host c) = [1]"
    by (simp add: crossbyte_spawn_kill_def stateOf_def on_table_def sp_do_def pid_kernel_sel race_init_def)
  with r show "\<exists>s st c. race_reachable s \<and> crossbyte_spawn_kill pid_kernel (Some (child s)) (on_table (table s)) = (Inr st, c)
      \<and> signalled (table s) = [] \<and> signalled (host c) = [1]" by blast
qed

text \<open>Before anyone waits, a kill signals the child.\<close>

lemma spawn_kill_race_witness:
  "\<exists>st c. crossbyte_spawn_kill pid_kernel (Some (child race_init)) (on_table (table race_init)) = (Inr st, c)
    \<and> signalled (host c) = [0] \<and> set (signalled (host c)) \<subseteq> insert 0 (set (signalled (table race_init)))"
proof -
  obtain st c where k: "crossbyte_spawn_kill pid_kernel (Some (child race_init)) (on_table (table race_init)) = (Inr st, c)" "signalled (host c) = [0]"
    by (simp add: crossbyte_spawn_kill_def stateOf_def on_table_def sp_do_def pid_kernel_sel race_init_def)
  have "waiting race_init \<noteq> Reaped" by (simp add: race_init_def)
  with spawn_kill_race [THEN conjunct1, rule_format, of race_init st c] race_begins k show ?thesis by blast
qed

end
