(* ===== verification/Spawn_Windows.thy ===== *)
theory Spawn_Windows
  imports Spawn_Arguments
begin

text \<open>
  \<^verbatim>\<open>sys/_internal/NativeSpawn.cpp\<close> on Windows, and that no handle or block is leaked or freed twice
  (\<open>spawn_windows_handles\<close>). The Windows API and the allocator are the fields of \<open>spawn_api\<close>; a handle is an \<open>int\<close>, 0 for
  none, and a block is known by a number.
\<close>

section \<open>State\<close>

record ChildState_windows =
  wopen :: bool
  wwaited :: bool
  woutRead :: int
  werrRead :: int
  winWrite :: int
  wprocess :: int
  wpid :: u32

definition new_state_windows :: ChildState_windows where
  "new_state_windows = \<lparr>wopen = True, wwaited = False, woutRead = 0, werrRead = 0, winWrite = 0, wprocess = 0, wpid = 0\<rparr>"

record std_handles =
  hStdInput :: int
  hStdOutput :: int
  hStdError :: int

record PROCESS_INFORMATION =
  hProcess :: int
  hThread :: int
  dwProcessId :: u32

record 'w spawn_api =
  CreatePipe :: "'w \<Rightarrow> (int \<times> int) option \<times> 'w"
  DuplicateHandle :: "int \<Rightarrow> 'w \<Rightarrow> int option \<times> 'w"
  CloseHandle :: "int \<Rightarrow> 'w \<Rightarrow> 'w"
  LastError :: "'w \<Rightarrow> nat"
  list_api :: bool
  list_size :: "'w \<Rightarrow> nat \<times> 'w"
  list_alloc :: "nat \<Rightarrow> 'w \<Rightarrow> nat option \<times> 'w"
  list_init :: "nat \<Rightarrow> 'w \<Rightarrow> bool \<times> 'w"
  list_update :: "nat \<Rightarrow> int list \<Rightarrow> 'w \<Rightarrow> bool \<times> 'w"
  list_remove :: "nat \<Rightarrow> 'w \<Rightarrow> 'w"
  list_free :: "nat \<Rightarrow> 'w \<Rightarrow> 'w"
  CreateProcessW :: "wstr \<Rightarrow> wstr option \<Rightarrow> wstr option \<Rightarrow> std_handles \<Rightarrow> nat option \<Rightarrow> 'w \<Rightarrow> PROCESS_INFORMATION option \<times> 'w"
  FormatMessageA :: "nat \<Rightarrow> string"
  ReadFile :: "int \<Rightarrow> nat \<Rightarrow> 'w \<Rightarrow> bytes option \<times> 'w"
  WriteFile :: "int \<Rightarrow> bytes \<Rightarrow> 'w \<Rightarrow> nat option \<times> 'w"
  TerminateProcess :: "int \<Rightarrow> 'w \<Rightarrow> 'w"
  WaitForSingleObject :: "int \<Rightarrow> 'w \<Rightarrow> 'w"
  GetExitCodeProcess :: "int \<Rightarrow> 'w \<Rightarrow> u32 option \<times> 'w"

text \<open>\<^verbatim>\<open>if (h) CloseHandle(h)\<close>\<close>

definition close_set :: "'w spawn_api \<Rightarrow> int \<Rightarrow> 'w \<Rightarrow> 'w" where
  "close_set W h w = (if h \<noteq> 0 then CloseHandle W h w else w)"

section \<open>Errors\<close>

definition trailing :: "char \<Rightarrow> bool" where
  "trailing c = (c = CHR 0x0A \<or> c = CHR 0x0D \<or> c = CHR 0x20 \<or> c = CHR 0x2E)"

definition windowsError :: "'w spawn_api \<Rightarrow> string \<Rightarrow> nat \<Rightarrow> string" where
  "windowsError W what code =
     (let message = rev (dropWhile trailing (rev (FormatMessageA W code)))
      in take 699 (what @ '': '' @ (if message \<noteq> [] then message else ''unknown'') @ '' (Windows error '' @ decimal code @ '')''))"

section \<open>Starting\<close>

text \<open>
  The three pipes, each made if the ones before it were: the ends to keep, the child's ends, and whether all were made.
\<close>

record kept_ends =
  kOut :: int
  kErr :: int
  kIn :: int

definition make_pipes_windows :: "'w spawn_api \<Rightarrow> 'w \<Rightarrow> bool \<times> kept_ends \<times> std_handles \<times> 'w" where
  "make_pipes_windows W w =
     (case CreatePipe W w of
        (None, w) \<Rightarrow> (False, \<lparr>kOut = 0, kErr = 0, kIn = 0\<rparr>, \<lparr>hStdInput = 0, hStdOutput = 0, hStdError = 0\<rparr>, w)
      | (Some (outRead, hOut), w) \<Rightarrow>
     (case CreatePipe W w of
        (None, w) \<Rightarrow> (False, \<lparr>kOut = outRead, kErr = 0, kIn = 0\<rparr>, \<lparr>hStdInput = 0, hStdOutput = hOut, hStdError = 0\<rparr>, w)
      | (Some (errRead, hErr), w) \<Rightarrow>
     (case CreatePipe W w of
        (None, w) \<Rightarrow> (False, \<lparr>kOut = outRead, kErr = errRead, kIn = 0\<rparr>, \<lparr>hStdInput = 0, hStdOutput = hOut, hStdError = hErr\<rparr>, w)
      | (Some (hIn, inWrite), w) \<Rightarrow>
          (True, \<lparr>kOut = outRead, kErr = errRead, kIn = inWrite\<rparr>, \<lparr>hStdInput = hIn, hStdOutput = hOut, hStdError = hErr\<rparr>, w))))"

definition duplicate_ends :: "'w spawn_api \<Rightarrow> kept_ends \<Rightarrow> 'w \<Rightarrow> bool \<times> ChildState_windows \<times> 'w" where
  "duplicate_ends W k w =
     (case DuplicateHandle W (kOut k) w of
        (None, w) \<Rightarrow> (False, new_state_windows, w)
      | (Some a, w) \<Rightarrow>
     (case DuplicateHandle W (kErr k) w of
        (None, w) \<Rightarrow> (False, new_state_windows\<lparr>woutRead := a\<rparr>, w)
      | (Some b, w) \<Rightarrow>
     (case DuplicateHandle W (kIn k) w of
        (None, w) \<Rightarrow> (False, new_state_windows\<lparr>woutRead := a, werrRead := b\<rparr>, w)
      | (Some d, w) \<Rightarrow> (True, new_state_windows\<lparr>woutRead := a, werrRead := b, winWrite := d\<rparr>, w))))"

text \<open>The list of the handles to inherit: its block, whether it was set up, and whether it holds them.\<close>

definition handle_list :: "'w spawn_api \<Rightarrow> std_handles \<Rightarrow> 'w \<Rightarrow> nat option \<times> bool \<times> bool \<times> 'w" where
  "handle_list W h w =
     (if list_api W
      then (case list_size W w of
              (n, w) \<Rightarrow>
                (case (if n \<noteq> 0 then list_alloc W n w else (None, w)) of
                   (None, w) \<Rightarrow> (None, False, False, w)
                 | (Some l, w) \<Rightarrow>
                     (case list_init W l w of
                        (False, w) \<Rightarrow> (Some l, False, False, w)
                      | (True, w) \<Rightarrow>
                          (case list_update W l [hStdInput h, hStdOutput h, hStdError h] w of
                             (listed, w) \<Rightarrow> (Some l, True, listed, w)))))
      else (None, False, False, w))"

definition closeAll_windows :: "'w spawn_api \<Rightarrow> ChildState_windows \<Rightarrow> 'w \<Rightarrow> ChildState_windows \<times> 'w" where
  "closeAll_windows W st w =
     (if \<not> wopen st then (st, w)
      else (st\<lparr>wopen := False, woutRead := 0, werrRead := 0, winWrite := 0, wprocess := 0\<rparr>,
            close_set W (wprocess st) (close_set W (winWrite st) (close_set W (werrRead st) (close_set W (woutRead st) w)))))"

text \<open>The process, once the ends are duplicated; \<open>Inl\<close> the error of a failure.\<close>

definition create_child ::
  "'w spawn_api \<Rightarrow> wstr \<Rightarrow> wstr option \<Rightarrow> wstr option \<Rightarrow> std_handles \<Rightarrow> 'w \<Rightarrow> (nat + PROCESS_INFORMATION) \<times> 'w" where
  "create_child W line block directory h w =
     (case handle_list W h w of
        (l, initialized, listed, w) \<Rightarrow>
          (case CreateProcessW W line block directory h (if listed then l else None) w of
             (r, w) \<Rightarrow>
               let failure = LastError W w;
                   w = (case l of None \<Rightarrow> w | Some b \<Rightarrow> list_free W b (if initialized then list_remove W b w else w))
               in (case r of None \<Rightarrow> Inl failure | Some info \<Rightarrow> Inr info, w)))"

definition close_originals :: "'w spawn_api \<Rightarrow> kept_ends \<Rightarrow> 'w \<Rightarrow> 'w" where
  "close_originals W k w = close_set W (kIn k) (close_set W (kErr k) (close_set W (kOut k) w))"

definition close_childs :: "'w spawn_api \<Rightarrow> std_handles \<Rightarrow> 'w \<Rightarrow> 'w" where
  "close_childs W h w = close_set W (hStdInput h) (close_set W (hStdError h) (close_set W (hStdOutput h) w))"

text \<open>A start that did not come to a process: what it had is closed, and the reason thrown.\<close>

definition abandon :: "'w spawn_api \<Rightarrow> string \<Rightarrow> nat \<Rightarrow> ChildState_windows \<Rightarrow> 'w \<Rightarrow> ChildState_windows hx \<times> 'w" where
  "abandon W step failure st w = (Inl (windowsError W step failure), snd (closeAll_windows W st w))"

definition spawn_windows :: "'w spawn_api \<Rightarrow> wstr \<Rightarrow> wstr option \<Rightarrow> wstr option \<Rightarrow> 'w \<Rightarrow> ChildState_windows hx \<times> 'w" where
  "spawn_windows W line block directory w =
     (case make_pipes_windows W w of
        (False, k, h, w) \<Rightarrow>
          let failure = LastError W w
          in abandon W ''Could not make the process's pipes'' failure new_state_windows (close_childs W h (close_originals W k w))
      | (True, k, h, w) \<Rightarrow>
          (case duplicate_ends W k w of
             (False, st, w) \<Rightarrow>
               let failure = LastError W w
               in abandon W ''Could not make the process's pipes'' failure st (close_childs W h (close_originals W k w))
           | (True, st, w) \<Rightarrow>
               (case create_child W line block directory h (close_originals W k w) of
                  (Inl failure, w) \<Rightarrow> abandon W ''Could not start the process'' failure st (close_childs W h w)
                | (Inr info, w) \<Rightarrow>
                    let w = CloseHandle W (hThread info) (close_childs W h w);
                        st = st\<lparr>wprocess := hProcess info, wpid := dwProcessId info\<rparr>
                    in if wprocess st = 0 then abandon W ''Could not start the process'' 0 st w else (Inr st, w))))"

definition crossbyte_spawn_start_windows ::
  "'w spawn_api \<Rightarrow> wstr option \<Rightarrow> wstr option list option \<Rightarrow> wstr option \<Rightarrow> wstr option list option \<Rightarrow> 'w \<Rightarrow> ChildState_windows hx \<times> 'w" where
  "crossbyte_spawn_start_windows W executable arguments directory environment w =
     (if executable = None \<or> executable = Some [] then (Inl ''No executable to start'', w)
      else (case commandLine executable (case arguments of None \<Rightarrow> [] | Some as \<Rightarrow> as) of
              Inl e \<Rightarrow> (Inl e, w)
            | Inr line \<Rightarrow> spawn_windows W line (map_option environment_block environment) (map_option (\<lambda>d. wideOf (Some d)) directory) w))"

section \<open>Afterwards\<close>

definition stateOf_windows :: "ChildState_windows option \<Rightarrow> ChildState_windows hx" where
  "stateOf_windows handle = (case handle of None \<Rightarrow> Inl ''Invalid process'' | Some st \<Rightarrow> Inr st)"

definition finalize_windows :: "'w spawn_api \<Rightarrow> ChildState_windows option \<Rightarrow> 'w \<Rightarrow> ChildState_windows option \<times> 'w" where
  "finalize_windows W handle w = (case handle of None \<Rightarrow> (None, w) | Some st \<Rightarrow> (None, snd (closeAll_windows W st w)))"

definition crossbyte_spawn_read_windows ::
  "'w spawn_api \<Rightarrow> ChildState_windows option \<Rightarrow> bool \<Rightarrow> bytes option \<Rightarrow> int \<Rightarrow> int \<Rightarrow> 'w \<Rightarrow> ((int \<times> bytes option) hx \<times> 'w) option" where
  "crossbyte_spawn_read_windows W handle fromError buffer offset len w =
     (case stateOf_windows handle of
        Inl e \<Rightarrow> Some (Inl e, w)
      | Inr st \<Rightarrow>
          (case buffer of
             None \<Rightarrow> Some (Inr (0, buffer), w)
           | Some buf \<Rightarrow>
               if offset < 0 \<or> len \<le> 0 \<or> offset > int (length buf) \<or> len > int (length buf) - offset then Some (Inr (0, buffer), w)
               else let pipe = (if fromError then werrRead st else woutRead st)
                    in if pipe = 0 then Some (Inr (0, buffer), w)
                       else (case ReadFile W pipe (nat len) w of
                               (None, w) \<Rightarrow> Some (Inr (0, buffer), w)
                             | (Some bs, w) \<Rightarrow> map_option (\<lambda>buf. (Inr (int (length bs), Some buf), w)) (blit buf (nat offset) bs))))"

definition crossbyte_spawn_write_windows ::
  "'w spawn_api \<Rightarrow> ChildState_windows option \<Rightarrow> bytes option \<Rightarrow> int \<Rightarrow> int \<Rightarrow> 'w \<Rightarrow> int hx \<times> 'w" where
  "crossbyte_spawn_write_windows W handle buffer offset len w =
     (case stateOf_windows handle of
        Inl e \<Rightarrow> (Inl e, w)
      | Inr st \<Rightarrow>
          (case buffer of
             None \<Rightarrow> (Inr (- 1), w)
           | Some buf \<Rightarrow>
               if bad_span offset len (int (length buf)) then (Inr (- 1), w)
               else if len = 0 then (Inr 0, w)
               else if winWrite st = 0 then (Inr (- 1), w)
               else (case WriteFile W (winWrite st) (slice (nat offset) (nat len) buf) w of
                       (None, w) \<Rightarrow> (Inr (- 1), w)
                     | (Some n, w) \<Rightarrow> (Inr (int n), w))))"

definition crossbyte_spawn_close_input_windows ::
  "'w spawn_api \<Rightarrow> ChildState_windows option \<Rightarrow> 'w \<Rightarrow> ChildState_windows hx \<times> 'w" where
  "crossbyte_spawn_close_input_windows W handle w =
     (case stateOf_windows handle of
        Inl e \<Rightarrow> (Inl e, w)
      | Inr st \<Rightarrow> if winWrite st \<noteq> 0 then (Inr (st\<lparr>winWrite := 0\<rparr>), CloseHandle W (winWrite st) w) else (Inr st, w))"

definition crossbyte_spawn_kill_windows :: "'w spawn_api \<Rightarrow> ChildState_windows option \<Rightarrow> 'w \<Rightarrow> ChildState_windows hx \<times> 'w" where
  "crossbyte_spawn_kill_windows W handle w =
     (case stateOf_windows handle of
        Inl e \<Rightarrow> (Inl e, w)
      | Inr st \<Rightarrow> if \<not> wopen st \<or> wwaited st then (Inr st, w) else (Inr st, TerminateProcess W (wprocess st) w))"

text \<open>An exit code, and a process's number, is handed back as a signed 32-bit number.\<close>

definition crossbyte_spawn_wait_windows ::
  "'w spawn_api \<Rightarrow> ChildState_windows option \<Rightarrow> 'w \<Rightarrow> (int \<times> ChildState_windows) hx \<times> 'w" where
  "crossbyte_spawn_wait_windows W handle w =
     (case stateOf_windows handle of
        Inl e \<Rightarrow> (Inl e, w)
      | Inr st \<Rightarrow>
          if \<not> wopen st then (Inl ''Process closed'', w)
          else (case GetExitCodeProcess W (wprocess st) (WaitForSingleObject W (wprocess st) w) of
                  (code, w) \<Rightarrow> (Inr (case code of None \<Rightarrow> 0 | Some n \<Rightarrow> sint n, st\<lparr>wwaited := True\<rparr>), w)))"

definition crossbyte_spawn_pid_windows :: "ChildState_windows option \<Rightarrow> int hx" where
  "crossbyte_spawn_pid_windows handle = (case stateOf_windows handle of Inl e \<Rightarrow> Inl e | Inr st \<Rightarrow> Inr (sint (wpid st)))"

definition crossbyte_spawn_close_windows :: "'w spawn_api \<Rightarrow> ChildState_windows option \<Rightarrow> 'w \<Rightarrow> ChildState_windows hx \<times> 'w" where
  "crossbyte_spawn_close_windows W handle w =
     (case stateOf_windows handle of
        Inl e \<Rightarrow> (Inl e, w)
      | Inr st \<Rightarrow> (case closeAll_windows W st w of (st, w) \<Rightarrow> (Inr st, w)))"


section \<open>Handles and blocks\<close>

text \<open>
  \<open>handles\<close> are the handles open, \<open>blocks\<close> the blocks allocated. What is made is new and not 0, what is closed or freed is
  gone, and no other call changes either.
\<close>

definition tracks_windows :: "'w spawn_api \<Rightarrow> ('w \<Rightarrow> int set) \<Rightarrow> ('w \<Rightarrow> nat set) \<Rightarrow> bool" where
  "tracks_windows W handles blocks \<longleftrightarrow>
     (\<forall>w w'. CreatePipe W w = (None, w') \<longrightarrow> handles w' = handles w) \<and>
     (\<forall>w a b w'. CreatePipe W w = (Some (a, b), w') \<longrightarrow> a \<noteq> 0 \<and> b \<noteq> 0 \<and> a \<noteq> b \<and> {a, b} \<inter> handles w = {} \<and> handles w' = {a, b} \<union> handles w) \<and>
     (\<forall>h w w'. DuplicateHandle W h w = (None, w') \<longrightarrow> handles w' = handles w) \<and>
     (\<forall>h w a w'. DuplicateHandle W h w = (Some a, w') \<longrightarrow> a \<noteq> 0 \<and> a \<notin> handles w \<and> handles w' = insert a (handles w)) \<and>
     (\<forall>h w. handles (CloseHandle W h w) = handles w - {h}) \<and>
     (\<forall>l b d h o' w w'. CreateProcessW W l b d h o' w = (None, w') \<longrightarrow> handles w' = handles w) \<and>
     (\<forall>l b d h o' w i w'. CreateProcessW W l b d h o' w = (Some i, w') \<longrightarrow>
        hProcess i \<noteq> 0 \<and> hProcess i \<noteq> hThread i \<and> {hProcess i, hThread i} \<inter> handles w = {} \<and> handles w' = {hProcess i, hThread i} \<union> handles w) \<and>
     keeps handles (list_size W) \<and> (\<forall>n. keeps handles (list_alloc W n)) \<and> (\<forall>l. keeps handles (list_init W l)) \<and>
     (\<forall>l hs. keeps handles (list_update W l hs)) \<and> (\<forall>l w. handles (list_remove W l w) = handles w) \<and> (\<forall>l w. handles (list_free W l w) = handles w) \<and>
     keeps blocks (CreatePipe W) \<and> (\<forall>h. keeps blocks (DuplicateHandle W h)) \<and> (\<forall>h w. blocks (CloseHandle W h w) = blocks w) \<and>
     (\<forall>l b d h o'. keeps blocks (CreateProcessW W l b d h o')) \<and>
     keeps blocks (list_size W) \<and> (\<forall>n w w'. list_alloc W n w = (None, w') \<longrightarrow> blocks w' = blocks w) \<and>
     (\<forall>n w l w'. list_alloc W n w = (Some l, w') \<longrightarrow> l \<notin> blocks w \<and> blocks w' = insert l (blocks w)) \<and>
     (\<forall>l. keeps blocks (list_init W l)) \<and> (\<forall>l hs. keeps blocks (list_update W l hs)) \<and>
     (\<forall>l w. blocks (list_remove W l w) = blocks w) \<and> (\<forall>l w. blocks (list_free W l w) = blocks w - {l}) \<and>
     (\<forall>h w. handles (TerminateProcess W h w) = handles w) \<and> (\<forall>h w. handles (WaitForSingleObject W h w) = handles w) \<and>
     (\<forall>h. keeps handles (GetExitCodeProcess W h)) \<and> (\<forall>h n. keeps handles (ReadFile W h n)) \<and> (\<forall>h bs. keeps handles (WriteFile W h bs))"

lemma tracks_windowsD:
  assumes "tracks_windows W handles blocks"
  shows "CreatePipe W w = (None, w') \<Longrightarrow> handles w' = handles w"
    and "CreatePipe W w = (Some (a, b), w') \<Longrightarrow> a \<noteq> 0 \<and> b \<noteq> 0 \<and> a \<noteq> b \<and> {a, b} \<inter> handles w = {} \<and> handles w' = {a, b} \<union> handles w"
    and "CreatePipe W w = (p, w') \<Longrightarrow> blocks w' = blocks w"
    and "DuplicateHandle W h w = (None, w') \<Longrightarrow> handles w' = handles w"
    and "DuplicateHandle W h w = (Some a, w') \<Longrightarrow> a \<noteq> 0 \<and> a \<notin> handles w \<and> handles w' = insert a (handles w)"
    and "DuplicateHandle W h w = (d, w') \<Longrightarrow> blocks w' = blocks w"
    and "CreateProcessW W l bl dir hs o' w = (None, w') \<Longrightarrow> handles w' = handles w"
    and "CreateProcessW W l bl dir hs o' w = (Some i, w') \<Longrightarrow> hProcess i \<noteq> 0 \<and> hProcess i \<noteq> hThread i
      \<and> {hProcess i, hThread i} \<inter> handles w = {} \<and> handles w' = {hProcess i, hThread i} \<union> handles w"
    and "CreateProcessW W l bl dir hs o' w = (r, w') \<Longrightarrow> blocks w' = blocks w"
  using assms unfolding tracks_windows_def keeps_def by (metis snd_conv)+

lemma tracks_windows_list:
  assumes "tracks_windows W handles blocks"
  shows "list_size W w = (n, w') \<Longrightarrow> handles w' = handles w \<and> blocks w' = blocks w"
    and "list_alloc W m w = (None, w') \<Longrightarrow> handles w' = handles w \<and> blocks w' = blocks w"
    and "list_alloc W m w = (Some l, w') \<Longrightarrow> handles w' = handles w \<and> l \<notin> blocks w \<and> blocks w' = insert l (blocks w)"
    and "list_init W l w = (b, w') \<Longrightarrow> handles w' = handles w \<and> blocks w' = blocks w"
    and "list_update W l hs w = (b, w') \<Longrightarrow> handles w' = handles w \<and> blocks w' = blocks w"
  using assms unfolding tracks_windows_def keeps_def by (metis snd_conv)+

lemma tracks_windows_do [simp]:
  assumes "tracks_windows W handles blocks"
  shows "handles (CloseHandle W h w) = handles w - {h}" "blocks (CloseHandle W h w) = blocks w"
    "handles (close_set W h w) = handles w - ({h} - {0})" "blocks (close_set W h w) = blocks w"
    "handles (list_remove W l w) = handles w" "blocks (list_remove W l w) = blocks w"
    "handles (list_free W l w) = handles w" "blocks (list_free W l w) = blocks w - {l}"
  using assms by (auto simp: tracks_windows_def close_set_def)

definition kept_set :: "kept_ends \<Rightarrow> int set" where
  "kept_set k = {kOut k, kErr k, kIn k} - {0}"

definition std_set :: "std_handles \<Rightarrow> int set" where
  "std_set h = {hStdInput h, hStdOutput h, hStdError h} - {0}"

definition state_set :: "ChildState_windows \<Rightarrow> int set" where
  "state_set st = {woutRead st, werrRead st, winWrite st, wprocess st} - {0}"

lemma closes_sets [simp]:
  assumes "tracks_windows W handles blocks"
  shows "handles (close_originals W k w) = handles w - kept_set k" "blocks (close_originals W k w) = blocks w"
    "handles (close_childs W h w) = handles w - std_set h" "blocks (close_childs W h w) = blocks w"
  using assms by (auto simp: close_originals_def close_childs_def kept_set_def std_set_def)

lemma closeAll_windows_set:
  assumes "tracks_windows W handles blocks" "closeAll_windows W st w = (st', w')"
  shows "wopen st \<Longrightarrow> handles w' = handles w - state_set st \<and> state_set st' = {}" "blocks w' = blocks w"
  using assms by (auto simp: closeAll_windows_def state_set_def split: if_splits)

lemma make_pipes_windows_set:
  assumes "tracks_windows W handles blocks" "make_pipes_windows W w = (ok, k, h, w')"
  shows "handles w' = handles w \<union> kept_set k \<union> std_set h" "(kept_set k \<union> std_set h) \<inter> handles w = {}" "blocks w' = blocks w"
    "kept_set k \<inter> std_set h = {}"
proof -
  obtain x1 w1 where 1: "CreatePipe W w = (x1, w1)" by fastforce
  obtain x2 w2 where 2: "CreatePipe W w1 = (x2, w2)" by fastforce
  obtain x3 w3 where 3: "CreatePipe W w2 = (x3, w3)" by fastforce
  note d = tracks_windowsD(1-3) [OF assms(1)]
  have "handles w' = handles w \<union> kept_set k \<union> std_set h \<and> (kept_set k \<union> std_set h) \<inter> handles w = {} \<and> blocks w' = blocks w
      \<and> kept_set k \<inter> std_set h = {}"
  proof (cases x1)
    case None
    then show ?thesis using assms(2) 1 d(1) [of w w1] d(3) [OF 1] by (auto simp: make_pipes_windows_def kept_set_def std_set_def)
  next
    case (Some p1)
    then obtain a b where p1: "x1 = Some (a, b)" by (cases p1) auto
    note d1 = d(2) [OF 1 [unfolded p1]] d(3) [OF 1]
    show ?thesis
    proof (cases x2)
      case None
      have k: "kept_set k = {a}" "std_set h = {b}" "w' = w2" using assms(2) 1 2 p1 None d1 by (auto simp: make_pipes_windows_def kept_set_def std_set_def)
      show ?thesis unfolding k using d1 d(1) [OF 2 [unfolded None]] d(3) [OF 2] by auto
    next
      case (Some p2)
      then obtain a' b' where p2: "x2 = Some (a', b')" by (cases p2) auto
      note d2 = d(2) [OF 2 [unfolded p2]] d(3) [OF 2]
      show ?thesis
      proof (cases x3)
        case None
        have k: "kept_set k = {a, a'}" "std_set h = {b, b'}" "w' = w3"
          using assms(2) 1 2 3 p1 p2 None d1(1) d2(1) by (auto simp: make_pipes_windows_def kept_set_def std_set_def)
        show ?thesis unfolding k using d1 d2 d(1) [OF 3 [unfolded None]] d(3) [OF 3] by auto
      next
        case (Some p3)
        then obtain a'' b'' where p3: "x3 = Some (a'', b'')" by (cases p3) auto
        note d3 = d(2) [OF 3 [unfolded p3]] d(3) [OF 3]
        have e: "k = \<lparr>kOut = a, kErr = a', kIn = b''\<rparr>" "h = \<lparr>hStdInput = a'', hStdOutput = b, hStdError = b'\<rparr>" "w' = w3"
          using assms(2) 1 2 3 p1 p2 p3 by (simp_all add: make_pipes_windows_def)
        have k: "kept_set k = {a, a', b''}" "std_set h = {b, b', a''}"
          unfolding e(1,2) kept_set_def std_set_def using d1(1) d2(1) d3(1) by (simp_all add: insert_commute)
        show ?thesis unfolding k e(3) using d1 d2 d3 by (auto simp del: insert_iff)
      qed
    qed
  qed
  then show "handles w' = handles w \<union> kept_set k \<union> std_set h" "(kept_set k \<union> std_set h) \<inter> handles w = {}" "blocks w' = blocks w"
    "kept_set k \<inter> std_set h = {}" by blast+
qed


lemma duplicate_ends_set:
  assumes "tracks_windows W handles blocks" "duplicate_ends W k w = (ok, st, w')"
  shows "handles w' = handles w \<union> state_set st \<and> state_set st \<inter> handles w = {} \<and> blocks w' = blocks w
    \<and> wopen st \<and> \<not> wwaited st \<and> wprocess st = 0 \<and> (ok \<longrightarrow> card (state_set st) = 3)"
proof -
  obtain x1 w1 where 1: "DuplicateHandle W (kOut k) w = (x1, w1)" by fastforce
  obtain x2 w2 where 2: "DuplicateHandle W (kErr k) w1 = (x2, w2)" by fastforce
  obtain x3 w3 where 3: "DuplicateHandle W (kIn k) w2 = (x3, w3)" by fastforce
  note d = tracks_windowsD(4-6) [OF assms(1)]
  show ?thesis
  proof (cases x1)
    case None
    then show ?thesis using assms(2) 1 d(1) [OF 1 [unfolded None]] d(3) [OF 1] by (auto simp: duplicate_ends_def state_set_def new_state_windows_def)
  next
    case p1: (Some a)
    note d1 = d(2) [OF 1 [unfolded p1]] d(3) [OF 1]
    show ?thesis
    proof (cases x2)
      case None
      then show ?thesis using assms(2) 1 2 p1 d1 d(1) [OF 2 [unfolded None]] d(3) [OF 2] by (auto simp: duplicate_ends_def state_set_def new_state_windows_def)
    next
      case p2: (Some b)
      note d2 = d(2) [OF 2 [unfolded p2]] d(3) [OF 2]
      show ?thesis
      proof (cases x3)
        case None
        then show ?thesis using assms(2) 1 2 3 p1 p2 d1 d2 d(1) [OF 3 [unfolded None]] d(3) [OF 3] by (auto simp: duplicate_ends_def state_set_def new_state_windows_def)
      next
        case p3: (Some e)
        note d3 = d(2) [OF 3 [unfolded p3]] d(3) [OF 3]
        have s: "state_set st = {a, b, e}" "wopen st" "\<not> wwaited st" "wprocess st = 0" "w' = w3"
          using assms(2) 1 2 3 p1 p2 p3 d1 d2 d3 by (auto simp: duplicate_ends_def state_set_def new_state_windows_def)
        have "a \<noteq> b" "e \<noteq> a" "e \<noteq> b" using d1 d2 d3 by auto
        then show ?thesis using s d1 d2 d3 by auto
      qed
    qed
  qed
qed

lemma handle_list_set:
  assumes "tracks_windows W handles blocks" "handle_list W h w = (l, ini, listed, w')"
  shows "handles w' = handles w \<and> (case l of None \<Rightarrow> blocks w' = blocks w | Some b \<Rightarrow> b \<notin> blocks w \<and> blocks w' = insert b (blocks w))"
proof (cases "list_api W")
  case False
  then show ?thesis using assms(2) by (auto simp: handle_list_def)
next
  case True
  obtain n w1 where n: "list_size W w = (n, w1)" by fastforce
  note d0 = tracks_windows_list(1) [OF assms(1) n]
  obtain x w2 where x: "(if n \<noteq> 0 then list_alloc W n w1 else (None, w1)) = (x, w2)" by fastforce
  show ?thesis
  proof (cases x)
    case None
    then have "handles w2 = handles w1 \<and> blocks w2 = blocks w1" using x tracks_windows_list(2) [OF assms(1)] by (auto split: if_splits)
    then show ?thesis using assms(2) True n x None d0 by (auto simp: handle_list_def)
  next
    case (Some b)
    then have d1: "handles w2 = handles w1 \<and> b \<notin> blocks w1 \<and> blocks w2 = insert b (blocks w1)"
      using x tracks_windows_list(3) [OF assms(1)] by (auto split: if_splits)
    obtain i w3 where i: "list_init W b w2 = (i, w3)" by fastforce
    obtain u w4 where u: "list_update W b [hStdInput h, hStdOutput h, hStdError h] w3 = (u, w4)" by fastforce
    note d2 = tracks_windows_list(4) [OF assms(1) i] and d3 = tracks_windows_list(5) [OF assms(1) u]
    show ?thesis using assms(2) True n x Some d0 d1 d2 d3 i u by (cases i) (auto simp: handle_list_def)
  qed
qed

lemma create_child_set:
  assumes "tracks_windows W handles blocks" "create_child W line block dir h w = (r, w')"
  shows "blocks w' = blocks w \<and> (case r of Inl e \<Rightarrow> handles w' = handles w
    | Inr i \<Rightarrow> hProcess i \<noteq> 0 \<and> hProcess i \<noteq> hThread i \<and> {hProcess i, hThread i} \<inter> handles w = {} \<and> handles w' = {hProcess i, hThread i} \<union> handles w)"
proof -
  obtain l ini listed w1 where l: "handle_list W h w = (l, ini, listed, w1)" by (metis prod_cases4)
  obtain x w2 where x: "CreateProcessW W line block dir h (if listed then l else None) w1 = (x, w2)" by fastforce
  note hl = handle_list_set [OF assms(1) l]
  have r: "r = (case x of None \<Rightarrow> Inl (LastError W w2) | Some info \<Rightarrow> Inr info)"
    and w': "w' = (case l of None \<Rightarrow> w2 | Some b \<Rightarrow> list_free W b (if ini then list_remove W b w2 else w2))"
    using assms(2) l x by (auto simp: create_child_def Let_def)
  have b: "blocks w2 = blocks w1" using tracks_windowsD(9) [OF assms(1) x] .
  have "blocks w' = blocks w" "handles w' = handles w2" unfolding w' using hl b assms(1) by (cases l; auto)+
  then show ?thesis
  proof (cases x)
    case None
    then show ?thesis unfolding r using tracks_windowsD(7) [OF assms(1) x [unfolded None]] hl \<open>blocks w' = _\<close> \<open>handles w' = _\<close> by simp
  next
    case (Some i)
    then show ?thesis unfolding r using tracks_windowsD(8) [OF assms(1) x [unfolded Some]] hl \<open>blocks w' = _\<close> \<open>handles w' = _\<close> by simp
  qed
qed

lemma abandon_set:
  assumes "tracks_windows W handles blocks" "abandon W step f st w = (r, w')" "wopen st"
  shows "(\<exists>e. r = Inl e) \<and> handles w' = handles w - state_set st \<and> blocks w' = blocks w"
proof -
  obtain s1 w1 where s: "closeAll_windows W st w = (s1, w1)" by fastforce
  then show ?thesis using assms(2,3) closeAll_windows_set [OF assms(1) s] by (auto simp: abandon_def)
qed


lemma spawn_windows_set:
  assumes "tracks_windows W handles blocks" "spawn_windows W line block dir w = (r, w')"
  shows "blocks w' = blocks w \<and> (case r of
      Inl e \<Rightarrow> handles w' = handles w
    | Inr st \<Rightarrow> state_set st \<inter> handles w = {} \<and> handles w' = handles w \<union> state_set st \<and> card (state_set st) = 4 \<and> wopen st)"
proof -
  obtain ok k h w1 where m: "make_pipes_windows W w = (ok, k, h, w1)" by (metis prod_cases4)
  note mp = make_pipes_windows_set [OF assms(1) m]
  have n: "state_set new_state_windows = {}" "wopen new_state_windows" by (simp_all add: state_set_def new_state_windows_def)
  show ?thesis
  proof (cases ok)
    case False
    then have "abandon W ''Could not make the process's pipes'' (LastError W w1) new_state_windows (close_childs W h (close_originals W k w1)) = (r, w')"
      using assms(2) m by (simp add: spawn_windows_def Let_def)
    from abandon_set [OF assms(1) this n(2)] mp n(1) assms(1) show ?thesis by auto
  next
    case True
    obtain ok' st w2 where d: "duplicate_ends W k w1 = (ok', st, w2)" by (metis prod_cases3)
    note du = duplicate_ends_set [OF assms(1) d]
    show ?thesis
    proof (cases ok')
      case False
      then have "abandon W ''Could not make the process's pipes'' (LastError W w2) st (close_childs W h (close_originals W k w2)) = (r, w')"
        using assms(2) m d True by (simp add: spawn_windows_def Let_def)
      from abandon_set [OF assms(1) this] mp du assms(1) show ?thesis by auto
    next
      case ok': True
      obtain x w3 where x: "create_child W line block dir h (close_originals W k w2) = (x, w3)" by fastforce
      note cc = create_child_set [OF assms(1) x]
      show ?thesis
      proof (cases x)
        case (Inl f)
        then have "abandon W ''Could not start the process'' f st (close_childs W h w3) = (r, w')"
          using assms(2) m d True ok' x by (simp add: spawn_windows_def Let_def)
        from abandon_set [OF assms(1) this] mp du cc Inl assms(1) show ?thesis by auto
      next
        case (Inr i)
        then have i: "hProcess i \<noteq> 0" "hProcess i \<noteq> hThread i" "{hProcess i, hThread i} \<inter> handles (close_originals W k w2) = {}"
          "handles w3 = {hProcess i, hThread i} \<union> handles (close_originals W k w2)" using cc by simp_all
        let ?st = "st\<lparr>wprocess := hProcess i, wpid := dwProcessId i\<rparr>"
        have r: "r = Inr ?st" "w' = CloseHandle W (hThread i) (close_childs W h w3)"
          using assms(2) m d True ok' x Inr i(1) by (auto simp: spawn_windows_def Let_def)
        have s: "state_set ?st = insert (hProcess i) (state_set st)" using du i(1) by (auto simp: state_set_def)
        let ?base = "handles w \<union> state_set st"
        have sets: "handles (close_originals W k w2) = (?base \<union> std_set h) - kept_set k" using mp du assms(1) by auto
        have dis: "state_set st \<inter> (handles w \<union> kept_set k \<union> std_set h) = {}" "(kept_set k \<union> std_set h) \<inter> handles w = {}" using mp du by auto
        have hs: "hProcess i \<notin> ?base" "hThread i \<notin> ?base" using i(3) sets dis by auto
        have std: "hProcess i \<notin> std_set h" "hThread i \<notin> std_set h" using i(3) sets mp(4) by auto
        have "handles w' = handles w \<union> insert (hProcess i) (state_set st)"
          unfolding r(2) using assms(1) i(2,4) sets dis hs std mp(4) by auto
        moreover have "finite (state_set st)" by (simp add: state_set_def)
        moreover have "card (state_set st) = 3" using du ok' by blast
        ultimately have "handles w' = handles w \<union> insert (hProcess i) (state_set st)" "card (insert (hProcess i) (state_set st)) = 4" using hs by simp_all
        then show ?thesis unfolding r(1) sum.case s using hs dis du cc assms(1) mp by (auto simp: r(2))
      qed
    qed
  qed
qed


lemma start_windows_set:
  assumes "tracks_windows W handles blocks" "crossbyte_spawn_start_windows W executable arguments directory environment w = (r, w')"
  shows "blocks w' = blocks w \<and> (case r of
      Inl e \<Rightarrow> handles w' = handles w
    | Inr st \<Rightarrow> state_set st \<inter> handles w = {} \<and> handles w' = handles w \<union> state_set st \<and> card (state_set st) = 4 \<and> wopen st)"
proof (cases "executable = None \<or> executable = Some []")
  case True
  then show ?thesis using assms(2) by (auto simp: crossbyte_spawn_start_windows_def)
next
  case False
  show ?thesis
  proof (cases "commandLine executable (case arguments of None \<Rightarrow> [] | Some as \<Rightarrow> as)")
    case (Inl e)
    then show ?thesis using assms(2) False by (auto simp: crossbyte_spawn_start_windows_def)
  next
    case (Inr line)
    then have "spawn_windows W line (map_option environment_block environment) (map_option (\<lambda>d. wideOf (Some d)) directory) w = (r, w')"
      using assms(2) False by (simp add: crossbyte_spawn_start_windows_def)
    then show ?thesis by (rule spawn_windows_set [OF assms(1)])
  qed
qed

datatype win_op = WCloseInput | WKill | WWait | WClose

fun win_apply :: "'w spawn_api \<Rightarrow> win_op \<Rightarrow> ChildState_windows \<Rightarrow> 'w \<Rightarrow> ChildState_windows \<times> 'w" where
  "win_apply W WCloseInput st w = (case crossbyte_spawn_close_input_windows W (Some st) w of (r, w) \<Rightarrow> (case_sum (\<lambda>_. st) id r, w))"
| "win_apply W WKill st w = (case crossbyte_spawn_kill_windows W (Some st) w of (r, w) \<Rightarrow> (case_sum (\<lambda>_. st) id r, w))"
| "win_apply W WWait st w = (case crossbyte_spawn_wait_windows W (Some st) w of (r, w) \<Rightarrow> (case_sum (\<lambda>_. st) snd r, w))"
| "win_apply W WClose st w = (case crossbyte_spawn_close_windows W (Some st) w of (r, w) \<Rightarrow> (case_sum (\<lambda>_. st) id r, w))"

fun win_applies :: "'w spawn_api \<Rightarrow> win_op list \<Rightarrow> ChildState_windows \<Rightarrow> 'w \<Rightarrow> ChildState_windows \<times> 'w" where
  "win_applies W [] st w = (st, w)"
| "win_applies W (op # ops) st w = (case win_apply W op st w of (st, w) \<Rightarrow> win_applies W ops st w)"

text \<open>The handles of a state are open and apart; a closed state has none.\<close>

definition wowns :: "('w \<Rightarrow> int set) \<Rightarrow> int set \<Rightarrow> ChildState_windows \<Rightarrow> 'w \<Rightarrow> bool" where
  "wowns handles F st w \<longleftrightarrow> handles w = F \<union> state_set st \<and> state_set st \<inter> F = {} \<and> (\<not> wopen st \<longrightarrow> state_set st = {})
     \<and> (winWrite st \<noteq> 0 \<longrightarrow> winWrite st \<notin> {woutRead st, werrRead st, wprocess st})"

lemma win_apply_owns:
  assumes "tracks_windows W handles blocks" "wowns handles F st w" "win_apply W op st w = (st', w')"
  shows "wowns handles F st' w' \<and> state_set st' \<subseteq> state_set st"
proof (cases op)
  case WCloseInput
  show ?thesis
  proof (cases "winWrite st = 0")
    case True
    then have "st' = st" "w' = w" using assms(3) WCloseInput by (simp_all add: crossbyte_spawn_close_input_windows_def stateOf_windows_def)
    then show ?thesis using assms(2) by simp
  next
    case False
    then have e: "st' = st\<lparr>winWrite := 0\<rparr>" "w' = CloseHandle W (winWrite st) w"
      using assms(3) WCloseInput by (auto simp: crossbyte_spawn_close_input_windows_def stateOf_windows_def)
    have "winWrite st \<noteq> woutRead st" "winWrite st \<noteq> werrRead st" "winWrite st \<noteq> wprocess st" using assms(2) False by (simp_all add: wowns_def)
    then have s: "state_set st' = state_set st - {winWrite st}" "winWrite st \<in> state_set st"
      using False unfolding e(1) by (auto simp: state_set_def)
    have o: "handles w = F \<union> state_set st" "state_set st \<inter> F = {}" "\<not> wopen st \<longrightarrow> state_set st = {}" using assms(2) by (simp_all add: wowns_def)
    have "handles w' = handles w - {winWrite st}" using assms(1) by (simp add: e(2))
    then have "handles w' = F \<union> state_set st'" "state_set st' \<inter> F = {}" unfolding s(1) using o(1,2) s(2) by blast+
    moreover have "\<not> wopen st' \<longrightarrow> state_set st' = {}" using o(3) s(1) by (simp add: e(1))
    moreover have "winWrite st' = 0" by (simp add: e(1))
    ultimately have "wowns handles F st' w'" unfolding wowns_def by blast
    then show ?thesis using s(1) by blast
  qed
next
  case WKill
  have "handles (TerminateProcess W h x) = handles x" for h x using assms(1) unfolding tracks_windows_def by blast
  then have "st' = st" "handles w' = handles w"
    using assms(3) WKill by (simp_all add: crossbyte_spawn_kill_windows_def stateOf_windows_def split: if_split_asm) (metis prod.inject)+
  then show ?thesis using assms(2) by (simp add: wowns_def)
next
  case WWait
  have g: "handles w2 = handles w1" if "GetExitCodeProcess W h w1 = (r, w2)" for h w1 r w2
    using assms(1) that unfolding tracks_windows_def keeps_def by (metis snd_conv)
  have ws: "handles (WaitForSingleObject W h x) = handles x" for h x using assms(1) unfolding tracks_windows_def by blast
  obtain r w2 where r: "GetExitCodeProcess W (wprocess st) (WaitForSingleObject W (wprocess st) w) = (r, w2)" by fastforce
  have "(st', w') = (if wopen st then (st\<lparr>wwaited := True\<rparr>, w2) else (st, w))"
    using assms(3) WWait r by (simp add: crossbyte_spawn_wait_windows_def stateOf_windows_def split: if_split_asm)
  then show ?thesis using assms(2) g [OF r] ws by (simp add: wowns_def state_set_def split: if_split_asm)
next
  case WClose
  obtain s1 w1 where s: "closeAll_windows W st w = (s1, w1)" by fastforce
  then have e: "st' = s1" "w' = w1" using assms(3) WClose by (simp_all add: crossbyte_spawn_close_windows_def stateOf_windows_def)
  show ?thesis
  proof (cases "wopen st")
    case True
    have z: "winWrite s1 = 0" using s True by (auto simp: closeAll_windows_def)
    have "handles w1 = handles w - state_set st" "state_set s1 = {}" using closeAll_windows_set(1) [OF assms(1) s True] by simp_all
    moreover have "handles w = F \<union> state_set st" "state_set st \<inter> F = {}" using assms(2) by (simp_all add: wowns_def)
    ultimately have "handles w1 = F" by blast
    then show ?thesis unfolding e wowns_def using z \<open>state_set s1 = {}\<close> by simp
  next
    case False
    then show ?thesis using assms(2) s unfolding e by (simp add: closeAll_windows_def)
  qed
qed

lemma win_applies_owns:
  assumes "tracks_windows W handles blocks"
  shows "wowns handles F st w \<Longrightarrow> win_applies W ops st w = (st', w') \<Longrightarrow> wowns handles F st' w' \<and> state_set st' \<subseteq> state_set st"
proof (induction ops arbitrary: st w)
  case (Cons op ops)
  obtain s1 w1 where s: "win_apply W op st w = (s1, w1)" by fastforce
  with Cons.prems(2) have "win_applies W ops s1 w1 = (st', w')" by simp
  with win_apply_owns [OF assms Cons.prems(1) s] Cons.IH show ?case by blast
qed simp


lemma four_apart:
  assumes "card ({a, b, d, p} - {0 :: int}) = 4"
  shows "d \<notin> {a, b, p}"
proof
  assume "d \<in> {a, b, p}"
  then have "{a, b, d, p} = {a, b, p}" by blast
  moreover have "card ({a, b, p} - {0}) \<le> card {a, b, p}" by (rule card_mono) auto
  moreover have "card {a, b, p} \<le> 3" by (simp add: card_insert_if)
  ultimately show False using assms by simp
qed


text \<open>A system that numbers its handles, in which one program is missing.\<close>

type_synonym win_host = "int list \<times> nat list"

definition next_handle :: "win_host \<Rightarrow> int" where
  "next_handle w = foldr max (fst w) 0 + 1"

definition demo_windows :: "win_host spawn_api" where
  "demo_windows =
     \<lparr>CreatePipe = \<lambda>w. (Some (next_handle w, next_handle w + 1), (next_handle w + 1) # next_handle w # fst w, snd w),
      DuplicateHandle = \<lambda>_ w. (Some (next_handle w), next_handle w # fst w, snd w),
      CloseHandle = \<lambda>h w. (removeAll h (fst w), snd w), LastError = \<lambda>_. 2, list_api = True, list_size = \<lambda>w. (48, w),
      list_alloc = \<lambda>_ w. if 7 \<in> set (snd w) then (None, w) else (Some 7, fst w, 7 # snd w), list_init = \<lambda>_ w. (True, w),
      list_update = \<lambda>_ _ w. (True, w), list_remove = \<lambda>_ w. w, list_free = \<lambda>l w. (fst w, removeAll l (snd w)),
      CreateProcessW = \<lambda>line _ _ _ _ w. if line ! 1 = 0x78 then (None, w)
        else (Some \<lparr>hProcess = next_handle w, hThread = next_handle w + 1, dwProcessId = 9\<rparr>, (next_handle w + 1) # next_handle w # fst w, snd w),
      FormatMessageA = \<lambda>_. ''Not found.'', ReadFile = \<lambda>_ _ w. (None, w), WriteFile = \<lambda>_ _ w. (None, w), TerminateProcess = \<lambda>_ w. w,
      WaitForSingleObject = \<lambda>_ w. w, GetExitCodeProcess = \<lambda>_ w. (Some 0, w)\<rparr>"

lemma demo_windows_tracks: "tracks_windows demo_windows (set \<circ> fst) (set \<circ> snd)"
proof -
  have n: "next_handle w \<notin> set (fst w)" "next_handle w + 1 \<notin> set (fst w)" "0 < next_handle w" for w
    using foldr_max_int [of "fst w"] by (fastforce simp: next_handle_def)+
  have z: "next_handle w \<noteq> 0" "next_handle w + 1 \<noteq> 0" for w using n(3) [of w] by auto
  show ?thesis unfolding tracks_windows_def keeps_def demo_windows_def
    by (intro conjI allI impI) (use n z in \<open>auto split: if_splits\<close>)
qed


end
