(* ===== verification/Spec2Isabelle.thy ===== *)
theory Spec2Isabelle
  imports Shared_Open Lock_File_Protocol Send_Batch Recv_Batch Socket_Select Pg_Bridge Dtls_Lookup Dtls_Channel
    Local_Handles Local_Names Local_Pipe_Stream Spawn_Race Spawn_Windows
begin

text \<open>
  Verification of the native layer of CrossByte.
\<close>

section \<open>A query, from bound values to decoded rows\<close>

lemma trimMessage_length: "length (trimMessage (Some m) fallback) \<le> max (length m) (length fallback)"
  using length_dropWhile_le [of "\<lambda>c. c = CHR 0x0A \<or> c = CHR 0x0D \<or> c = CHR '' ''" "rev m"]
    length_dropWhile_le [of "\<lambda>c. c = CHR 0x0A \<or> c = CHR 0x0D \<or> c = CHR '' ''" "rev fallback"]
  by (auto simp: trimMessage_def Let_def split: list.splits)

lemma trimMessage_fits:
  assumes "answers_fit f" and "int (length fallback) \<le> INT_MAX"
  shows "int (length (trimMessage (PQerrorMessage f c w) fallback)) \<le> INT_MAX"
proof (cases "PQerrorMessage f c w")
  case None
  have "length (trimMessage None fallback) \<le> length fallback"
    using length_dropWhile_le [of "\<lambda>c. c = CHR 0x0A \<or> c = CHR 0x0D \<or> c = CHR '' ''" "rev fallback"]
    by (auto simp: trimMessage_def Let_def)
  with None assms(2) show ?thesis by simp
next
  case (Some m)
  then have "int (length m) \<le> INT_MAX" using assms(1) by (auto simp: answers_fit_def)
  with Some assms(2) trimMessage_length [of m fallback] show ?thesis by simp
qed

lemma finish_request_decoded:
  assumes "answers_fit f" and "int (length m0) \<le> INT_MAX"
  shows "case ans of
      (None, w1) \<Rightarrow> (\<exists>block w2 m. finish_request f c m0 ans = Some (block, w2) \<and> m = trimMessage (PQerrorMessage f c w1) m0
          \<and> decodeResult (Some block) = Thrown (SQLError ''request'' m m))
    | (Some r, w1) \<Rightarrow>
        if succeeded (PQresultStatus f r w1)
        then result_size (PQresult f r w1) \<le> INT_MAX \<and> (PQnfields (PQresult f r w1) = 0 \<longrightarrow> PQntuples (PQresult f r w1) = 0) \<longrightarrow>
          (\<exists>block w2. finish_request f c m0 ans = Some (block, w2)
            \<and> decodeResult (Some block) = Value (decoded (PQresult f r w1)) (length block))
        else (\<exists>block w2 m. finish_request f c m0 ans = Some (block, w2)
            \<and> m = trimMessage (PQerrorMessage f c w1) ''Postgres query failed.''
            \<and> decodeResult (Some block) = Thrown (SQLError ''request'' m m))"
proof (cases ans)
  case (Pair r w1)
  show ?thesis
  proof (cases r)
    case None
    then show ?thesis using Pair decode_error [OF trimMessage_fits [OF assms]]
      by (auto simp: finish_request_def errorBlock_bytes)
  next
    case (Some x)
    have l: "libpq_result (PQresult f x w1)" using assms(1) by (simp add: answers_fit_def)
    show ?thesis
    proof (cases "succeeded (PQresultStatus f x w1)")
      case True
      then show ?thesis using Some Pair encodeResult_bytes [OF l] decode_result_bytes [OF l]
        by (auto simp: finish_request_def)
    next
      case False
      then show ?thesis using Some Pair decode_error [OF trimMessage_fits [OF assms(1), of "''Postgres query failed.''"]]
        by (auto simp: finish_request_def errorBlock_bytes Let_def)
    qed
  qed
qed

text \<open>
  C15. A query with bound values, end to end: the values Haxe bound are the ones libpq is handed, as many and in
  order; the rows, names, counts and tag libpq answers with are the ones Haxe decodes; and a failed query raises
  the server's message, trimmed.
\<close>

theorem pg_query:
  assumes "h_conn h = Some c" and "h_api h = Some a" and "answers_fit (calls_of L (lib_module a))"
    and "int (length (encodeParameters (Some ps))) \<le> INT_MAX"
  shows "\<exists>bound. length (vals bound) = length ps \<and> formats bound = map parameter_format ps
    \<and> map (param_sent bound) [0..<length ps] = map parameter_sent ps
    \<and> (let f = calls_of L (lib_module a);
           answer = crossbyte_postgres_request_params L (Some h) sql (Some (encodeParameters (Some ps)))
                      (int (length (encodeParameters (Some ps)))) w
       in case PQexecParams f c (c_str sql) (int (length ps)) (if ps = [] then None else Some bound) w of
            (None, w1) \<Rightarrow> (\<exists>block w2 m. answer = Some (block, w2) \<and> m = trimMessage (PQerrorMessage f c w1) ''PQexecParams returned null.''
                \<and> decodeResult (Some block) = Thrown (SQLError ''request'' m m))
          | (Some r, w1) \<Rightarrow>
              if succeeded (PQresultStatus f r w1)
              then result_size (PQresult f r w1) \<le> INT_MAX
                  \<and> (PQnfields (PQresult f r w1) = 0 \<longrightarrow> PQntuples (PQresult f r w1) = 0) \<longrightarrow>
                (\<exists>block w2. answer = Some (block, w2)
                  \<and> decodeResult (Some block) = Value (decoded (PQresult f r w1)) (length block))
              else (\<exists>block w2 m. answer = Some (block, w2)
                  \<and> m = trimMessage (PQerrorMessage f c w1) ''Postgres query failed.''
                  \<and> decodeResult (Some block) = Thrown (SQLError ''request'' m m)))"
proof -
  let ?b = "encodeParameters (Some ps)"
  from parameters_bound [OF assms(4)] obtain bound where
    p: "parseParameters (Some ?b) (int (length ?b)) = Some (Inr bound)"
    and v: "length (vals bound) = length ps" "formats bound = map parameter_format ps"
      "map (param_sent bound) [0..<length ps] = map parameter_sent ps"
    by auto
  have "0 < length ?b" by (simp add: encodeParameters_def Let_def)
  then have eq: "crossbyte_postgres_request_params L (Some h) sql (Some ?b) (int (length ?b)) w =
      finish_request (calls_of L (lib_module a)) c ''PQexecParams returned null.''
        (PQexecParams (calls_of L (lib_module a)) c (c_str sql) (int (length ps)) (if ps = [] then None else Some bound) w)"
    using assms(1,2) p v(1) by (simp add: crossbyte_postgres_request_params_def Let_def)
  show ?thesis
    by (intro exI [of _ bound] conjI v, unfold Let_def eq, rule finish_request_decoded [OF assms(3)]) simp
qed

theorem pg_query_witness:
  "\<exists>block w2. crossbyte_postgres_request_params demo_loader
       (Some \<lparr>h_api = Some \<lparr>lib_path = ''libpq.so'', lib_module = (), has_transactionStatus = True\<rparr>, h_conn = Some 0,
              h_cancel = None, h_error = ''''\<rparr>) ''SELECT $1'' (Some (encodeParameters (Some [Text (Some ''a'')])))
       (int (length (encodeParameters (Some [Text (Some ''a'')])))) demo_world = Some (block, w2)
     \<and> decodeResult (Some block) = Value (decoded sample_result) (length block)"
proof -
  let ?h = "\<lparr>h_api = Some \<lparr>lib_path = ''libpq.so'', lib_module = (), has_transactionStatus = True\<rparr>, h_conn = Some 0,
              h_cancel = None, h_error = ''''\<rparr>"
  have s: "int (length (encodeParameters (Some [Text (Some ''a'')]))) \<le> INT_MAX"
    by (simp add: encodeParameters_def Let_def)
  have r: "result_size sample_result \<le> INT_MAX" "PQnfields sample_result = 0 \<longrightarrow> PQntuples sample_result = 0"
    by (simp_all add: result_size_def sample_result_def value_size_def strlen_def upto.simps)
  show ?thesis
    using pg_query [of ?h 0 "\<lparr>lib_path = ''libpq.so'', lib_module = (), has_transactionStatus = True\<rparr>" demo_loader
        "[Text (Some ''a'')]" "''SELECT $1''" demo_world, OF _ _ demo_fits s] r
    by (auto simp: demo_loader_def demo_libpq_def demo_world_def succeeded_def Let_def)
qed

end
